(* ===== verification/Prelude.thy ===== *)
theory Prelude
  imports Main "HOL-Library.Word" "HOL-Library.Monad_Syntax"
begin

text \<open>
  Shared ground of the development: the machine types, byte-array access (the packed,
  little-endian fields of an on-disk block), C strings, and the generic lemmas on words and
  lists that the component theories use.  Nothing here depends on the file system.
\<close>

unbundle bit_operations_syntax

named_theorems field_simps_tfs \<open>how a field of a byte array reads after a write\<close>
named_theorems blk_arith \<open>block-number arithmetic, moved from words to natural numbers\<close>

section \<open>Machine types\<close>

type_synonym byte = "8 word"
type_synonym u16 = "16 word"
type_synonym u32 = "32 word"
type_synonym block = "byte list"

section \<open>Byte arrays\<close>

text \<open>\<open>memcpy (b + off) xs\<close>: the bytes of \<open>xs\<close> replace those of \<open>b\<close> from \<open>off\<close> on.\<close>

definition put_bytes :: "byte list \<Rightarrow> nat \<Rightarrow> byte list \<Rightarrow> byte list" where
  "put_bytes b off xs = take off b @ xs @ drop (off + length xs) b"

text \<open>\<open>memset (b + off) v n\<close>\<close>

definition mem_set :: "byte list \<Rightarrow> nat \<Rightarrow> byte \<Rightarrow> nat \<Rightarrow> byte list" where
  "mem_set b off v n = put_bytes b off (replicate n v)"

lemma length_put_bytes [simp]:
  "off + length xs \<le> length b \<Longrightarrow> length (put_bytes b off xs) = length b"
  by (simp add: put_bytes_def)

lemma nth_put_bytes:
  "off + length xs \<le> length b \<Longrightarrow> i < length b \<Longrightarrow>
   put_bytes b off xs ! i = (if off \<le> i \<and> i < off + length xs then xs ! (i - off) else b ! i)"
  by (auto simp: put_bytes_def nth_append min_def)

lemma put_bytes_same:
  "off + length xs \<le> length b \<Longrightarrow> take (length xs) (drop off (put_bytes b off xs)) = xs"
  by (simp add: put_bytes_def min_def)

lemma length_mem_set [simp]: "off + n \<le> length b \<Longrightarrow> length (mem_set b off v n) = length b"
  by (simp add: mem_set_def)

lemma nth_mem_set:
  "off + n \<le> length b \<Longrightarrow> i < length b \<Longrightarrow>
   mem_set b off v n ! i = (if off \<le> i \<and> i < off + n then v else b ! i)"
  by (auto simp: mem_set_def nth_put_bytes)

text \<open>A 32-bit field: four bytes, the least significant first.\<close>

definition get32 :: "byte list \<Rightarrow> nat \<Rightarrow> u32" where
  "get32 b off =
     ucast (b ! off) OR push_bit 8 (ucast (b ! (off + 1)))
     OR push_bit 16 (ucast (b ! (off + 2))) OR push_bit 24 (ucast (b ! (off + 3)))"

definition bytes32 :: "u32 \<Rightarrow> byte list" where
  "bytes32 v = [ucast v, ucast (drop_bit 8 v), ucast (drop_bit 16 v), ucast (drop_bit 24 v)]"

definition put32 :: "byte list \<Rightarrow> nat \<Rightarrow> u32 \<Rightarrow> byte list" where
  "put32 b off v = put_bytes b off (bytes32 v)"

lemma length_bytes32 [simp]: "length (bytes32 v) = 4"
  by (simp add: bytes32_def)

lemma length_put32 [simp]: "off + 4 \<le> length b \<Longrightarrow> length (put32 b off v) = length b"
  by (simp add: put32_def)

lemma u32_of_bytes32:
  "ucast (ucast v :: byte) OR push_bit 8 (ucast (ucast (drop_bit 8 v) :: byte))
   OR push_bit 16 (ucast (ucast (drop_bit 16 v) :: byte))
   OR push_bit 24 (ucast (ucast (drop_bit 24 v) :: byte)) = (v :: u32)"
proof (rule bit_word_eqI)
  fix n assume "n < LENGTH(32)"
  then consider "n < 8" | "8 \<le> n" "n < 16" | "16 \<le> n" "n < 24" | "24 \<le> n" "n < 32"
    by fastforce
  then show "bit (ucast (ucast v :: byte) OR push_bit 8 (ucast (ucast (drop_bit 8 v) :: byte))
     OR push_bit 16 (ucast (ucast (drop_bit 16 v) :: byte))
     OR push_bit 24 (ucast (ucast (drop_bit 24 v) :: byte)) :: u32) n = bit v n"
    by cases (auto simp: bit_simps)
qed

lemma get32_put32_same [simp, field_simps_tfs]:
  assumes "off + 4 \<le> length b"
  shows "get32 (put32 b off v) off = v"
proof -
  have "put32 b off v ! (off + k) = bytes32 v ! k" if "k < 4" for k
    using assms that by (simp add: put32_def nth_put_bytes)
  from this[of 0] this[of 1] this[of 2] this[of 3]
  show ?thesis by (simp add: get32_def bytes32_def u32_of_bytes32)
qed

lemma get32_put_bytes_other [field_simps_tfs]:
  assumes "off + length xs \<le> length b" and "off' + 4 \<le> length b"
    and "off' + 4 \<le> off \<or> off + length xs \<le> off'"
  shows "get32 (put_bytes b off xs) off' = get32 b off'"
proof -
  have "put_bytes b off xs ! (off' + k) = b ! (off' + k)" if "k < 4" for k
    using assms that by (auto simp: nth_put_bytes)
  from this[of 0] this[of 1] this[of 2] this[of 3]
  show ?thesis by (simp add: get32_def)
qed

lemma get32_put32_other [field_simps_tfs]:
  assumes "off + 4 \<le> length b" and "off' + 4 \<le> length b" and "off' + 4 \<le> off \<or> off + 4 \<le> off'"
  shows "get32 (put32 b off v) off' = get32 b off'"
  using assms by (simp add: put32_def get32_put_bytes_other)

lemma get32_mem_set_other [field_simps_tfs]:
  assumes "off + n \<le> length b" and "off' + 4 \<le> length b" and "off' + 4 \<le> off \<or> off + n \<le> off'"
  shows "get32 (mem_set b off v n) off' = get32 b off'"
  using assms by (simp add: mem_set_def get32_put_bytes_other)

lemma get32_update_other [field_simps_tfs]:
  "off' < off \<or> off + 4 \<le> off' \<Longrightarrow> get32 (b[off' := v]) off = get32 b off"
  by (auto simp: get32_def)

lemma get32_zeros [simp]: "off + 4 \<le> n \<Longrightarrow> get32 (replicate n 0) off = 0"
  by (simp add: get32_def)

text \<open>A run of bytes read back after a write elsewhere.\<close>

lemma slice_put_bytes_other [field_simps_tfs]:
  assumes "off + length xs \<le> length b" and "off' + n \<le> length b"
    and "off' + n \<le> off \<or> off + length xs \<le> off'"
  shows "take n (drop off' (put_bytes b off xs)) = take n (drop off' b)"
  by (rule nth_equalityI) (use assms in \<open>auto simp: nth_put_bytes\<close>)

lemma nth_put_bytes_other [field_simps_tfs]:
  "off + length xs \<le> length b \<Longrightarrow> i < length b \<Longrightarrow> i < off \<or> off + length xs \<le> i \<Longrightarrow>
   put_bytes b off xs ! i = b ! i"
  by (auto simp: nth_put_bytes)

lemma get32_put_bytes32 [field_simps_tfs]:
  "off + 4 \<le> length b \<Longrightarrow> get32 (put_bytes b off (bytes32 v)) off = v"
  using get32_put32_same by (simp add: put32_def)

section \<open>C strings\<close>

text \<open>
  A C string is the list of its characters; the terminating NUL is the end of the list, or
  the first 0 in it when the string lies in a larger array.
\<close>

definition c_str :: "byte list \<Rightarrow> byte list" where
  "c_str xs = takeWhile (\<lambda>c. c \<noteq> 0) xs"

definition c_at :: "byte list \<Rightarrow> nat \<Rightarrow> byte" where
  "c_at xs i = (if i < length xs then xs ! i else 0)"

text \<open>\<open>strncpy\<close> pads with NULs up to \<open>n\<close> and leaves no terminator when the source is longer.\<close>

definition strncpy :: "nat \<Rightarrow> byte list \<Rightarrow> byte list" where
  "strncpy n src = take n (c_str src @ replicate n 0)"

text \<open>\<open>strncmp (a, b, n) == 0\<close>, character by character.\<close>

fun strncmp_eq :: "nat \<Rightarrow> byte list \<Rightarrow> byte list \<Rightarrow> bool" where
  "strncmp_eq 0 a b = True"
| "strncmp_eq (Suc n) a b =
     (c_at a 0 = c_at b 0 \<and> (c_at a 0 = 0 \<or> strncmp_eq n (tl a) (tl b)))"

text \<open>The bytes of a string literal.\<close>

definition ascii :: "string \<Rightarrow> byte list" where
  "ascii cs = map of_char cs"

lemma of_char_word_inj: "(of_char c :: byte) = of_char d \<longleftrightarrow> c = d"
proof
  assume "(of_char c :: byte) = of_char d"
  then have "unat (of_nat (of_char c) :: byte) = unat (of_nat (of_char d) :: byte)" by (simp add: of_nat_of_char)
  then have "(of_char c :: nat) = of_char d" by (simp add: unat_of_nat)
  then show "c = d" by simp
qed simp

lemma ascii_eq [simp]: "ascii xs = ascii ys \<longleftrightarrow> xs = ys"
  unfolding ascii_def by (rule inj_map_eq_map) (simp add: inj_def of_char_word_inj)

lemma length_strncpy [simp]: "length (strncpy n src) = n"
  by (simp add: strncpy_def)

lemma c_str_Nil [simp]: "c_str [] = []"
  by (simp add: c_str_def)

lemma c_str_Cons [simp]: "c_str (x # xs) = (if x = 0 then [] else x # c_str xs)"
  by (simp add: c_str_def)

lemma c_at_Nil [simp]: "c_at [] i = 0"
  by (simp add: c_at_def)

lemma c_at_Cons_0 [simp]: "c_at (x # xs) 0 = x"
  by (simp add: c_at_def)

lemma c_str_append_zeros: "c_str (c_str xs @ replicate n 0) = c_str xs"
  by (induction xs) (auto simp: c_str_def takeWhile_replicate)

lemma c_str_take: "c_str (take n xs) = take n (c_str xs)"
  by (induction xs arbitrary: n) (auto simp: take_Cons split: nat.splits)

lemma strncmp_eq_iff: "strncmp_eq n a b \<longleftrightarrow> take n (c_str a) = take n (c_str b)"
proof (induction n a b rule: strncmp_eq.induct)
  case (2 n a b)
  then show ?case by (cases a; cases b) auto
qed simp

lemma strncmp_eq_refl [simp]: "strncmp_eq n a a"
  by (simp add: strncmp_eq_iff)

lemma c_str_strncpy: "c_str (strncpy n b) = take n (c_str b)"
  unfolding strncpy_def c_str_take c_str_append_zeros ..

lemma strncmp_eq_strncpy: "strncmp_eq n a (strncpy n b) = strncmp_eq n a b"
  by (simp add: strncmp_eq_iff c_str_strncpy)

lemma strncmp_eq_sym: "strncmp_eq n a b = strncmp_eq n b a"
  by (auto simp: strncmp_eq_iff)

lemma strncmp_eq_trans: "strncmp_eq n a b \<Longrightarrow> strncmp_eq n b c \<Longrightarrow> strncmp_eq n a c"
  by (simp add: strncmp_eq_iff)

end
