(* ===== verification/Layout.thy ===== *)
theory Layout
  imports Prelude
begin

text \<open>
  The on-disk format of TinyFS: the constants and packed structs of \<open>filesys.h\<close> and of the
  head of \<open>filesys.c\<close>.  A block is 512 bytes, whatever it holds; the union
  \<open>TFS_BLK_BUFFER\<close> is the byte array itself, and the members of \<open>TFS_DATA_BLK\<close> and
  \<open>TFS_DIR_BLK\<close> are functions that read and write its fields.  All targets (x86, AVR, Z80)
  store integers least significant byte first.
\<close>

section \<open>Constants\<close>

abbreviation TFS_NAME_LEN :: nat where "TFS_NAME_LEN \<equiv> 16"
abbreviation TFS_BLOCKSIZE_WIDTH :: nat where "TFS_BLOCKSIZE_WIDTH \<equiv> 9"
abbreviation TFS_BLOCKSIZE :: nat where "TFS_BLOCKSIZE \<equiv> 512"
abbreviation TFS_DATA_LEN :: nat where "TFS_DATA_LEN \<equiv> 504"
abbreviation TFS_DIR_BLK_ITEMS :: nat where "TFS_DIR_BLK_ITEMS \<equiv> 20"
abbreviation TFS_MAX_FDS :: nat where "TFS_MAX_FDS \<equiv> 32"

abbreviation TFS_FIRST_BITMAP_BLK :: u32 where "TFS_FIRST_BITMAP_BLK \<equiv> 0"
abbreviation TFS_ROOT_DIR_BLK :: u32 where "TFS_ROOT_DIR_BLK \<equiv> 1"
abbreviation TFS_BITMAP_BLK_INVAL :: u32 where "TFS_BITMAP_BLK_INVAL \<equiv> 0xffffffff"
abbreviation TFS_BITMAP_BLK_COUNT :: u32 where "TFS_BITMAP_BLK_COUNT \<equiv> 4096"
abbreviation TFS_BITMAP_BLK_MASK :: u32 where "TFS_BITMAP_BLK_MASK \<equiv> 4095"
abbreviation TFS_BITMAP_BLK_SHIFT :: nat where "TFS_BITMAP_BLK_SHIFT \<equiv> 12"

abbreviation TFS_ERR_OK :: byte where "TFS_ERR_OK \<equiv> 0"
abbreviation TFS_ERR_NO_DEV :: byte where "TFS_ERR_NO_DEV \<equiv> 1"
abbreviation TFS_ERR_IO :: byte where "TFS_ERR_IO \<equiv> 2"
abbreviation TFS_ERR_DISK_FULL :: byte where "TFS_ERR_DISK_FULL \<equiv> 3"
abbreviation TFS_ERR_FILE_EXIST :: byte where "TFS_ERR_FILE_EXIST \<equiv> 4"
abbreviation TFS_ERR_NOT_EXIST :: byte where "TFS_ERR_NOT_EXIST \<equiv> 5"
abbreviation TFS_ERR_NOT_EMPTY :: byte where "TFS_ERR_NOT_EMPTY \<equiv> 6"
abbreviation TFS_ERR_NO_NAME :: byte where "TFS_ERR_NO_NAME \<equiv> 7"
abbreviation TFS_ERR_NAME_INVAL :: byte where "TFS_ERR_NAME_INVAL \<equiv> 8"
abbreviation TFS_ERR_UNEXP_EOF :: byte where "TFS_ERR_UNEXP_EOF \<equiv> 9"
abbreviation TFS_ERR_NO_FREE_FD :: byte where "TFS_ERR_NO_FREE_FD \<equiv> 100"
abbreviation TFS_ERR_INVAL_FD :: byte where "TFS_ERR_INVAL_FD \<equiv> 101"
abbreviation TFS_FILE_BUSY :: byte where "TFS_FILE_BUSY \<equiv> 102"

abbreviation TFS_DIR_ITEM_FREE :: byte where "TFS_DIR_ITEM_FREE \<equiv> 0"
abbreviation TFS_DIR_ITEM_DIR :: byte where "TFS_DIR_ITEM_DIR \<equiv> 1"
abbreviation TFS_DIR_ITEM_FILE :: byte where "TFS_DIR_ITEM_FILE \<equiv> 2"

definition GET_BITMAP_BLK :: "u32 \<Rightarrow> u32" where
  "GET_BITMAP_BLK x = x AND NOT TFS_BITMAP_BLK_MASK"

section \<open>Block headers\<close>

text \<open>\<open>prev\<close> and \<open>next\<close> lie at the same place in data and directory blocks.\<close>

definition blk_prev :: "block \<Rightarrow> u32" where "blk_prev b = get32 b 0"
definition blk_next :: "block \<Rightarrow> u32" where "blk_next b = get32 b 4"
definition dir_parent :: "block \<Rightarrow> u32" where "dir_parent b = get32 b 8"

definition set_prev :: "block \<Rightarrow> u32 \<Rightarrow> block" where
  "set_prev b v = put_bytes b 0 (bytes32 v)"
definition set_next :: "block \<Rightarrow> u32 \<Rightarrow> block" where
  "set_next b v = put_bytes b 4 (bytes32 v)"
definition set_parent :: "block \<Rightarrow> u32 \<Rightarrow> block" where
  "set_parent b v = put_bytes b 8 (bytes32 v)"

text \<open>\<open>blk_buf.data.data\<close>, and \<open>memcpy\<close> into it at offset \<open>os\<close>\<close>

definition data_bytes :: "block \<Rightarrow> byte list" where
  "data_bytes b = drop 8 b"

definition put_data :: "block \<Rightarrow> nat \<Rightarrow> byte list \<Rightarrow> block" where
  "put_data b os xs = put_bytes b (8 + os) xs"

section \<open>Directory items\<close>

record dir_item =
  it_blk :: u32
  it_size :: u32
  it_type :: byte
  it_name :: "byte list"

definition item_off :: "nat \<Rightarrow> nat" where "item_off i = 12 + 25 * i"

definition item_blk :: "block \<Rightarrow> nat \<Rightarrow> u32" where "item_blk b i = get32 b (item_off i)"
definition item_size :: "block \<Rightarrow> nat \<Rightarrow> u32" where "item_size b i = get32 b (item_off i + 4)"
definition item_type :: "block \<Rightarrow> nat \<Rightarrow> byte" where "item_type b i = b ! (item_off i + 8)"
definition item_name :: "block \<Rightarrow> nat \<Rightarrow> byte list" where
  "item_name b i = take TFS_NAME_LEN (drop (item_off i + 9) b)"

definition get_item :: "block \<Rightarrow> nat \<Rightarrow> dir_item" where
  "get_item b i = \<lparr>it_blk = item_blk b i, it_size = item_size b i,
                   it_type = item_type b i, it_name = item_name b i\<rparr>"

definition set_item_blk :: "block \<Rightarrow> nat \<Rightarrow> u32 \<Rightarrow> block" where
  "set_item_blk b i v = put_bytes b (item_off i) (bytes32 v)"
definition set_item_size :: "block \<Rightarrow> nat \<Rightarrow> u32 \<Rightarrow> block" where
  "set_item_size b i v = put_bytes b (item_off i + 4) (bytes32 v)"
definition set_item_type :: "block \<Rightarrow> nat \<Rightarrow> byte \<Rightarrow> block" where
  "set_item_type b i t = put_bytes b (item_off i + 8) [t]"

text \<open>\<open>strncpy (item->name, name, TFS_NAME_LEN)\<close>\<close>

definition set_item_name :: "block \<Rightarrow> nat \<Rightarrow> byte list \<Rightarrow> block" where
  "set_item_name b i nm = put_bytes b (item_off i + 9) (strncpy TFS_NAME_LEN nm)"

text \<open>\<open>memset (blk_buf.dir.items, 0, sizeof (TFS_DIR_ITEM) * TFS_DIR_BLK_ITEMS)\<close>\<close>

definition clear_items :: "block \<Rightarrow> block" where
  "clear_items b = mem_set b 12 0 500"

lemma layout_fits: "item_off TFS_DIR_BLK_ITEMS = TFS_BLOCKSIZE" "8 + TFS_DATA_LEN = TFS_BLOCKSIZE"
  by (simp_all add: item_off_def)

lemmas layout_defs = blk_prev_def blk_next_def dir_parent_def set_prev_def set_next_def
  set_parent_def item_blk_def item_size_def item_type_def item_name_def set_item_blk_def
  set_item_size_def set_item_type_def set_item_name_def item_off_def clear_items_def
  mem_set_def data_bytes_def put_data_def

section \<open>How each field reads after each write\<close>

lemma length_setters [simp]:
  assumes "length b = TFS_BLOCKSIZE"
  shows "length (set_prev b v) = TFS_BLOCKSIZE" "length (set_next b v) = TFS_BLOCKSIZE"
    "length (set_parent b v) = TFS_BLOCKSIZE" "length (clear_items b) = TFS_BLOCKSIZE"
    "i < TFS_DIR_BLK_ITEMS \<Longrightarrow> length (set_item_blk b i v) = TFS_BLOCKSIZE"
    "i < TFS_DIR_BLK_ITEMS \<Longrightarrow> length (set_item_size b i v) = TFS_BLOCKSIZE"
    "i < TFS_DIR_BLK_ITEMS \<Longrightarrow> length (set_item_type b i t) = TFS_BLOCKSIZE"
    "i < TFS_DIR_BLK_ITEMS \<Longrightarrow> length (set_item_name b i nm) = TFS_BLOCKSIZE"
    "os + length xs \<le> TFS_DATA_LEN \<Longrightarrow> length (put_data b os xs) = TFS_BLOCKSIZE"
    "length (data_bytes b) = TFS_DATA_LEN"
  using assms by (simp_all add: layout_defs)

lemma prev_simps [simp]:
  assumes "length b = TFS_BLOCKSIZE"
  shows "blk_prev (set_prev b v) = v" "blk_prev (set_next b v) = blk_prev b"
    "blk_prev (set_parent b v) = blk_prev b" "blk_prev (clear_items b) = blk_prev b"
    "i < TFS_DIR_BLK_ITEMS \<Longrightarrow> blk_prev (set_item_blk b i v) = blk_prev b"
    "i < TFS_DIR_BLK_ITEMS \<Longrightarrow> blk_prev (set_item_size b i v) = blk_prev b"
    "i < TFS_DIR_BLK_ITEMS \<Longrightarrow> blk_prev (set_item_type b i t) = blk_prev b"
    "i < TFS_DIR_BLK_ITEMS \<Longrightarrow> blk_prev (set_item_name b i nm) = blk_prev b"
    "os + length xs \<le> TFS_DATA_LEN \<Longrightarrow> blk_prev (put_data b os xs) = blk_prev b"
  using assms by (simp_all add: layout_defs field_simps_tfs)

lemma next_simps [simp]:
  assumes "length b = TFS_BLOCKSIZE"
  shows "blk_next (set_next b v) = v" "blk_next (set_prev b v) = blk_next b"
    "blk_next (set_parent b v) = blk_next b" "blk_next (clear_items b) = blk_next b"
    "i < TFS_DIR_BLK_ITEMS \<Longrightarrow> blk_next (set_item_blk b i v) = blk_next b"
    "i < TFS_DIR_BLK_ITEMS \<Longrightarrow> blk_next (set_item_size b i v) = blk_next b"
    "i < TFS_DIR_BLK_ITEMS \<Longrightarrow> blk_next (set_item_type b i t) = blk_next b"
    "i < TFS_DIR_BLK_ITEMS \<Longrightarrow> blk_next (set_item_name b i nm) = blk_next b"
    "os + length xs \<le> TFS_DATA_LEN \<Longrightarrow> blk_next (put_data b os xs) = blk_next b"
  using assms by (simp_all add: layout_defs field_simps_tfs)

lemma parent_simps [simp]:
  assumes "length b = TFS_BLOCKSIZE"
  shows "dir_parent (set_parent b v) = v" "dir_parent (set_prev b v) = dir_parent b"
    "dir_parent (set_next b v) = dir_parent b" "dir_parent (clear_items b) = dir_parent b"
    "i < TFS_DIR_BLK_ITEMS \<Longrightarrow> dir_parent (set_item_blk b i v) = dir_parent b"
    "i < TFS_DIR_BLK_ITEMS \<Longrightarrow> dir_parent (set_item_size b i v) = dir_parent b"
    "i < TFS_DIR_BLK_ITEMS \<Longrightarrow> dir_parent (set_item_type b i t) = dir_parent b"
    "i < TFS_DIR_BLK_ITEMS \<Longrightarrow> dir_parent (set_item_name b i nm) = dir_parent b"
  using assms by (simp_all add: layout_defs field_simps_tfs)

lemma item_header_simps [simp]:
  assumes "length b = TFS_BLOCKSIZE" and "i < TFS_DIR_BLK_ITEMS"
  shows "item_blk (set_prev b v) i = item_blk b i" "item_blk (set_next b v) i = item_blk b i"
    "item_blk (set_parent b v) i = item_blk b i"
    "item_size (set_prev b v) i = item_size b i" "item_size (set_next b v) i = item_size b i"
    "item_size (set_parent b v) i = item_size b i"
    "item_type (set_prev b v) i = item_type b i" "item_type (set_next b v) i = item_type b i"
    "item_type (set_parent b v) i = item_type b i"
    "item_name (set_prev b v) i = item_name b i" "item_name (set_next b v) i = item_name b i"
    "item_name (set_parent b v) i = item_name b i"
  using assms by (simp_all add: layout_defs field_simps_tfs)

lemma item_same_simps [simp]:
  assumes "length b = TFS_BLOCKSIZE" and "i < TFS_DIR_BLK_ITEMS"
  shows "item_blk (set_item_blk b i v) i = v" "item_size (set_item_size b i v) i = v"
    "item_type (set_item_type b i t) i = t"
    "item_name (set_item_name b i nm) i = strncpy TFS_NAME_LEN nm"
proof -
  show "item_blk (set_item_blk b i v) i = v" "item_size (set_item_size b i v) i = v"
    "item_type (set_item_type b i t) i = t"
    using assms by (simp_all add: layout_defs field_simps_tfs nth_put_bytes)
  show "item_name (set_item_name b i nm) i = strncpy TFS_NAME_LEN nm"
    using assms put_bytes_same[of "item_off i + 9" "strncpy TFS_NAME_LEN nm" b]
    by (simp add: item_name_def set_item_name_def item_off_def)
qed

lemma disjoint_items:
  assumes "i \<noteq> j" shows "item_off i + 25 \<le> item_off j \<or> item_off j + 25 \<le> item_off i"
  using assms by (cases "i < j") (auto simp: item_off_def)

lemma item_other_simps [simp]:
  assumes "length b = TFS_BLOCKSIZE" and "i < TFS_DIR_BLK_ITEMS" and "j < TFS_DIR_BLK_ITEMS"
  shows "i \<noteq> j \<Longrightarrow> item_blk (set_item_blk b j v) i = item_blk b i"
    "item_blk (set_item_size b j v) i = item_blk b i"
    "item_blk (set_item_type b j t) i = item_blk b i"
    "item_blk (set_item_name b j nm) i = item_blk b i"
    "i \<noteq> j \<Longrightarrow> item_size (set_item_size b j v) i = item_size b i"
    "item_size (set_item_blk b j v) i = item_size b i"
    "item_size (set_item_type b j t) i = item_size b i"
    "item_size (set_item_name b j nm) i = item_size b i"
    "i \<noteq> j \<Longrightarrow> item_type (set_item_type b j t) i = item_type b i"
    "item_type (set_item_blk b j v) i = item_type b i"
    "item_type (set_item_size b j v) i = item_type b i"
    "item_type (set_item_name b j nm) i = item_type b i"
    "i \<noteq> j \<Longrightarrow> item_name (set_item_name b j nm) i = item_name b i"
    "item_name (set_item_blk b j v) i = item_name b i"
    "item_name (set_item_size b j v) i = item_name b i"
    "item_name (set_item_type b j t) i = item_name b i"
  using assms disjoint_items[of i j]
  by (cases "i = j"; force simp: layout_defs intro!: field_simps_tfs)+

lemma clear_items_simps [simp]:
  assumes "length b = TFS_BLOCKSIZE" and "i < TFS_DIR_BLK_ITEMS"
  shows "item_type (clear_items b) i = TFS_DIR_ITEM_FREE"
  using assms by (simp add: layout_defs nth_put_bytes)

lemma zero_block_simps [simp]:
  "blk_prev (replicate TFS_BLOCKSIZE 0) = 0" "blk_next (replicate TFS_BLOCKSIZE 0) = 0"
  "dir_parent (replicate TFS_BLOCKSIZE 0) = 0"
  "i < TFS_DIR_BLK_ITEMS \<Longrightarrow> item_type (replicate TFS_BLOCKSIZE 0) i = TFS_DIR_ITEM_FREE"
  by (simp_all add: layout_defs)

end
