(* ===== verification/Device.thy ===== *)
theory Device
  imports Layout
begin

text \<open>
  The global state of \<open>filesys.c\<close>, the porting interface it is compiled against, and the
  contract of that interface.  \<open>platform\<close> is what a port supplies (the five drive
  functions declared in \<open>filesys.h\<close>, the filename comparison and whether the extended API
  is compiled in); the locale \<open>block_device\<close> states what a drive that works promises, and
  the components' lemmas about fault-free runs are proved inside it.
\<close>

section \<open>State\<close>

record drive_info =
  di_model :: "byte list"
  di_serno :: "byte list"
  di_type :: byte
  di_blk_count :: u32

text \<open>
  A handle's \<open>dir_item\<close> points into \<open>blk_buf.dir.items\<close>; the model keeps the index, and
  \<open>None\<close> for the null pointer.
\<close>

record filehandle =
  usage_count :: byte
  dir_blk :: u32
  dir_item :: "nat option"
  fh_size :: u32
  first_blk :: u32
  curr_blk :: u32
  curr_pos :: u32

datatype format_event = FormatState byte | FormatProgress u32 u32

text \<open>
  The static and external variables of \<open>filesys.c\<close>, and the device behind the drive
  functions.  \<open>after_bitmap\<close> and \<open>after_handles\<close> are not variables of the program: they
  are the memory that follows \<open>bitmap_blk\<close> and \<open>handles\<close>, for the two places where the
  code can index one past the end.  \<open>callbacks\<close> records the calls of the user's format
  callbacks, the latest last.
\<close>

record 'd fs =
  dev :: 'd
  drive_info :: drive_info
  last_error :: byte
  last_bitmap_blk :: u32
  last_bitmap_len :: u16
  loaded_bitmap_blk :: u32
  bitmap_blk :: block
  current_dir_blk :: u32
  loaded_dir_blk :: u32
  blk_buf :: block
  handles :: "filehandle list"
  after_bitmap :: byte
  after_handles :: filehandle
  callbacks :: "format_event list"

abbreviation blk_count :: "'d fs \<Rightarrow> u32" where
  "blk_count s \<equiv> di_blk_count (drive_info s)"

section \<open>The porting interface\<close>

text \<open>
  \<open>pf_read di n buf d\<close> is \<open>drive_read_block (n, buf)\<close>: the new device, the new contents of
  the buffer, and the value stored in \<open>tfs_last_error\<close>, or \<open>None\<close> when the function does
  not touch it.  Both drivers of the repository leave \<open>tfs_last_error\<close> alone on success.
\<close>

record 'd platform =
  pf_init :: "drive_info \<Rightarrow> 'd \<Rightarrow> 'd \<times> drive_info \<times> byte"
  pf_select :: "'d \<Rightarrow> 'd"
  pf_deselect :: "'d \<Rightarrow> 'd"
  pf_read :: "drive_info \<Rightarrow> u32 \<Rightarrow> block \<Rightarrow> 'd \<Rightarrow> 'd \<times> block \<times> byte option"
  pf_write :: "drive_info \<Rightarrow> u32 \<Rightarrow> block \<Rightarrow> 'd \<Rightarrow> 'd \<times> byte option"
  pf_filename_cmp :: "byte list \<Rightarrow> byte list \<Rightarrow> bool"
  pf_extended_api :: bool

definition set_error :: "byte \<Rightarrow> 'd fs \<Rightarrow> 'd fs" where
  "set_error e s = s\<lparr>last_error := e\<rparr>"

definition note_error :: "byte option \<Rightarrow> 'd fs \<Rightarrow> 'd fs" where
  "note_error e s = (case e of None \<Rightarrow> s | Some c \<Rightarrow> set_error c s)"

definition drive_select :: "'d platform \<Rightarrow> 'd fs \<Rightarrow> 'd fs" where
  "drive_select P s = s\<lparr>dev := pf_select P (dev s)\<rparr>"

definition drive_deselect :: "'d platform \<Rightarrow> 'd fs \<Rightarrow> 'd fs" where
  "drive_deselect P s = s\<lparr>dev := pf_deselect P (dev s)\<rparr>"

text \<open>\<open>drive_read_block (n, blk_buf.raw)\<close>\<close>

definition read_buf :: "'d platform \<Rightarrow> u32 \<Rightarrow> 'd fs \<Rightarrow> 'd fs" where
  "read_buf P n s =
     (let r = pf_read P (drive_info s) n (blk_buf s) (dev s)
      in note_error (snd (snd r)) (s\<lparr>dev := fst r, blk_buf := fst (snd r)\<rparr>))"

text \<open>\<open>drive_read_block (n, bitmap_blk)\<close>\<close>

definition read_bitmap :: "'d platform \<Rightarrow> u32 \<Rightarrow> 'd fs \<Rightarrow> 'd fs" where
  "read_bitmap P n s =
     (let r = pf_read P (drive_info s) n (bitmap_blk s) (dev s)
      in note_error (snd (snd r)) (s\<lparr>dev := fst r, bitmap_blk := fst (snd r)\<rparr>))"

definition write_block :: "'d platform \<Rightarrow> u32 \<Rightarrow> block \<Rightarrow> 'd fs \<Rightarrow> 'd fs" where
  "write_block P n b s =
     (let r = pf_write P (drive_info s) n b (dev s)
      in note_error (snd r) (s\<lparr>dev := fst r\<rparr>))"

text \<open>\<open>drive_write_block (n, blk_buf.raw)\<close> and \<open>drive_write_block (n, bitmap_blk)\<close>\<close>

definition write_buf :: "'d platform \<Rightarrow> u32 \<Rightarrow> 'd fs \<Rightarrow> 'd fs" where
  "write_buf P n s = write_block P n (blk_buf s) s"

definition write_bitmap :: "'d platform \<Rightarrow> u32 \<Rightarrow> 'd fs \<Rightarrow> 'd fs" where
  "write_bitmap P n s = write_block P n (bitmap_blk s) s"

section \<open>Frame facts, for any platform\<close>

lemma set_error_simps [simp]:
  "last_error (set_error e s) = e" "dev (set_error e s) = dev s"
  "drive_info (set_error e s) = drive_info s"
  "last_bitmap_blk (set_error e s) = last_bitmap_blk s"
  "last_bitmap_len (set_error e s) = last_bitmap_len s"
  "loaded_bitmap_blk (set_error e s) = loaded_bitmap_blk s"
  "bitmap_blk (set_error e s) = bitmap_blk s"
  "current_dir_blk (set_error e s) = current_dir_blk s"
  "loaded_dir_blk (set_error e s) = loaded_dir_blk s"
  "blk_buf (set_error e s) = blk_buf s" "handles (set_error e s) = handles s"
  "after_bitmap (set_error e s) = after_bitmap s"
  "after_handles (set_error e s) = after_handles s" "callbacks (set_error e s) = callbacks s"
  by (simp_all add: set_error_def)

lemma note_error_simps [simp]:
  "last_error (note_error e s) = (case e of None \<Rightarrow> last_error s | Some c \<Rightarrow> c)"
  "dev (note_error e s) = dev s" "drive_info (note_error e s) = drive_info s"
  "last_bitmap_blk (note_error e s) = last_bitmap_blk s"
  "last_bitmap_len (note_error e s) = last_bitmap_len s"
  "loaded_bitmap_blk (note_error e s) = loaded_bitmap_blk s"
  "bitmap_blk (note_error e s) = bitmap_blk s"
  "current_dir_blk (note_error e s) = current_dir_blk s"
  "loaded_dir_blk (note_error e s) = loaded_dir_blk s"
  "blk_buf (note_error e s) = blk_buf s" "handles (note_error e s) = handles s"
  "after_bitmap (note_error e s) = after_bitmap s"
  "after_handles (note_error e s) = after_handles s" "callbacks (note_error e s) = callbacks s"
  by (simp_all add: note_error_def split: option.splits)

lemma select_simps [simp]:
  "last_error (drive_select P s) = last_error s" "drive_info (drive_select P s) = drive_info s"
  "dev (drive_select P s) = pf_select P (dev s)"
  "last_bitmap_blk (drive_select P s) = last_bitmap_blk s"
  "last_bitmap_len (drive_select P s) = last_bitmap_len s"
  "loaded_bitmap_blk (drive_select P s) = loaded_bitmap_blk s"
  "bitmap_blk (drive_select P s) = bitmap_blk s"
  "current_dir_blk (drive_select P s) = current_dir_blk s"
  "loaded_dir_blk (drive_select P s) = loaded_dir_blk s"
  "blk_buf (drive_select P s) = blk_buf s" "handles (drive_select P s) = handles s"
  "after_bitmap (drive_select P s) = after_bitmap s"
  "after_handles (drive_select P s) = after_handles s" "callbacks (drive_select P s) = callbacks s"
  by (simp_all add: drive_select_def)

lemma deselect_simps [simp]:
  "last_error (drive_deselect P s) = last_error s"
  "drive_info (drive_deselect P s) = drive_info s"
  "dev (drive_deselect P s) = pf_deselect P (dev s)"
  "last_bitmap_blk (drive_deselect P s) = last_bitmap_blk s"
  "last_bitmap_len (drive_deselect P s) = last_bitmap_len s"
  "loaded_bitmap_blk (drive_deselect P s) = loaded_bitmap_blk s"
  "bitmap_blk (drive_deselect P s) = bitmap_blk s"
  "current_dir_blk (drive_deselect P s) = current_dir_blk s"
  "loaded_dir_blk (drive_deselect P s) = loaded_dir_blk s"
  "blk_buf (drive_deselect P s) = blk_buf s" "handles (drive_deselect P s) = handles s"
  "after_bitmap (drive_deselect P s) = after_bitmap s"
  "after_handles (drive_deselect P s) = after_handles s"
  "callbacks (drive_deselect P s) = callbacks s"
  by (simp_all add: drive_deselect_def)

lemma read_buf_frame [simp]:
  "drive_info (read_buf P n s) = drive_info s"
  "last_bitmap_blk (read_buf P n s) = last_bitmap_blk s"
  "last_bitmap_len (read_buf P n s) = last_bitmap_len s"
  "loaded_bitmap_blk (read_buf P n s) = loaded_bitmap_blk s"
  "bitmap_blk (read_buf P n s) = bitmap_blk s"
  "current_dir_blk (read_buf P n s) = current_dir_blk s"
  "loaded_dir_blk (read_buf P n s) = loaded_dir_blk s"
  "handles (read_buf P n s) = handles s" "after_bitmap (read_buf P n s) = after_bitmap s"
  "after_handles (read_buf P n s) = after_handles s" "callbacks (read_buf P n s) = callbacks s"
  by (simp_all add: read_buf_def Let_def)

lemma read_bitmap_frame [simp]:
  "drive_info (read_bitmap P n s) = drive_info s"
  "last_bitmap_blk (read_bitmap P n s) = last_bitmap_blk s"
  "last_bitmap_len (read_bitmap P n s) = last_bitmap_len s"
  "loaded_bitmap_blk (read_bitmap P n s) = loaded_bitmap_blk s"
  "blk_buf (read_bitmap P n s) = blk_buf s"
  "current_dir_blk (read_bitmap P n s) = current_dir_blk s"
  "loaded_dir_blk (read_bitmap P n s) = loaded_dir_blk s"
  "handles (read_bitmap P n s) = handles s" "after_bitmap (read_bitmap P n s) = after_bitmap s"
  "after_handles (read_bitmap P n s) = after_handles s"
  "callbacks (read_bitmap P n s) = callbacks s"
  by (simp_all add: read_bitmap_def Let_def)

lemma write_block_frame [simp]:
  "drive_info (write_block P n b s) = drive_info s"
  "last_bitmap_blk (write_block P n b s) = last_bitmap_blk s"
  "last_bitmap_len (write_block P n b s) = last_bitmap_len s"
  "loaded_bitmap_blk (write_block P n b s) = loaded_bitmap_blk s"
  "bitmap_blk (write_block P n b s) = bitmap_blk s"
  "blk_buf (write_block P n b s) = blk_buf s"
  "current_dir_blk (write_block P n b s) = current_dir_blk s"
  "loaded_dir_blk (write_block P n b s) = loaded_dir_blk s"
  "handles (write_block P n b s) = handles s" "after_bitmap (write_block P n b s) = after_bitmap s"
  "after_handles (write_block P n b s) = after_handles s"
  "callbacks (write_block P n b s) = callbacks s"
  by (simp_all add: write_block_def Let_def)

lemma write_buf_frame [simp]:
  "drive_info (write_buf P n s) = drive_info s"
  "last_bitmap_blk (write_buf P n s) = last_bitmap_blk s"
  "last_bitmap_len (write_buf P n s) = last_bitmap_len s"
  "loaded_bitmap_blk (write_buf P n s) = loaded_bitmap_blk s"
  "bitmap_blk (write_buf P n s) = bitmap_blk s"
  "blk_buf (write_buf P n s) = blk_buf s"
  "current_dir_blk (write_buf P n s) = current_dir_blk s"
  "loaded_dir_blk (write_buf P n s) = loaded_dir_blk s"
  "handles (write_buf P n s) = handles s" "after_bitmap (write_buf P n s) = after_bitmap s"
  "after_handles (write_buf P n s) = after_handles s"
  "callbacks (write_buf P n s) = callbacks s"
  by (simp_all add: write_buf_def)

section \<open>The contract of a working drive\<close>

text \<open>
  \<open>contents d n\<close> is what the medium holds in block \<open>n\<close>, and \<open>dev_ok di d\<close> says that the
  device is initialised as \<open>di\<close> describes, selected, and no access fails.  Nothing is said of an access
  without \<open>drive_select\<close>: a device that has been deselected is ready for the next selection only.
\<close>

locale block_device =
  fixes P :: "'d platform" and contents :: "'d \<Rightarrow> u32 \<Rightarrow> block"
    and dev_ok :: "drive_info \<Rightarrow> 'd \<Rightarrow> bool"
  assumes length_contents [simp]: "length (contents d n) = TFS_BLOCKSIZE"
    and pf_read_ok [simp]: "dev_ok di d \<Longrightarrow> n < di_blk_count di \<Longrightarrow> length buf = TFS_BLOCKSIZE \<Longrightarrow>
      snd (pf_read P di n buf d) = (contents d n, None)"
    and pf_read_dev [simp]: "dev_ok di d \<Longrightarrow> n < di_blk_count di \<Longrightarrow> length buf = TFS_BLOCKSIZE \<Longrightarrow>
      contents (fst (pf_read P di n buf d)) = contents d"
    and pf_read_dev_ok [simp]: "dev_ok di d \<Longrightarrow> n < di_blk_count di \<Longrightarrow> length buf = TFS_BLOCKSIZE \<Longrightarrow>
      dev_ok di (fst (pf_read P di n buf d))"
    and pf_write_ok [simp]: "dev_ok di d \<Longrightarrow> n < di_blk_count di \<Longrightarrow> length b = TFS_BLOCKSIZE \<Longrightarrow>
      snd (pf_write P di n b d) = None"
    and pf_write_dev [simp]: "dev_ok di d \<Longrightarrow> n < di_blk_count di \<Longrightarrow> length b = TFS_BLOCKSIZE \<Longrightarrow>
      contents (fst (pf_write P di n b d)) = (contents d)(n := b)"
    and pf_write_dev_ok [simp]: "dev_ok di d \<Longrightarrow> n < di_blk_count di \<Longrightarrow> length b = TFS_BLOCKSIZE \<Longrightarrow>
      dev_ok di (fst (pf_write P di n b d))"
    and pf_select_dev: "dev_ok di (pf_select P d) \<Longrightarrow> contents (pf_select P d) = contents d"
    and pf_select_dev_ok [simp]: "dev_ok di d \<Longrightarrow> dev_ok di (pf_select P d)"
    and pf_deselect_dev [simp]: "contents (pf_deselect P d) = contents d"
    and pf_deselect_dev_ok [simp]: "dev_ok di (pf_select P d) \<Longrightarrow> dev_ok di (pf_select P (pf_deselect P d))"
begin

abbreviation cont :: "'d fs \<Rightarrow> u32 \<Rightarrow> block" where
  "cont s \<equiv> contents (dev s)"

text \<open>The device works and the two block buffers have their size.\<close>

definition io_ok :: "'d fs \<Rightarrow> bool" where
  "io_ok s \<longleftrightarrow> dev_ok (drive_info s) (dev s) \<and> length (blk_buf s) = TFS_BLOCKSIZE
     \<and> length (bitmap_blk s) = TFS_BLOCKSIZE"

lemma read_buf_ok [simp]:
  assumes "io_ok s" and "n < blk_count s"
  shows "last_error (read_buf P n s) = last_error s" "blk_buf (read_buf P n s) = cont s n"
    "cont (read_buf P n s) = cont s" "io_ok (read_buf P n s)"
  using assms by (auto simp: read_buf_def io_ok_def Let_def)

lemma read_bitmap_ok [simp]:
  assumes "io_ok s" and "n < blk_count s"
  shows "last_error (read_bitmap P n s) = last_error s" "bitmap_blk (read_bitmap P n s) = cont s n"
    "cont (read_bitmap P n s) = cont s" "io_ok (read_bitmap P n s)"
  using assms by (auto simp: read_bitmap_def io_ok_def Let_def)

lemma write_block_ok [simp]:
  assumes "io_ok s" and "n < blk_count s" and "length b = TFS_BLOCKSIZE"
  shows "last_error (write_block P n b s) = last_error s"
    "cont (write_block P n b s) = (cont s)(n := b)" "io_ok (write_block P n b s)"
  using assms by (auto simp: write_block_def io_ok_def Let_def)

lemma io_ok_select [simp]:
  "io_ok s \<Longrightarrow> io_ok (drive_select P s)"
  "io_ok (drive_select P s) \<Longrightarrow> io_ok (drive_select P (drive_deselect P s))"
  by (simp_all add: io_ok_def)

text \<open>Selecting the device does not change what it holds.\<close>

lemma cont_select: "io_ok (drive_select P s) \<Longrightarrow> contents (pf_select P (dev s)) = cont s"
  using pf_select_dev[of "drive_info s" "dev s"] by (simp add: io_ok_def)

lemma io_ok_select_updates [simp]:
  "io_ok (drive_select P (set_error e s)) = io_ok (drive_select P s)"
  "io_ok (drive_select P (s\<lparr>current_dir_blk := n\<rparr>)) = io_ok (drive_select P s)"
  by (simp_all add: io_ok_def drive_select_def)

lemma io_ok_updates [simp]:
  "io_ok (s\<lparr>last_error := e\<rparr>) = io_ok s" "io_ok (set_error e s) = io_ok s"
  "io_ok (s\<lparr>loaded_bitmap_blk := n\<rparr>) = io_ok s" "io_ok (s\<lparr>loaded_dir_blk := n\<rparr>) = io_ok s"
  "io_ok (s\<lparr>current_dir_blk := n\<rparr>) = io_ok s" "io_ok (s\<lparr>handles := hs\<rparr>) = io_ok s"
  "io_ok (s\<lparr>callbacks := c\<rparr>) = io_ok s" "io_ok (s\<lparr>after_bitmap := x\<rparr>) = io_ok s"
  "io_ok (s\<lparr>after_handles := h\<rparr>) = io_ok s"
  "io_ok s \<Longrightarrow> length b = TFS_BLOCKSIZE \<Longrightarrow> io_ok (s\<lparr>blk_buf := b\<rparr>)"
  "io_ok s \<Longrightarrow> length b = TFS_BLOCKSIZE \<Longrightarrow> io_ok (s\<lparr>bitmap_blk := b\<rparr>)"
  by (simp_all add: io_ok_def)

lemma io_ok_lengths [simp]:
  "io_ok s \<Longrightarrow> length (blk_buf s) = TFS_BLOCKSIZE" "io_ok s \<Longrightarrow> length (bitmap_blk s) = TFS_BLOCKSIZE"
  by (simp_all add: io_ok_def)

end

end
