(* ===== verification/Linux_Drive.thy ===== *)
theory Linux_Drive
  imports Device
begin

text \<open>
  The Linux port: \<open>linux/drive.c\<close> over the POSIX file calls, and the error table of
  \<open>linux/err_handler.c\<close>.  The open file is a byte array with a size and an offset; every
  system call first consults \<open>ld_outcomes\<close>, which says whether it succeeds, fails with a
  negative result or transfers fewer bytes, so that every fault schedule is a value of the
  state.  When the schedule is exhausted every call succeeds.
\<close>

section \<open>The file behind the drive\<close>

datatype file_mode = S_IFREG | S_IFBLK | S_IFOTHER

datatype sys_outcome = SysOk | SysFail | SysShort nat

record linux_dev =
  ld_mode :: file_mode
  ld_size :: nat
  ld_data :: "nat \<Rightarrow> byte"
  ld_pos :: nat
  ld_outcomes :: "sys_outcome list"

definition sys_outcome :: "linux_dev \<Rightarrow> sys_outcome" where
  "sys_outcome d = (case ld_outcomes d of [] \<Rightarrow> SysOk | x # _ \<Rightarrow> x)"

definition sys_step :: "linux_dev \<Rightarrow> linux_dev" where
  "sys_step d = d\<lparr>ld_outcomes := tl (ld_outcomes d)\<rparr>"

definition sys_count :: "sys_outcome \<Rightarrow> nat \<Rightarrow> nat" where
  "sys_count r n = (case r of SysShort k \<Rightarrow> min k n | _ \<Rightarrow> n)"

text \<open>\<open>lseek (fd, off, SEEK_SET) < 0\<close> is the \<open>True\<close> in the result.\<close>

definition sys_lseek :: "nat \<Rightarrow> linux_dev \<Rightarrow> bool \<times> linux_dev" where
  "sys_lseek off d =
     (if sys_outcome d = SysFail then (True, sys_step d)
      else (False, (sys_step d)\<lparr>ld_pos := off\<rparr>))"

text \<open>\<open>read\<close>: \<open>None\<close> for a negative result, else the bytes transferred.\<close>

definition sys_read :: "nat \<Rightarrow> linux_dev \<Rightarrow> byte list option \<times> linux_dev" where
  "sys_read n d =
     (if sys_outcome d = SysFail then (None, sys_step d)
      else let k = sys_count (sys_outcome d) (min n (ld_size d - ld_pos d))
           in (Some (map (ld_data d) [ld_pos d..<ld_pos d + k]),
               (sys_step d)\<lparr>ld_pos := ld_pos d + k\<rparr>))"

definition sys_write :: "byte list \<Rightarrow> linux_dev \<Rightarrow> bool \<times> linux_dev" where
  "sys_write bs d =
     (if sys_outcome d = SysFail then (True, sys_step d)
      else let k = sys_count (sys_outcome d) (length bs); p = ld_pos d
           in (False, (sys_step d)\<lparr>ld_pos := p + k, ld_size := max (ld_size d) (p + k),
                 ld_data := (\<lambda>i. if p \<le> i \<and> i < p + k then bs ! (i - p) else ld_data d i)\<rparr>))"

section \<open>linux/drive.c\<close>

text \<open>\<open>open\<close> and \<open>close\<close>: the result the C functions return.\<close>

definition drive_open :: "linux_dev \<Rightarrow> int \<times> linux_dev" where
  "drive_open d = (if sys_outcome d = SysFail then (-1, sys_step d) else (0, (sys_step d)\<lparr>ld_pos := 0\<rparr>))"

definition drive_close :: "linux_dev \<Rightarrow> int \<times> linux_dev" where
  "drive_close d = (if sys_outcome d = SysFail then -1 else 0, sys_step d)"

definition linux_drive_init :: "drive_info \<Rightarrow> linux_dev \<Rightarrow> linux_dev \<times> drive_info \<times> byte" where
  "linux_drive_init di d =
     (let zero = \<lparr>di_model = replicate 33 0, di_serno = replicate 21 0, di_type = 0, di_blk_count = 0\<rparr>;
          d1 = sys_step d
      in if sys_outcome d = SysFail then (d1, zero, TFS_ERR_NO_DEV)
         else case ld_mode d of
           S_IFREG \<Rightarrow>
             (d1, zero\<lparr>di_model := strncpy 33 (ascii ''mmc-emu''), di_serno := strncpy 21 (ascii ''N/A''),
                       di_blk_count := of_nat (ld_size d div TFS_BLOCKSIZE)\<rparr>, TFS_ERR_OK)
         | S_IFBLK \<Rightarrow>
             (if sys_outcome d1 = SysFail then (sys_step d1, zero, TFS_ERR_NO_DEV)
              else (sys_step d1,
                    zero\<lparr>di_model := strncpy 33 (ascii ''sd-card''), di_serno := strncpy 21 (ascii ''N/A''),
                         di_blk_count := of_nat (ld_size d div TFS_BLOCKSIZE)\<rparr>, TFS_ERR_OK))
         | S_IFOTHER \<Rightarrow> (d1, zero, TFS_ERR_NO_DEV))"

definition linux_read_block ::
    "drive_info \<Rightarrow> u32 \<Rightarrow> block \<Rightarrow> linux_dev \<Rightarrow> linux_dev \<times> block \<times> byte option" where
  "linux_read_block di blkno data d =
     (if di_blk_count di \<le> blkno then (d, data, Some TFS_ERR_IO)
      else let (bad, d1) = sys_lseek (unat blkno * TFS_BLOCKSIZE) d
           in if bad then (d1, data, Some TFS_ERR_IO)
              else case sys_read TFS_BLOCKSIZE d1 of
                     (None, d2) \<Rightarrow> (d2, data, Some TFS_ERR_IO)
                   | (Some bs, d2) \<Rightarrow> (d2, bs @ drop (length bs) data, None))"

definition linux_write_block ::
    "drive_info \<Rightarrow> u32 \<Rightarrow> block \<Rightarrow> linux_dev \<Rightarrow> linux_dev \<times> byte option" where
  "linux_write_block di blkno data d =
     (if di_blk_count di \<le> blkno then (d, Some TFS_ERR_IO)
      else let (bad, d1) = sys_lseek (unat blkno * TFS_BLOCKSIZE) d
           in if bad then (d1, Some TFS_ERR_IO)
              else let (bad, d2) = sys_write data d1
                   in (d2, if bad then Some TFS_ERR_IO else None))"

text \<open>\<open>drive_select\<close> and \<open>drive_deselect\<close> are empty functions here.\<close>

definition linux_drive_select :: "linux_dev \<Rightarrow> linux_dev" where
  "linux_drive_select d = d"

definition linux_drive_deselect :: "linux_dev \<Rightarrow> linux_dev" where
  "linux_drive_deselect d = d"

text \<open>The default \<open>TFS_FILENAME_CMP\<close> of \<open>filesys.c\<close>\<close>

definition strncmp_filename_cmp :: "byte list \<Rightarrow> byte list \<Rightarrow> bool" where
  "strncmp_filename_cmp ref cmp = strncmp_eq TFS_NAME_LEN ref cmp"

definition linux_platform :: "linux_dev platform" where
  "linux_platform = \<lparr>pf_init = linux_drive_init, pf_select = linux_drive_select,
     pf_deselect = linux_drive_deselect, pf_read = linux_read_block, pf_write = linux_write_block,
     pf_filename_cmp = strncmp_filename_cmp, pf_extended_api = True\<rparr>"

lemma linux_platform_simps [simp]:
  "pf_init linux_platform = linux_drive_init" "pf_select linux_platform = linux_drive_select"
  "pf_deselect linux_platform = linux_drive_deselect"
  "pf_read linux_platform = linux_read_block" "pf_write linux_platform = linux_write_block"
  "pf_filename_cmp linux_platform = strncmp_filename_cmp" "pf_extended_api linux_platform = True"
  by (simp_all add: linux_platform_def)

section \<open>The Linux drive is a working block device when no call fails\<close>

definition linux_contents :: "linux_dev \<Rightarrow> u32 \<Rightarrow> block" where
  "linux_contents d n = map (ld_data d) [unat n * TFS_BLOCKSIZE..<unat n * TFS_BLOCKSIZE + TFS_BLOCKSIZE]"

definition linux_ok :: "drive_info \<Rightarrow> linux_dev \<Rightarrow> bool" where
  "linux_ok di d \<longleftrightarrow> ld_outcomes d = [] \<and> unat (di_blk_count di) * TFS_BLOCKSIZE \<le> ld_size d"

lemma sys_outcome_ok [simp]: "ld_outcomes d = [] \<Longrightarrow> sys_outcome d = SysOk"
  by (simp add: sys_outcome_def)

lemma linux_block_in_file:
  assumes "linux_ok di d" and "n < di_blk_count di"
  shows "unat n * TFS_BLOCKSIZE + TFS_BLOCKSIZE \<le> ld_size d"
proof -
  have "unat n + 1 \<le> unat (di_blk_count di)" using assms(2) by (simp add: word_less_nat_alt)
  then have "(unat n + 1) * TFS_BLOCKSIZE \<le> unat (di_blk_count di) * TFS_BLOCKSIZE"
    by (rule mult_le_mono1)
  with assms(1) show ?thesis by (simp add: linux_ok_def)
qed

lemma linux_read_block_ok:
  assumes "linux_ok di d" and "n < di_blk_count di" and "length buf = TFS_BLOCKSIZE"
  shows "linux_read_block di n buf d =
    (d\<lparr>ld_pos := unat n * TFS_BLOCKSIZE + TFS_BLOCKSIZE, ld_outcomes := []\<rparr>, linux_contents d n, None)"
  using assms linux_block_in_file[OF assms(1,2)]
  by (simp add: linux_read_block_def sys_lseek_def sys_read_def linux_ok_def sys_step_def
      sys_count_def linux_contents_def Let_def min_def sys_outcome_def not_le)

lemma linux_write_block_ok:
  assumes "linux_ok di d" and "n < di_blk_count di" and "length b = TFS_BLOCKSIZE"
  shows "linux_write_block di n b d =
    (let p = unat n * TFS_BLOCKSIZE in
     (d\<lparr>ld_pos := p + TFS_BLOCKSIZE, ld_outcomes := [],
        ld_data := (\<lambda>i. if p \<le> i \<and> i < p + TFS_BLOCKSIZE then b ! (i - p) else ld_data d i)\<rparr>, None))"
  using assms linux_block_in_file[OF assms(1,2)]
  by (simp add: linux_write_block_def sys_lseek_def sys_write_def linux_ok_def sys_step_def
      sys_count_def Let_def max_absorb1 sys_outcome_def not_le cong: if_cong)

lemma linux_contents_write:
  assumes "length b = TFS_BLOCKSIZE"
  shows "linux_contents (d\<lparr>ld_pos := q, ld_outcomes := os, ld_data := (\<lambda>i.
      if unat n * TFS_BLOCKSIZE \<le> i \<and> i < unat n * TFS_BLOCKSIZE + TFS_BLOCKSIZE
      then b ! (i - unat n * TFS_BLOCKSIZE) else ld_data d i)\<rparr>) = (linux_contents d)(n := b)"
proof (rule ext)
  fix m :: u32
  consider "m = n" | "unat m < unat n" | "unat n < unat m"
    by (metis linorder_neqE_nat word_unat_eq_iff)
  then show "linux_contents (d\<lparr>ld_pos := q, ld_outcomes := os, ld_data := (\<lambda>i.
      if unat n * TFS_BLOCKSIZE \<le> i \<and> i < unat n * TFS_BLOCKSIZE + TFS_BLOCKSIZE
      then b ! (i - unat n * TFS_BLOCKSIZE) else ld_data d i)\<rparr>) m = ((linux_contents d)(n := b)) m"
    by cases (auto intro!: nth_equalityI simp: linux_contents_def assms)
qed

interpretation ld: block_device linux_platform linux_contents linux_ok
proof unfold_locales
  show "length (linux_contents d n) = TFS_BLOCKSIZE" for d n
    by (simp add: linux_contents_def)
next
  fix di d and n :: u32 and buf :: block
  assume a: "linux_ok di d" "n < di_blk_count di" "length buf = TFS_BLOCKSIZE"
  note r = linux_read_block_ok[OF a] and w = linux_write_block_ok[OF a]
  show "snd (pf_read linux_platform di n buf d) = (linux_contents d n, None)"
    by (simp add: r)
  show "linux_contents (fst (pf_read linux_platform di n buf d)) = linux_contents d"
    by (simp add: r fun_eq_iff linux_contents_def)
  show "linux_ok di (fst (pf_read linux_platform di n buf d))"
    using a(1) by (simp add: r linux_ok_def)
  show "snd (pf_write linux_platform di n buf d) = None"
    by (simp add: w Let_def)
  show "linux_contents (fst (pf_write linux_platform di n buf d)) = (linux_contents d)(n := buf)"
    by (simp add: w Let_def linux_contents_write a(3))
  show "linux_ok di (fst (pf_write linux_platform di n buf d))"
    using a(1) by (simp add: w Let_def linux_ok_def)
qed (simp_all add: linux_drive_select_def linux_drive_deselect_def)

text \<open>There is nothing to select here.\<close>

lemma linux_select [simp]: "drive_select linux_platform s = s" "drive_deselect linux_platform s = s"
  "linux_drive_select d = d" "linux_drive_deselect d = d"
  by (simp_all add: drive_select_def drive_deselect_def linux_drive_select_def linux_drive_deselect_def)

lemma linux_io_select: "ld.io_ok (drive_select linux_platform s) = ld.io_ok s"
  by simp

section \<open>linux/err_handler.c\<close>

text \<open>The error numbers of Linux that the table names.\<close>

definition errors :: "(byte \<times> string \<times> int) list" where
  "errors =
    [(TFS_ERR_OK, ''OK.'', 0),
     (TFS_ERR_NO_DEV, ''No device found.'', 19),
     (TFS_ERR_IO, ''I/O error.'', 5),
     (TFS_ERR_DISK_FULL, ''Disk full.'', 28),
     (TFS_ERR_FILE_EXIST, ''File already exists'', 17),
     (TFS_ERR_NOT_EXIST, ''File not exists.'', 2),
     (TFS_ERR_NOT_EMPTY, ''Directory not empty.'', 39),
     (TFS_ERR_NO_NAME, ''No filename given.'', 22),
     (TFS_ERR_NAME_INVAL, ''Invalid filename.'', 22),
     (TFS_ERR_UNEXP_EOF, ''Unexpected end of file.'', 29),
     (TFS_ERR_NO_FREE_FD, ''No free FD available.'', 24),
     (TFS_ERR_INVAL_FD, ''Invalid file handle.'', 9),
     (TFS_FILE_BUSY, ''File is busy.'', 26)]"

fun find_error :: "(byte \<times> string \<times> int) list \<Rightarrow> byte \<Rightarrow> int option" where
  "find_error [] e = None"
| "find_error ((v, msg, err) # rest) e = (if v = e then Some (- err) else find_error rest e)"

definition check_error :: "byte \<Rightarrow> int" where
  "check_error e =
     (if e = TFS_ERR_OK then 0
      else case find_error errors e of Some r \<Rightarrow> r | None \<Rightarrow> - 5)"

lemma check_error_negative: "e \<noteq> TFS_ERR_OK \<Longrightarrow> check_error e < 0"
  by (simp add: check_error_def errors_def)

end
