(* ===== verification/Bitmap.thy ===== *)
theory Bitmap
  imports Linux_Drive
begin

text \<open>
  The allocation bitmap of \<open>filesys.c\<close>: \<open>load_bitmap\<close>, \<open>alloc_block\<close>, \<open>free_block\<close>.
  Block \<open>n\<close> has bit \<open>n mod 4096\<close> in the bitmap block at \<open>n - n mod 4096\<close>; one bitmap block is
  cached in \<open>bitmap_blk\<close> and named by \<open>loaded_bitmap_blk\<close>.  The abstract view is the set of
  used blocks; \<open>alloc_block\<close> and \<open>free_block\<close> are shown to add and remove one element.
\<close>

section \<open>Operations\<close>

definition load_bitmap :: "'d platform \<Rightarrow> u32 \<Rightarrow> 'd fs \<Rightarrow> 'd fs" where
  "load_bitmap P pos s =
     (let s = read_bitmap P pos s
      in if last_error s \<noteq> TFS_ERR_OK then s\<lparr>loaded_bitmap_blk := TFS_BITMAP_BLK_INVAL\<rparr>
         else s\<lparr>loaded_bitmap_blk := pos\<rparr>)"

text \<open>The values of \<open>for (mask = 1; mask != 0; mask <<= 1)\<close> on a \<open>uint8_t\<close>\<close>

definition masks :: "byte list" where
  "masks = [1, 2, 4, 8, 16, 32, 64, 128]"

text \<open>The two search loops of \<open>alloc_block\<close>: the byte index, the mask and the block of the
  first zero bit.\<close>

fun scan_byte :: "byte list \<Rightarrow> byte \<Rightarrow> u32 \<Rightarrow> (byte \<times> u32) option" where
  "scan_byte [] p block = None"
| "scan_byte (m # ms) p block =
     (if p AND m = 0 then Some (m, block) else scan_byte ms p (block + 1))"

fun scan_bitmap :: "byte list \<Rightarrow> nat \<Rightarrow> u32 \<Rightarrow> (nat \<times> byte \<times> u32) option" where
  "scan_bitmap [] i block = None"
| "scan_bitmap (p # ps) i block =
     (if p \<noteq> 0xff
      then case scan_byte masks p block of
             Some (m, block') \<Rightarrow> Some (i, m, block')
           | None \<Rightarrow> scan_bitmap ps (i + 1) (block + 8 + 8)
      else scan_bitmap ps (i + 1) (block + 8))"

definition next_bitmap :: "'d fs \<Rightarrow> u32 \<Rightarrow> u32" where
  "next_bitmap s pos =
     (if pos = last_bitmap_blk s then TFS_FIRST_BITMAP_BLK else pos + TFS_BITMAP_BLK_COUNT)"

text \<open>\<open>*p |= mask\<close>, the write of the bitmap block and the return that follows.\<close>

definition mark_used :: "'d platform \<Rightarrow> nat \<Rightarrow> byte \<Rightarrow> u32 \<Rightarrow> 'd fs \<Rightarrow> u32 \<times> 'd fs" where
  "mark_used P i m block s =
     (let s = s\<lparr>bitmap_blk := (bitmap_blk s)[i := bitmap_blk s ! i OR m]\<rparr>;
          s = write_bitmap P (loaded_bitmap_blk s) s
      in if last_error s \<noteq> TFS_ERR_OK then (0, s) else (block, s))"

partial_function (option) alloc_loop :: "'d platform \<Rightarrow> u32 \<Rightarrow> u32 \<Rightarrow> 'd fs \<Rightarrow> (u32 \<times> 'd fs) option" where
  "alloc_loop P start pos s =
     (let found = (case scan_bitmap (bitmap_blk s) 0 pos of
                     None \<Rightarrow> None
                   | Some (i, m, block) \<Rightarrow>
                       if blk_count s \<le> block then None else Some (i, m, block))
      in case found of
           Some (i, m, block) \<Rightarrow> Some (mark_used P i m block s)
         | None \<Rightarrow>
             let pos = next_bitmap s pos
             in if pos = start
                then Some (0, set_error TFS_ERR_DISK_FULL (s\<lparr>loaded_bitmap_blk := TFS_BITMAP_BLK_INVAL\<rparr>))
                else let s = load_bitmap P pos s
                     in if last_error s \<noteq> TFS_ERR_OK then Some (0, s)
                        else alloc_loop P start pos s)"

definition alloc_block :: "'d platform \<Rightarrow> 'd fs \<Rightarrow> (u32 \<times> 'd fs) option" where
  "alloc_block P s =
     (if loaded_bitmap_blk s = TFS_BITMAP_BLK_INVAL
      then Some (0, set_error TFS_ERR_DISK_FULL s)
      else alloc_loop P (loaded_bitmap_blk s) (loaded_bitmap_blk s) s)"

text \<open>\<open>bitmap_blk[offset] &= ~mask\<close> and the write of the bitmap block.\<close>

definition mark_unused :: "'d platform \<Rightarrow> u32 \<Rightarrow> 'd fs \<Rightarrow> 'd fs" where
  "mark_unused P pos s =
     (let offset = unat (pos AND TFS_BITMAP_BLK_MASK);
          m = push_bit (offset mod 8) 1;
          i = offset div 8;
          s = s\<lparr>bitmap_blk := (bitmap_blk s)[i := bitmap_blk s ! i AND NOT m]\<rparr>
      in write_bitmap P (loaded_bitmap_blk s) s)"

definition free_block :: "'d platform \<Rightarrow> u32 \<Rightarrow> 'd fs \<Rightarrow> 'd fs" where
  "free_block P pos s =
     (let tmp = GET_BITMAP_BLK pos
      in if loaded_bitmap_blk s \<noteq> tmp
         then let s = load_bitmap P tmp s
              in if last_error s \<noteq> TFS_ERR_OK then s else mark_unused P pos s
         else mark_unused P pos s)"

section \<open>Block numbers and their bits\<close>

lemma mask_4095: "(4095 :: u32) = mask 12"
  by (simp add: mask_eq_exp_minus_1)

lemma unat_and_mask [blk_arith]: "unat (n AND TFS_BITMAP_BLK_MASK) = unat n mod 4096"
  by (simp add: mask_4095 unsigned_take_bit_eq flip: take_bit_eq_mask) (simp add: take_bit_eq_mod)

lemma get_bitmap_minus: "GET_BITMAP_BLK n = n - (n AND TFS_BITMAP_BLK_MASK)"
proof -
  have "n - (n AND TFS_BITMAP_BLK_MASK) = n AND NOT (n AND TFS_BITMAP_BLK_MASK)"
    by (rule disjunctive_diff_eq_and_not) (auto simp: bit_eq_iff bit_simps)
  also have "\<dots> = n AND NOT TFS_BITMAP_BLK_MASK"
    by (auto simp: bit_eq_iff bit_simps)
  finally show ?thesis by (simp add: GET_BITMAP_BLK_def)
qed

lemma unat_get_bitmap [blk_arith]: "unat (GET_BITMAP_BLK n) = 4096 * (unat n div 4096)"
proof -
  have "n AND TFS_BITMAP_BLK_MASK \<le> n" by (rule word_and_le2)
  then have "unat (GET_BITMAP_BLK n) = unat n - unat n mod 4096"
    by (simp add: get_bitmap_minus unat_sub unat_and_mask)
  then show ?thesis by (simp add: minus_mod_eq_mult_div)
qed

definition is_bitmap_blk :: "u32 \<Rightarrow> bool" where
  "is_bitmap_blk n \<longleftrightarrow> GET_BITMAP_BLK n = n"

lemma is_bitmap_iff: "is_bitmap_blk n \<longleftrightarrow> unat n mod 4096 = 0"
proof -
  have "is_bitmap_blk n \<longleftrightarrow> 4096 * (unat n div 4096) = unat n"
    by (simp add: is_bitmap_blk_def word_unat_eq_iff unat_get_bitmap)
  then show ?thesis by (metis mult_div_mod_eq add_cancel_left_right mod_mult_self1_is_0)
qed

lemma get_bitmap_idem [simp]: "GET_BITMAP_BLK (GET_BITMAP_BLK n) = GET_BITMAP_BLK n"
  by (simp add: word_unat_eq_iff unat_get_bitmap)

lemma is_bitmap_get [simp]: "is_bitmap_blk (GET_BITMAP_BLK n)"
  by (simp add: is_bitmap_blk_def)

lemma get_bitmap_le: "GET_BITMAP_BLK n \<le> n"
  by (simp add: word_le_nat_alt unat_get_bitmap)

lemma inval_not_bitmap: "\<not> is_bitmap_blk TFS_BITMAP_BLK_INVAL"
  by (simp add: is_bitmap_iff)

lemma get_bitmap_mono: "m \<le> n \<Longrightarrow> GET_BITMAP_BLK m \<le> GET_BITMAP_BLK n"
  by (simp add: word_le_nat_alt unat_get_bitmap div_le_mono)

text \<open>Bit \<open>j\<close> of a bitmap block, and the used bit of a block on a medium.\<close>

definition bit_at :: "byte list \<Rightarrow> nat \<Rightarrow> bool" where
  "bit_at bs j = bit (bs ! (j div 8)) (j mod 8)"

definition blk_used :: "(u32 \<Rightarrow> block) \<Rightarrow> u32 \<Rightarrow> bool" where
  "blk_used C n = bit_at (C (GET_BITMAP_BLK n)) (unat (n AND TFS_BITMAP_BLK_MASK))"

definition free_set :: "(u32 \<Rightarrow> block) \<Rightarrow> u32 \<Rightarrow> u32 set" where
  "free_set C cnt = {n. n < cnt \<and> \<not> blk_used C n}"

lemma finite_free_set [simp]: "finite (free_set C cnt)"
  by simp

lemma byte_lt8: "j mod 8 < (8::nat)" by simp

lemma bit_at_set:
  assumes "j < 8 * length bs" and "k < 8 * length bs"
  shows "bit_at (bs[j div 8 := bs ! (j div 8) OR 2 ^ (j mod 8)]) k \<longleftrightarrow> bit_at bs k \<or> k = j"
proof (cases "k div 8 = j div 8")
  case True
  then have "k = j \<longleftrightarrow> k mod 8 = j mod 8" by (metis div_mult_mod_eq)
  with True assms show ?thesis
    by (auto simp: bit_at_def bit_simps less_mult_imp_div_less mult.commute)
next
  case False
  then show ?thesis by (auto simp: bit_at_def)
qed

lemma bit_at_clear:
  assumes "j < 8 * length bs" and "k < 8 * length bs"
  shows "bit_at (bs[j div 8 := bs ! (j div 8) AND NOT (2 ^ (j mod 8))]) k \<longleftrightarrow> bit_at bs k \<and> k \<noteq> j"
proof (cases "k div 8 = j div 8")
  case True
  then have "k = j \<longleftrightarrow> k mod 8 = j mod 8" by (metis div_mult_mod_eq)
  with True assms show ?thesis
    by (auto simp: bit_at_def bit_simps less_mult_imp_div_less mult.commute)
next
  case False
  then show ?thesis by (auto simp: bit_at_def)
qed

section \<open>What the search finds\<close>

lemma bit_at_Cons:
  "bit_at (p # ps) j = (if j < 8 then bit p j else bit_at ps (j - 8))"
proof (cases "j < 8")
  case False
  then have "j div 8 = Suc ((j - 8) div 8)" and "j mod 8 = (j - 8) mod 8"
    by (simp_all add: le_div_geq le_mod_geq)
  with False show ?thesis by (simp add: bit_at_def)
qed (simp add: bit_at_def)

lemma and_pow2:
  assumes "k < 8" shows "p AND 2 ^ k = 0 \<longleftrightarrow> \<not> bit (p :: byte) k"
proof
  assume "p AND 2 ^ k = 0"
  then have "\<not> bit (p AND 2 ^ k) k" by simp
  with assms show "\<not> bit p k" by (simp add: bit_simps)
next
  assume "\<not> bit p k"
  then show "p AND 2 ^ k = 0"
    by (intro bit_word_eqI) (auto simp: bit_simps)
qed

lemma bit_ff:
  assumes "j < 8" shows "bit (0xff :: byte) j"
proof -
  have "bit (- 1 :: byte) j" using assms by (simp add: bit_simps)
  moreover have "(- 1 :: byte) = 0xff" by simp
  ultimately show ?thesis by metis
qed

lemma masks_eq: "masks = map (\<lambda>k. 2 ^ k) [0..<8]"
  by (simp add: masks_def upt_rec)

lemma scan_byte_from:
  "a \<le> k \<Longrightarrow> k < 8 \<Longrightarrow> \<not> bit p k \<Longrightarrow> \<forall>j. a \<le> j \<and> j < k \<longrightarrow> bit p j \<Longrightarrow>
   scan_byte (map (\<lambda>k. 2 ^ k) [a..<8]) p block = Some (2 ^ k, block + of_nat (k - a))"
proof (induction "k - a" arbitrary: a block)
  case 0
  then have "[a..<8] = a # [Suc a..<8]" and "k = a" by (auto simp: upt_rec)
  with 0 show ?case by (simp add: and_pow2)
next
  case (Suc d)
  then have a: "[a..<8] = a # [Suc a..<8]" "bit p a" "k - a = Suc (k - Suc a)" "a < 8"
    by (auto simp: upt_rec)
  with Suc have "scan_byte (map (\<lambda>k. 2 ^ k) [Suc a..<8]) p (block + 1)
      = Some (2 ^ k, block + 1 + of_nat (k - Suc a))" by auto
  with a show ?case by (simp add: and_pow2 add.assoc)
qed

lemma scan_byte_find:
  fixes p :: byte
  assumes "p \<noteq> 0xff"
  obtains k where "k < 8" "\<not> bit p k" "\<forall>j<k. bit p j"
    "\<And>block. scan_byte masks p block = Some (2 ^ k, block + of_nat k)"
proof -
  have "\<exists>k<8. \<not> bit p k"
  proof (rule ccontr)
    assume "\<not> (\<exists>k<8. \<not> bit p k)"
    then have "bit p n = bit (0xff :: byte) n" if "n < 8" for n
      using that by (simp only: bit_ff) simp
    then have "p = 0xff" by (intro bit_word_eqI) simp
    with assms show False by simp
  qed
  then obtain k0 where k0: "k0 < 8" "\<not> bit p k0" by blast
  define k where "k = (LEAST k. \<not> bit p k)"
  have k_bit: "\<not> bit p k" unfolding k_def by (rule LeastI[of "\<lambda>k. \<not> bit p k", OF k0(2)])
  have "k \<le> k0" unfolding k_def by (rule Least_le[of "\<lambda>k. \<not> bit p k", OF k0(2)])
  then have k_lt: "k < 8" using k0(1) by simp
  have below: "\<forall>j<k. bit p j" unfolding k_def using not_less_Least by blast
  have "scan_byte masks p block = Some (2 ^ k, block + of_nat k)" for block
    using scan_byte_from[of 0 k p block] k_bit k_lt below by (simp add: masks_eq)
  with k_lt k_bit below show ?thesis by (rule that)
qed

text \<open>The first clear bit, or the fact that there is none.\<close>

lemma scan_bitmap_cases:
  fixes ps :: "byte list"
  obtains (full) "scan_bitmap ps i block = None" "\<forall>j<8 * length ps. bit_at ps j"
  | (found) j where "j < 8 * length ps" "\<not> bit_at ps j" "\<forall>j'<j. bit_at ps j'"
      "scan_bitmap ps i block = Some (i + j div 8, 2 ^ (j mod 8), block + of_nat j)"
proof (induction ps arbitrary: i block thesis)
  case (Cons p ps)
  show ?case
  proof (cases "p = 0xff")
    case True
    have ff: "bit p j" if "j < 8" for j
      using that by (simp only: True bit_ff)
    show ?thesis
    proof (rule Cons.IH[of "i + 1" "block + 8"])
      assume "scan_bitmap ps (i + 1) (block + 8) = None" "\<forall>j<8 * length ps. bit_at ps j"
      then show ?thesis using ff by (intro Cons.prems(1)) (auto simp: True bit_at_Cons)
    next
      fix j assume j: "j < 8 * length ps" "\<not> bit_at ps j" "\<forall>j'<j. bit_at ps j'"
        "scan_bitmap ps (i + 1) (block + 8) =
           Some (i + 1 + j div 8, 2 ^ (j mod 8), block + 8 + of_nat j)"
      then show ?thesis using ff
        by (intro Cons.prems(2)[of "j + 8"]) (auto simp: True bit_at_Cons)
    qed
  next
    case False
    then obtain k where k: "k < 8" "\<not> bit p k" "\<forall>j<k. bit p j"
        "\<And>block. scan_byte masks p block = Some (2 ^ k, block + of_nat k)"
      by (rule scan_byte_find) blast
    then show ?thesis
      by (intro Cons.prems(2)[of k]) (auto simp: False bit_at_Cons)
  qed
qed (auto intro: full)

section \<open>The bitmap invariant\<close>

text \<open>
  The cached block agrees with the medium, every bitmap block is marked used, and an invalid
  cache entry only follows a search that found the disk full.
\<close>

definition bitmap_ok :: "(u32 \<Rightarrow> block) \<Rightarrow> 'd fs \<Rightarrow> bool" where
  "bitmap_ok C s \<longleftrightarrow>
     0 < blk_count s \<and> last_bitmap_blk s = GET_BITMAP_BLK (blk_count s - 1) \<and>
     last_bitmap_len s = ucast ((blk_count s - 1) AND TFS_BITMAP_BLK_MASK) + 1 \<and>
     (\<forall>n. is_bitmap_blk n \<longrightarrow> n < blk_count s \<longrightarrow> blk_used C n) \<and>
     (if loaded_bitmap_blk s = TFS_BITMAP_BLK_INVAL then free_set C (blk_count s) = {}
      else is_bitmap_blk (loaded_bitmap_blk s) \<and> loaded_bitmap_blk s < blk_count s \<and>
           bitmap_blk s = C (loaded_bitmap_blk s))"

text \<open>What allocation and freeing leave alone.\<close>

definition bitmap_frame :: "'d fs \<Rightarrow> 'd fs \<Rightarrow> bool" where
  "bitmap_frame s s' \<longleftrightarrow>
     drive_info s' = drive_info s \<and> last_bitmap_blk s' = last_bitmap_blk s \<and>
     last_bitmap_len s' = last_bitmap_len s \<and> current_dir_blk s' = current_dir_blk s \<and>
     loaded_dir_blk s' = loaded_dir_blk s \<and> blk_buf s' = blk_buf s \<and> handles s' = handles s \<and>
     after_bitmap s' = after_bitmap s \<and> after_handles s' = after_handles s \<and>
     callbacks s' = callbacks s"

lemma bitmap_frame_refl [simp, intro]: "bitmap_frame s s"
  by (simp add: bitmap_frame_def)

lemma bitmap_frame_trans [trans]: "bitmap_frame s t \<Longrightarrow> bitmap_frame t u \<Longrightarrow> bitmap_frame s u"
  by (simp add: bitmap_frame_def)

lemma bitmap_frameD:
  assumes "bitmap_frame s s'"
  shows "drive_info s' = drive_info s" "last_bitmap_blk s' = last_bitmap_blk s"
    "last_bitmap_len s' = last_bitmap_len s" "current_dir_blk s' = current_dir_blk s"
    "loaded_dir_blk s' = loaded_dir_blk s" "blk_buf s' = blk_buf s" "handles s' = handles s"
    "after_bitmap s' = after_bitmap s" "after_handles s' = after_handles s"
    "callbacks s' = callbacks s"
  using assms by (simp_all add: bitmap_frame_def)

lemma load_bitmap_frame [simp]: "bitmap_frame s (load_bitmap P pos s)"
  by (simp add: bitmap_frame_def load_bitmap_def Let_def)

lemmas load_bitmap_fields [simp] = bitmap_frameD [OF load_bitmap_frame]

lemma bitmap_in_range:
  assumes "is_bitmap_blk pos" and "j < 4096"
  shows "unat (pos + of_nat j) = unat pos + j" "GET_BITMAP_BLK (pos + of_nat j) = pos"
    "unat ((pos + of_nat j) AND TFS_BITMAP_BLK_MASK) = j"
proof -
  have "unat pos mod 4096 = 0" using assms(1) by (simp add: is_bitmap_iff)
  then obtain q where q: "unat pos = 4096 * q" by (auto elim: dvdE)
  have "unat pos < 2 ^ 32" using unsigned_less[of pos] by simp
  with q have "q < 1048576" by simp
  with q assms(2) have lt: "unat pos + j < 2 ^ 32" by simp
  have "unat (of_nat j :: u32) = j" using assms(2) by (simp add: unat_of_nat take_bit_eq_mod)
  with lt show *: "unat (pos + of_nat j) = unat pos + j"
    by (simp add: unat_word_ariths)
  show "GET_BITMAP_BLK (pos + of_nat j) = pos"
    using * q assms(2) by (simp add: word_unat_eq_iff unat_get_bitmap)
  show "unat ((pos + of_nat j) AND TFS_BITMAP_BLK_MASK) = j"
    using * q assms(2) by (simp add: unat_and_mask)
qed

lemma block_eq_iff:
  "n = m \<longleftrightarrow> GET_BITMAP_BLK n = GET_BITMAP_BLK m \<and>
     unat (n AND TFS_BITMAP_BLK_MASK) = unat (m AND TFS_BITMAP_BLK_MASK)"
  unfolding word_unat_eq_iff unat_get_bitmap unat_and_mask
  by (metis div_mult_mod_eq mult.commute)

lemma blk_used_upd: "\<not> is_bitmap_blk m \<Longrightarrow> blk_used (C(m := b)) n = blk_used C n"
  using is_bitmap_get[of n] by (auto simp: blk_used_def)

lemma bit_index_less [simp]: "unat (n AND TFS_BITMAP_BLK_MASK) < 4096"
  by (simp add: unat_and_mask)

lemma blk_used_mark:
  assumes "length (C (GET_BITMAP_BLK b)) = TFS_BLOCKSIZE"
    and "j = unat (b AND TFS_BITMAP_BLK_MASK)" and "bs = C (GET_BITMAP_BLK b)"
  shows "blk_used (C(GET_BITMAP_BLK b := bs[j div 8 := bs ! (j div 8) OR 2 ^ (j mod 8)])) n
    \<longleftrightarrow> blk_used C n \<or> n = b"
proof (cases "GET_BITMAP_BLK n = GET_BITMAP_BLK b")
  case True
  then show ?thesis
    using assms bit_at_set[of j bs "unat (n AND TFS_BITMAP_BLK_MASK)"]
    by (auto simp: blk_used_def block_eq_iff[of n b])
qed (auto simp: blk_used_def)

lemma blk_used_unmark:
  assumes "length (C (GET_BITMAP_BLK b)) = TFS_BLOCKSIZE"
    and "j = unat (b AND TFS_BITMAP_BLK_MASK)" and "bs = C (GET_BITMAP_BLK b)"
  shows "blk_used (C(GET_BITMAP_BLK b := bs[j div 8 := bs ! (j div 8) AND NOT (2 ^ (j mod 8))])) n
    \<longleftrightarrow> blk_used C n \<and> n \<noteq> b"
proof (cases "GET_BITMAP_BLK n = GET_BITMAP_BLK b")
  case True
  then show ?thesis
    using assms bit_at_clear[of j bs "unat (n AND TFS_BITMAP_BLK_MASK)"]
    by (auto simp: blk_used_def block_eq_iff[of n b])
qed (auto simp: blk_used_def)

text \<open>Every used block of a range is in a bitmap block whose blocks are all used.\<close>

definition full_at :: "(u32 \<Rightarrow> block) \<Rightarrow> u32 \<Rightarrow> u32 \<Rightarrow> bool" where
  "full_at C cnt pos \<longleftrightarrow> (\<forall>n<cnt. GET_BITMAP_BLK n = pos \<longrightarrow> blk_used C n)"

section \<open>The order in which bitmap blocks are searched\<close>

definition bm_idx :: "u32 \<Rightarrow> nat" where
  "bm_idx pos = unat pos div 4096"

definition bm_num :: "u32 \<Rightarrow> nat" where
  "bm_num l = Suc (bm_idx l)"

lemma bm_idx_inject:
  "is_bitmap_blk p \<Longrightarrow> is_bitmap_blk q \<Longrightarrow> bm_idx p = bm_idx q \<longleftrightarrow> p = q"
  by (metis bm_idx_def is_bitmap_blk_def unat_get_bitmap word_unat_eq_iff)

lemma bm_idx_less: "p \<le> l \<Longrightarrow> bm_idx p < bm_num l"
  by (simp add: bm_idx_def bm_num_def word_le_nat_alt div_le_mono le_imp_less_Suc)

lemma next_bitmap_props:
  assumes "is_bitmap_blk (last_bitmap_blk s)" and "is_bitmap_blk pos" and "pos \<le> last_bitmap_blk s"
  shows "is_bitmap_blk (next_bitmap s pos)" and "next_bitmap s pos \<le> last_bitmap_blk s"
    and "bm_idx (next_bitmap s pos) = Suc (bm_idx pos) mod bm_num (last_bitmap_blk s)"
proof -
  let ?last = "last_bitmap_blk s"
  have "is_bitmap_blk (next_bitmap s pos) \<and> next_bitmap s pos \<le> ?last \<and>
      bm_idx (next_bitmap s pos) = Suc (bm_idx pos) mod bm_num ?last"
  proof (cases "pos = ?last")
    case True
    then show ?thesis by (simp add: next_bitmap_def is_bitmap_iff bm_idx_def bm_num_def)
  next
    case False
    obtain p l where p: "unat pos = 4096 * p" and l: "unat ?last = 4096 * l"
      using assms(1,2) by (auto simp: is_bitmap_iff elim!: dvdE)
    have "p < l" using assms(3) False p l by (auto simp: word_le_nat_alt word_unat_eq_iff)
    moreover have "unat ?last < 2 ^ 32" using unsigned_less[of ?last] by simp
    ultimately have "unat (pos + 4096) = 4096 * (p + 1)"
      using p l by (simp add: unat_word_ariths)
    with \<open>p < l\<close> False p l show ?thesis
      by (simp add: next_bitmap_def is_bitmap_iff bm_idx_def bm_num_def word_le_nat_alt)
  qed
  then show "is_bitmap_blk (next_bitmap s pos)" "next_bitmap s pos \<le> ?last"
    "bm_idx (next_bitmap s pos) = Suc (bm_idx pos) mod bm_num ?last" by auto
qed

lemma cyclic_cover:
  assumes "(a :: nat) < m" and "q < m"
  obtains t where "t < m" "(a + t) mod m = q"
proof (cases "a \<le> q")
  case True
  with assms show ?thesis by (intro that[of "q - a"]) auto
next
  case False
  with assms have "(a + (q + m - a)) mod m = q" by simp
  with assms False show ?thesis by (intro that[of "q + m - a"]) auto
qed

lemma cyclic_return:
  assumes "(a :: nat) < m" and "t < m" and "(a + t) mod m = a"
  shows "t = 0"
proof (cases "a + t < m")
  case False
  then have "(a + t) mod m = a + t - m" using assms(1,2) by (simp add: le_mod_geq)
  with assms False show ?thesis by simp
qed (use assms in simp)

section \<open>Allocation and freeing on a working drive\<close>

context block_device
begin

definition alloc_post :: "'d fs \<Rightarrow> u32 \<Rightarrow> 'd fs \<Rightarrow> bool" where
  "alloc_post s b s' \<longleftrightarrow>
     io_ok s' \<and> bitmap_ok (cont s') s' \<and> bitmap_frame s s' \<and>
     (\<forall>n. \<not> is_bitmap_blk n \<longrightarrow> cont s' n = cont s n) \<and>
     (if free_set (cont s) (blk_count s) = {}
      then b = 0 \<and> last_error s' = TFS_ERR_DISK_FULL \<and> cont s' = cont s
      else b \<in> free_set (cont s) (blk_count s) \<and> last_error s' = TFS_ERR_OK \<and>
           (\<forall>n. blk_used (cont s') n \<longleftrightarrow> blk_used (cont s) n \<or> n = b))"

lemma load_bitmap_ok [simp]:
  assumes "io_ok s" and "pos < blk_count s" and "last_error s = TFS_ERR_OK"
  shows "io_ok (load_bitmap P pos s)" "cont (load_bitmap P pos s) = cont s"
    "last_error (load_bitmap P pos s) = TFS_ERR_OK" "loaded_bitmap_blk (load_bitmap P pos s) = pos"
    "bitmap_blk (load_bitmap P pos s) = cont s pos"
  using assms by (simp_all add: load_bitmap_def Let_def)

lemma bitmap_ok_load:
  assumes "io_ok s" and "bitmap_ok (cont s) s" and "last_error s = TFS_ERR_OK"
    and "is_bitmap_blk pos" and "pos < blk_count s"
  shows "bitmap_ok (cont (load_bitmap P pos s)) (load_bitmap P pos s)"
proof -
  have f: "bitmap_frame s (load_bitmap P pos s)" by simp
  have "pos \<noteq> TFS_BITMAP_BLK_INVAL" using assms(4) inval_not_bitmap by auto
  then show ?thesis
    using assms by (simp add: bitmap_ok_def bitmap_frameD[OF f])
qed

lemma mark_used_post:
  assumes "io_ok s" and "bitmap_ok (cont s) s" and "last_error s = TFS_ERR_OK"
    and pos: "loaded_bitmap_blk s = pos" "pos \<noteq> TFS_BITMAP_BLK_INVAL"
    and j: "j < 4096" "\<not> bit_at (bitmap_blk s) j" and b: "b = pos + of_nat j" "b < blk_count s"
    and r: "mark_used P (j div 8) (2 ^ (j mod 8)) b s = (b', s')"
  shows "b' = b \<and> alloc_post s b s'"
proof -
  have bm: "is_bitmap_blk pos" "pos < blk_count s" "bitmap_blk s = cont s pos"
    using assms(2) pos by (auto simp: bitmap_ok_def split: if_splits)
  note rng = bitmap_in_range[OF bm(1) j(1), folded b(1)]
  have free: "b \<in> free_set (cont s) (blk_count s)"
    using j b bm rng by (simp add: free_set_def blk_used_def)
  let ?bs = "(cont s pos)[j div 8 := cont s pos ! (j div 8) OR 2 ^ (j mod 8)]"
  have used: "blk_used ((cont s)(pos := ?bs)) n \<longleftrightarrow> blk_used (cont s) n \<or> n = b" for n
    by (rule blk_used_mark[of "cont s" b j "cont s pos", unfolded rng(2)])
      (simp_all only: length_contents rng(3))
  from r have s': "b' = b" "s' = write_bitmap P pos (s\<lparr>bitmap_blk := ?bs\<rparr>)"
    using assms(1,3) pos bm by (auto simp: mark_used_def Let_def write_bitmap_def split: if_splits)
  have c': "cont s' = (cont s)(pos := ?bs)"
    using assms(1) bm pos by (simp add: s' write_bitmap_def)
  have frame: "bitmap_frame s s'" by (simp add: s' write_bitmap_def bitmap_frame_def)
  have "bitmap_ok (cont s') s'"
    using assms(2) used pos bm unfolding c'
    by (simp add: bitmap_ok_def bitmap_frameD[OF frame] s' write_bitmap_def)
  moreover have "\<forall>n. \<not> is_bitmap_blk n \<longrightarrow> cont s' n = cont s n" using bm(1) by (auto simp: c')
  moreover have "io_ok s'" "last_error s' = TFS_ERR_OK"
    using assms(1,3) bm by (simp_all add: s' write_bitmap_def)
  ultimately show ?thesis
    using frame free used by (auto simp: alloc_post_def c' s'(1))
qed

lemma full_at_scanned:
  assumes "is_bitmap_blk pos" and "C pos = bs" and "length bs = TFS_BLOCKSIZE"
    and set: "\<And>j. j < 4096 \<Longrightarrow> pos + of_nat j < cnt \<Longrightarrow> bit_at bs j"
  shows "full_at C cnt pos"
  unfolding full_at_def
proof (intro allI impI)
  fix n :: u32 assume n: "n < cnt" "GET_BITMAP_BLK n = pos"
  define j where "j = unat (n AND TFS_BITMAP_BLK_MASK)"
  have j: "j < 4096" by (simp add: j_def)
  have "n = pos + of_nat j"
    using bitmap_in_range[OF assms(1) j] n(2) by (simp add: block_eq_iff[of n] j_def)
  with set[OF j] n have "bit_at bs j" by simp
  with n(2) assms(2) show "blk_used C n" by (simp add: blk_used_def j_def)
qed

text \<open>One turn of the search: a block is found, or this bitmap block has none to give.\<close>

lemma alloc_loop_turn:
  assumes "io_ok s" and "bitmap_ok (cont s) s" and "last_error s = TFS_ERR_OK"
    and pos: "loaded_bitmap_blk s = pos" "pos \<noteq> TFS_BITMAP_BLK_INVAL"
  obtains (found) b s' where "alloc_loop P start pos s = Some (b, s')" "alloc_post s b s'"
      "free_set (cont s) (blk_count s) \<noteq> {}"
  | (none) "full_at (cont s) (blk_count s) pos"
      "alloc_loop P start pos s =
        (if next_bitmap s pos = start
         then Some (0, set_error TFS_ERR_DISK_FULL (s\<lparr>loaded_bitmap_blk := TFS_BITMAP_BLK_INVAL\<rparr>))
         else let s1 = load_bitmap P (next_bitmap s pos) s
              in if last_error s1 \<noteq> TFS_ERR_OK then Some (0, s1)
                 else alloc_loop P start (next_bitmap s pos) s1)"
proof -
  have bm: "is_bitmap_blk pos" "pos < blk_count s" "bitmap_blk s = cont s pos"
    using assms(2) pos by (auto simp: bitmap_ok_def split: if_splits)
  have len: "8 * length (bitmap_blk s) = 4096" using assms(1) by simp
  show thesis
  proof (cases rule: scan_bitmap_cases[where ps = "bitmap_blk s" and i = 0 and block = pos])
    case full
    then have "full_at (cont s) (blk_count s) pos"
      using bm len by (intro full_at_scanned) auto
    with full show thesis
      by (intro none) (simp_all add: alloc_loop.simps[of P start pos s] Let_def)
  next
    case (found j)
    let ?b = "pos + of_nat j"
    have j: "j < 4096" "\<not> bit_at (bitmap_blk s) j" using found len by auto
    show thesis
    proof (cases "?b < blk_count s")
      case True
      obtain b' s' where r: "mark_used P (j div 8) (2 ^ (j mod 8)) ?b s = (b', s')" by fastforce
      have post: "b' = ?b \<and> alloc_post s ?b s'"
        by (rule mark_used_post[OF assms(1-3) pos j refl True r])
      moreover have "?b \<in> free_set (cont s) (blk_count s)"
        using True j bm bitmap_in_range[OF bm(1) j(1)] by (simp add: free_set_def blk_used_def)
      ultimately show thesis using r found(4) True
        by (intro that(1)[of ?b s']) (auto simp: alloc_loop.simps[of P start pos s] Let_def not_le)
    next
      case False
      have "full_at (cont s) (blk_count s) pos"
      proof (rule full_at_scanned[where C = "cont s", OF bm(1) bm(3)[symmetric]])
        fix k :: nat assume k: "k < 4096" "pos + of_nat k < blk_count s"
        show "bit_at (bitmap_blk s) k"
        proof (rule ccontr)
          assume "\<not> bit_at (bitmap_blk s) k"
          then have "j \<le> k" using found(3) by (meson not_le)
          then have "?b \<le> pos + of_nat k"
            using bitmap_in_range(1)[OF bm(1)] k(1) j by (simp add: word_le_nat_alt)
          with False k(2) show False by simp
        qed
      qed (use assms(1) in simp)
      with found(4) False show thesis
        by (intro none) (simp_all add: alloc_loop.simps[of P start pos s] Let_def not_less)
    qed
  qed
qed

lemma last_bitmap_props:
  assumes "bitmap_ok C s"
  shows "is_bitmap_blk (last_bitmap_blk s)" "last_bitmap_blk s < blk_count s"
    "n < blk_count s \<Longrightarrow> GET_BITMAP_BLK n \<le> last_bitmap_blk s"
proof -
  have nz: "0 < blk_count s" and l: "last_bitmap_blk s = GET_BITMAP_BLK (blk_count s - 1)"
    using assms by (auto simp: bitmap_ok_def)
  have dec: "blk_count s - 1 < blk_count s" using nz
    by (metis word_gt_0 word_less_1 word_less_nat_alt measure_unat unat_0)
  show "is_bitmap_blk (last_bitmap_blk s)" by (simp add: l)
  show "last_bitmap_blk s < blk_count s"
    using get_bitmap_le[of "blk_count s - 1"] dec by (simp add: l)
  assume "n < blk_count s"
  then have "n \<le> blk_count s - 1" using nz by (simp add: word_le_nat_alt word_less_nat_alt unat_sub_if_size)
  then show "GET_BITMAP_BLK n \<le> last_bitmap_blk s" by (simp add: l get_bitmap_mono)
qed

lemma alloc_loop_spec:
  assumes "io_ok s" and "bitmap_ok (cont s) s" and "last_error s = TFS_ERR_OK"
    and "loaded_bitmap_blk s = pos" and "pos \<noteq> TFS_BITMAP_BLK_INVAL"
    and "is_bitmap_blk start" and "start \<le> last_bitmap_blk s"
    and "t < bm_num (last_bitmap_blk s)"
    and "bm_idx pos = (bm_idx start + t) mod bm_num (last_bitmap_blk s)"
    and "\<forall>p t'. t' < t \<longrightarrow> is_bitmap_blk p \<longrightarrow> p < blk_count s \<longrightarrow>
           bm_idx p = (bm_idx start + t') mod bm_num (last_bitmap_blk s) \<longrightarrow>
           full_at (cont s) (blk_count s) p"
  shows "\<exists>b s'. alloc_loop P start pos s = Some (b, s') \<and> alloc_post s b s'"
  using assms
proof (induction "bm_num (last_bitmap_blk s) - t" arbitrary: s pos t)
  case (Suc d)
  let ?m = "bm_num (last_bitmap_blk s)" and ?cnt = "blk_count s"
  have bm: "is_bitmap_blk pos" "pos < ?cnt"
    using Suc.prems(2,4,5) by (auto simp: bitmap_ok_def split: if_splits)
  have pos_le: "pos \<le> last_bitmap_blk s"
    using last_bitmap_props(3)[OF Suc.prems(2) bm(2)] bm(1) by (simp add: is_bitmap_blk_def)
  note nxt = next_bitmap_props[OF last_bitmap_props(1)[OF Suc.prems(2)] bm(1) pos_le]
  show ?case
  proof (rule alloc_loop_turn[OF Suc.prems(1-5), of start])
    fix b s' assume "alloc_loop P start pos s = Some (b, s')" "alloc_post s b s'"
    then show ?thesis by blast
  next
    assume full: "full_at (cont s) ?cnt pos"
      and step: "alloc_loop P start pos s =
        (if next_bitmap s pos = start
         then Some (0, set_error TFS_ERR_DISK_FULL (s\<lparr>loaded_bitmap_blk := TFS_BITMAP_BLK_INVAL\<rparr>))
         else let s1 = load_bitmap P (next_bitmap s pos) s
              in if last_error s1 \<noteq> TFS_ERR_OK then Some (0, s1)
                 else alloc_loop P start (next_bitmap s pos) s1)"
    have seen: "\<forall>p t'. t' < Suc t \<longrightarrow> is_bitmap_blk p \<longrightarrow> p < ?cnt \<longrightarrow>
        bm_idx p = (bm_idx start + t') mod ?m \<longrightarrow> full_at (cont s) ?cnt p"
      using Suc.prems(9,10) full bm by (metis bm_idx_inject less_Suc_eq)
    have idx: "bm_idx (next_bitmap s pos) = (bm_idx start + Suc t) mod ?m"
      using nxt(3) Suc.prems(9) by (simp add: mod_Suc_eq)
    have start_lt: "bm_idx start < ?m" by (rule bm_idx_less[OF Suc.prems(7)])
    show ?thesis
    proof (cases "next_bitmap s pos = start")
      case True
      have "Suc t = ?m"
      proof (rule ccontr)
        assume "Suc t \<noteq> ?m"
        then have "Suc t < ?m" using Suc.prems(8) by simp
        then have "Suc t = 0" using cyclic_return[OF start_lt] idx True by metis
        then show False by simp
      qed
      then have "full_at (cont s) ?cnt (GET_BITMAP_BLK n)" if "n < ?cnt" for n
      proof -
        have "bm_idx (GET_BITMAP_BLK n) < ?m"
          by (rule bm_idx_less[OF last_bitmap_props(3)[OF Suc.prems(2) that]])
        then obtain t' where "t' < ?m" "(bm_idx start + t') mod ?m = bm_idx (GET_BITMAP_BLK n)"
          by (rule cyclic_cover[OF start_lt])
        then show ?thesis using seen \<open>Suc t = ?m\<close> get_bitmap_le[of n] that
          by (metis is_bitmap_get le_less_trans)
      qed
      then have none: "free_set (cont s) ?cnt = {}" by (auto simp: free_set_def full_at_def)
      let ?s' = "set_error TFS_ERR_DISK_FULL (s\<lparr>loaded_bitmap_blk := TFS_BITMAP_BLK_INVAL\<rparr>)"
      have "alloc_post s 0 ?s'"
        using Suc.prems(1,2) none by (simp add: alloc_post_def bitmap_ok_def bitmap_frame_def)
      with step True show ?thesis by simp
    next
      case False
      let ?n = "next_bitmap s pos" and ?s1 = "load_bitmap P (next_bitmap s pos) s"
      have n_lt: "?n < ?cnt" using nxt(2) last_bitmap_props(2)[OF Suc.prems(2)] by simp
      have "Suc t < ?m"
      proof (rule ccontr)
        assume "\<not> Suc t < ?m"
        then have "Suc t = ?m" using Suc.prems(8) by simp
        with idx start_lt have "bm_idx ?n = bm_idx start" by simp
        with False nxt(1) Suc.prems(6) show False by (simp add: bm_idx_inject)
      qed
      have f: "bitmap_frame s ?s1" by simp
      have "\<exists>b s'. alloc_loop P start ?n ?s1 = Some (b, s') \<and> alloc_post ?s1 b s'"
      proof (rule Suc.hyps(1)[of ?s1 "Suc t"])
        show "d = bm_num (last_bitmap_blk ?s1) - Suc t"
          using Suc.hyps(2) by (simp add: bitmap_frameD[OF f])
        show "bitmap_ok (cont ?s1) ?s1"
          by (rule bitmap_ok_load[OF Suc.prems(1-3) nxt(1) n_lt])
        show "?n \<noteq> TFS_BITMAP_BLK_INVAL" using nxt(1) inval_not_bitmap by auto
      qed (use Suc.prems n_lt \<open>Suc t < ?m\<close> idx seen in \<open>simp_all add: bitmap_frameD[OF f]\<close>)
      then obtain b s' where "alloc_loop P start ?n ?s1 = Some (b, s')" and p: "alloc_post ?s1 b s'"
        by blast
      moreover have "alloc_post s b s'"
        using p bitmap_frame_trans[OF f] Suc.prems(1,3) n_lt
        by (auto simp: alloc_post_def split: if_splits)
      ultimately show ?thesis using step False Suc.prems(1,3) n_lt by (simp add: Let_def)
    qed
  qed
qed simp

theorem alloc_block_spec:
  assumes "io_ok s" and "bitmap_ok (cont s) s" and "last_error s = TFS_ERR_OK"
  shows "\<exists>b s'. alloc_block P s = Some (b, s') \<and> alloc_post s b s'"
proof (cases "loaded_bitmap_blk s = TFS_BITMAP_BLK_INVAL")
  case True
  then have "alloc_post s 0 (set_error TFS_ERR_DISK_FULL s)"
    using assms by (simp add: alloc_post_def bitmap_ok_def bitmap_frame_def)
  with True show ?thesis by (simp add: alloc_block_def)
next
  case False
  let ?pos = "loaded_bitmap_blk s"
  have bm: "is_bitmap_blk ?pos" "?pos < blk_count s"
    using assms(2) False by (auto simp: bitmap_ok_def split: if_splits)
  have le: "?pos \<le> last_bitmap_blk s"
    using last_bitmap_props(3)[OF assms(2) bm(2)] bm(1) by (simp add: is_bitmap_blk_def)
  have "\<exists>b s'. alloc_loop P ?pos ?pos s = Some (b, s') \<and> alloc_post s b s'"
    by (rule alloc_loop_spec[where t = 0]) (use assms False bm le bm_idx_less[OF le] in \<open>simp_all add: bm_num_def\<close>)
  with False show ?thesis by (simp add: alloc_block_def)
qed

theorem free_block_spec:
  assumes "io_ok s" and "bitmap_ok (cont s) s" and "last_error s = TFS_ERR_OK"
    and pos: "pos < blk_count s" "\<not> is_bitmap_blk pos"
  shows "io_ok (free_block P pos s)" "bitmap_ok (cont (free_block P pos s)) (free_block P pos s)"
    "bitmap_frame s (free_block P pos s)" "last_error (free_block P pos s) = TFS_ERR_OK"
    "\<not> is_bitmap_blk n \<Longrightarrow> cont (free_block P pos s) n = cont s n"
    "blk_used (cont (free_block P pos s)) n \<longleftrightarrow> blk_used (cont s) n \<and> n \<noteq> pos"
proof -
  let ?tmp = "GET_BITMAP_BLK pos" and ?j = "unat (pos AND TFS_BITMAP_BLK_MASK)"
  define s1 where "s1 = (if loaded_bitmap_blk s \<noteq> ?tmp then load_bitmap P ?tmp s else s)"
  have tmp: "?tmp < blk_count s" "?tmp \<noteq> TFS_BITMAP_BLK_INVAL"
    using pos get_bitmap_le[of pos] by (simp add: le_less_trans) (metis inval_not_bitmap is_bitmap_get)
  have f1: "bitmap_frame s s1" by (simp add: s1_def)
  have s1: "io_ok s1" "last_error s1 = TFS_ERR_OK" "cont s1 = cont s" "loaded_bitmap_blk s1 = ?tmp"
    "bitmap_blk s1 = cont s ?tmp" "bitmap_ok (cont s1) s1"
    using assms tmp by (auto simp: s1_def bitmap_ok_load bitmap_ok_def)
  let ?bs = "(cont s ?tmp)[?j div 8 := cont s ?tmp ! (?j div 8) AND NOT (2 ^ (?j mod 8))]"
  have r: "free_block P pos s = write_bitmap P ?tmp (s1\<lparr>bitmap_blk := ?bs\<rparr>)"
    using assms(1,3) tmp s1 by (auto simp: free_block_def s1_def mark_unused_def Let_def)
  have used: "blk_used ((cont s)(?tmp := ?bs)) n \<longleftrightarrow> blk_used (cont s) n \<and> n \<noteq> pos" for n
    by (rule blk_used_unmark) simp_all
  have cnt: "blk_count s1 = blk_count s" by (simp add: bitmap_frameD[OF f1])
  have c: "cont (free_block P pos s) = (cont s)(?tmp := ?bs)"
    using s1 tmp cnt by (simp add: r write_bitmap_def)
  show "io_ok (free_block P pos s)" using s1 tmp cnt by (simp add: r write_bitmap_def)
  show f: "bitmap_frame s (free_block P pos s)"
    using f1 by (simp add: r write_bitmap_def bitmap_frame_def)
  show "last_error (free_block P pos s) = TFS_ERR_OK"
    using s1 tmp cnt by (simp add: r write_bitmap_def)
  show "\<not> is_bitmap_blk n \<Longrightarrow> cont (free_block P pos s) n = cont s n" by (auto simp: c)
  show "blk_used (cont (free_block P pos s)) n \<longleftrightarrow> blk_used (cont s) n \<and> n \<noteq> pos"
    by (simp only: c used)
  have lb: "loaded_bitmap_blk (free_block P pos s) = ?tmp" "bitmap_blk (free_block P pos s) = ?bs"
    using s1 by (simp_all add: r write_bitmap_def)
  have "n \<noteq> pos" if "is_bitmap_blk n" for n using pos that by auto
  then show "bitmap_ok (cont (free_block P pos s)) (free_block P pos s)"
    using assms(2) tmp lb unfolding c
    by (simp add: bitmap_ok_def bitmap_frameD[OF f] used)
qed

end

end
