(* ===== verification/Chain.thy ===== *)
theory Chain
  imports Bitmap
begin

text \<open>
  Chains of blocks linked by their \<open>next\<close> field, which hold both file data and directories,
  and \<open>free_file_blocks\<close>, which gives a whole chain back to the bitmap.
\<close>

section \<open>Operations\<close>

partial_function (option) free_file_blocks :: "'d platform \<Rightarrow> u32 \<Rightarrow> 'd fs \<Rightarrow> 'd fs option" where
  "free_file_blocks P pos s =
     (if pos = 0 then Some s
      else let s = read_buf P pos s
           in if last_error s \<noteq> TFS_ERR_OK then Some s
              else let s = free_block P pos s
                   in if last_error s \<noteq> TFS_ERR_OK then Some s
                      else free_file_blocks P (blk_next (blk_buf s)) s)"

text \<open>
  The frame of every public function: \<open>if (tfs_last_error == TFS_ERR_NO_DEV) return\<close>, the
  error reset, \<open>drive_select\<close>, the body, and \<open>drive_deselect\<close> at the label \<open>out\<close>.
\<close>

definition api_call :: "'d platform \<Rightarrow> 'a \<Rightarrow> ('d fs \<Rightarrow> ('a \<times> 'd fs) option) \<Rightarrow> 'd fs \<Rightarrow> ('a \<times> 'd fs) option" where
  "api_call P r0 body s =
     (if last_error s = TFS_ERR_NO_DEV then Some (r0, s)
      else do {
        (r, s) \<leftarrow> body (drive_select P (set_error TFS_ERR_OK s));
        Some (r, drive_deselect P s)
      })"

definition api_void :: "'d platform \<Rightarrow> ('d fs \<Rightarrow> 'd fs option) \<Rightarrow> 'd fs \<Rightarrow> 'd fs option" where
  "api_void P body s =
     (if last_error s = TFS_ERR_NO_DEV then Some s
      else do {
        s \<leftarrow> body (drive_select P (set_error TFS_ERR_OK s));
        Some (drive_deselect P s)
      })"

section \<open>Chains on a medium\<close>

fun chain :: "(u32 \<Rightarrow> block) \<Rightarrow> u32 \<Rightarrow> u32 list \<Rightarrow> bool" where
  "chain C p [] \<longleftrightarrow> p = 0"
| "chain C p (x # xs) \<longleftrightarrow> p = x \<and> x \<noteq> 0 \<and> chain C (blk_next (C x)) xs"

lemma chain_cong: "(\<And>x. x \<in> set xs \<Longrightarrow> blk_next (C' x) = blk_next (C x)) \<Longrightarrow> chain C' p xs = chain C p xs"
  by (induction xs arbitrary: p) auto

lemma chain_0 [simp]: "chain C 0 xs \<longleftrightarrow> xs = []"
  by (cases xs) auto

lemma chain_unique: "chain C p xs \<Longrightarrow> chain C p ys \<Longrightarrow> xs = ys"
proof (induction xs arbitrary: p ys)
  case (Cons x xs)
  then show ?case by (cases ys) auto
qed simp

lemma chain_append:
  "chain C p (xs @ ys) \<Longrightarrow> \<exists>q. chain C q ys \<and> (xs = [] \<longrightarrow> q = p) \<and> (xs \<noteq> [] \<longrightarrow> q = blk_next (C (last xs)))"
proof (induction xs arbitrary: p)
  case (Cons x xs)
  then obtain q where "chain C q ys" "xs = [] \<longrightarrow> q = blk_next (C x)" "xs \<noteq> [] \<longrightarrow> q = blk_next (C (last xs))"
    by auto
  then show ?case by auto
qed simp

lemma chain_suffix: "chain C p (xs @ x # ys) \<Longrightarrow> chain C x (x # ys)"
  by (drule chain_append) auto

lemma chain_head_not_in_tail: "chain C p (x # xs) \<Longrightarrow> x \<notin> set xs"
proof
  assume c: "chain C p (x # xs)" and "x \<in> set xs"
  then obtain ys zs where "xs = ys @ x # zs" by (auto simp: in_set_conv_decomp)
  with c have "chain C x (x # zs)" using chain_suffix[of C p "x # ys" x zs] by simp
  moreover have "chain C x (x # xs)" using c by simp
  ultimately have "x # zs = x # xs" by (rule chain_unique)
  then have "length zs = length xs" by simp
  with \<open>xs = ys @ x # zs\<close> show False by simp
qed

lemma chain_distinct: "chain C p xs \<Longrightarrow> distinct xs"
proof (induction xs arbitrary: p)
  case (Cons x xs)
  then show ?case using chain_head_not_in_tail[of C p x xs] by auto
qed simp

lemma chain_nonzero: "chain C p xs \<Longrightarrow> x \<in> set xs \<Longrightarrow> x \<noteq> 0"
  by (induction xs arbitrary: p) auto

lemma chain_last_next: "chain C p xs \<Longrightarrow> xs \<noteq> [] \<Longrightarrow> blk_next (C (last xs)) = 0"
proof (induction xs arbitrary: p)
  case (Cons x xs)
  then show ?case by (cases xs) auto
qed simp

lemma chain_snoc:
  assumes "chain C p xs" and "xs \<noteq> []" and "n \<noteq> 0" and "n \<notin> set xs"
    and "blk_next (C' (last xs)) = n" and "blk_next (C' n) = 0"
    and "\<And>x. x \<in> set (butlast xs) \<Longrightarrow> blk_next (C' x) = blk_next (C x)"
  shows "chain C' p (xs @ [n])"
  using assms
proof (induction xs arbitrary: p)
  case (Cons x xs)
  then show ?case by (cases xs) auto
qed simp

text \<open>Back links of a chain.\<close>

fun back_links :: "(u32 \<Rightarrow> block) \<Rightarrow> u32 \<Rightarrow> u32 list \<Rightarrow> bool" where
  "back_links C p [] = True"
| "back_links C p (x # xs) = (blk_prev (C x) = p \<and> back_links C x xs)"

lemma back_links_cong: "(\<And>x. x \<in> set xs \<Longrightarrow> blk_prev (C' x) = blk_prev (C x)) \<Longrightarrow> back_links C' p xs = back_links C p xs"
  by (induction xs arbitrary: p) auto

lemma back_links_snoc:
  "back_links C p (xs @ [n]) \<longleftrightarrow> back_links C p xs \<and> blk_prev (C n) = (if xs = [] then p else last xs)"
  by (induction xs arbitrary: p) auto

text \<open>The bytes a data chain holds.\<close>

definition chain_data :: "(u32 \<Rightarrow> block) \<Rightarrow> u32 list \<Rightarrow> byte list" where
  "chain_data C xs = concat (map (\<lambda>x. data_bytes (C x)) xs)"

lemma chain_data_simps [simp]:
  "chain_data C [] = []" "chain_data C (x # xs) = data_bytes (C x) @ chain_data C xs"
  by (simp_all add: chain_data_def)

lemma chain_data_cong: "(\<And>x. x \<in> set xs \<Longrightarrow> C' x = C x) \<Longrightarrow> chain_data C' xs = chain_data C xs"
  by (induction xs) auto

text \<open>A chain that may be freed: blocks of the medium that are in use and not bitmap blocks.\<close>

definition owned :: "(u32 \<Rightarrow> block) \<Rightarrow> u32 \<Rightarrow> u32 list \<Rightarrow> bool" where
  "owned C cnt xs \<longleftrightarrow> (\<forall>x \<in> set xs. x < cnt \<and> \<not> is_bitmap_blk x \<and> blk_used C x)"

text \<open>What the file operations leave alone: everything but the buffers and what they mirror.\<close>

definition fs_frame :: "'d fs \<Rightarrow> 'd fs \<Rightarrow> bool" where
  "fs_frame s s' \<longleftrightarrow>
     drive_info s' = drive_info s \<and> last_bitmap_blk s' = last_bitmap_blk s \<and>
     last_bitmap_len s' = last_bitmap_len s \<and> current_dir_blk s' = current_dir_blk s \<and>
     handles s' = handles s \<and> after_bitmap s' = after_bitmap s \<and>
     after_handles s' = after_handles s \<and> callbacks s' = callbacks s"

lemma fs_frame_refl [simp, intro]: "fs_frame s s"
  by (simp add: fs_frame_def)

lemma fs_frame_trans [trans]: "fs_frame s t \<Longrightarrow> fs_frame t u \<Longrightarrow> fs_frame s u"
  by (simp add: fs_frame_def)

lemma fs_frameD:
  assumes "fs_frame s s'"
  shows "drive_info s' = drive_info s" "last_bitmap_blk s' = last_bitmap_blk s"
    "last_bitmap_len s' = last_bitmap_len s" "current_dir_blk s' = current_dir_blk s"
    "handles s' = handles s" "after_bitmap s' = after_bitmap s"
    "after_handles s' = after_handles s" "callbacks s' = callbacks s"
  using assms by (simp_all add: fs_frame_def)

lemma bitmap_fs_frame: "bitmap_frame s s' \<Longrightarrow> fs_frame s s'"
  by (simp add: bitmap_frame_def fs_frame_def)

lemma fs_frame_steps [simp]:
  "fs_frame s (read_buf P n t) = fs_frame s t" "fs_frame s (write_buf P n t) = fs_frame s t"
  "fs_frame s (s'\<lparr>blk_buf := b\<rparr>) = fs_frame s s'" "fs_frame s (s'\<lparr>loaded_dir_blk := n\<rparr>) = fs_frame s s'"
  "fs_frame s (set_error e t) = fs_frame s t" "fs_frame s (drive_select P t) = fs_frame s t"
  "fs_frame s (drive_deselect P t) = fs_frame s t"
  by (simp_all add: fs_frame_def write_buf_def)

lemma bitmap_ok_frame:
  assumes "bitmap_ok C s" and "fs_frame s s'" and "loaded_bitmap_blk s' = loaded_bitmap_blk s"
    and "bitmap_blk s' = bitmap_blk s" and "\<And>n. is_bitmap_blk n \<Longrightarrow> C' n = C n"
  shows "bitmap_ok C' s'"
proof -
  have u: "blk_used C' n = blk_used C n" for n by (simp add: blk_used_def assms(5))
  with assms show ?thesis
    by (simp add: bitmap_ok_def fs_frameD[OF assms(2)] free_set_def split: if_splits)
qed

context block_device
begin

text \<open>A working file system: device, buffers, bitmap, and no error pending.\<close>

definition ready :: "'d fs \<Rightarrow> bool" where
  "ready s \<longleftrightarrow> io_ok s \<and> bitmap_ok (cont s) s \<and> last_error s = TFS_ERR_OK"

lemma readyD: "ready s \<Longrightarrow> io_ok s" "ready s \<Longrightarrow> bitmap_ok (cont s) s" "ready s \<Longrightarrow> last_error s = TFS_ERR_OK"
  by (simp_all add: ready_def)

lemma ready_lengths [simp]: "ready s \<Longrightarrow> length (blk_buf s) = TFS_BLOCKSIZE"
  by (simp add: ready_def)

lemma ready_step:
  assumes "ready s" and "io_ok s'" and "fs_frame s s'" and "last_error s' = TFS_ERR_OK"
    and "loaded_bitmap_blk s' = loaded_bitmap_blk s" and "bitmap_blk s' = bitmap_blk s"
    and "\<And>n. is_bitmap_blk n \<Longrightarrow> cont s' n = cont s n"
  shows "ready s'"
  using assms bitmap_ok_frame[of "cont s" s s' "cont s'"] by (simp add: ready_def)

lemma ready_read [simp]: "ready s \<Longrightarrow> n < blk_count s \<Longrightarrow> ready (read_buf P n s)"
  by (rule ready_step) (auto simp: ready_def)

lemma read_ready [simp]:
  assumes "ready s" and "n < blk_count s"
  shows "last_error (read_buf P n s) = TFS_ERR_OK" "blk_buf (read_buf P n s) = cont s n"
    "cont (read_buf P n s) = cont s"
  using assms by (simp_all add: ready_def)

lemma write_ready [simp]:
  assumes "ready s" and "n < blk_count s" and "\<not> is_bitmap_blk n"
  shows "last_error (write_buf P n s) = TFS_ERR_OK" "cont (write_buf P n s) = (cont s)(n := blk_buf s)"
    "ready (write_buf P n s)"
proof -
  show "last_error (write_buf P n s) = TFS_ERR_OK" "cont (write_buf P n s) = (cont s)(n := blk_buf s)"
    using assms by (simp_all add: ready_def write_buf_def)
  show "ready (write_buf P n s)"
    by (rule ready_step[OF assms(1)]) (use assms in \<open>auto simp: ready_def write_buf_def fs_frame_def\<close>)
qed

lemma ready_updates [simp]:
  "ready s \<Longrightarrow> length b = TFS_BLOCKSIZE \<Longrightarrow> ready (s\<lparr>blk_buf := b\<rparr>)"
  "ready s \<Longrightarrow> ready (s\<lparr>loaded_dir_blk := n\<rparr>)"
  by (auto intro!: ready_step[of s] simp: readyD)

lemma ready_start:
  assumes "io_ok (drive_select P s)" and "bitmap_ok (cont s) s"
  shows "ready (drive_select P (set_error TFS_ERR_OK s))" "cont (drive_select P (set_error TFS_ERR_OK s)) = cont s"
  using assms bitmap_ok_frame[of "cont s" s "drive_select P (set_error TFS_ERR_OK s)" "cont s"]
  by (simp_all add: ready_def cont_select)

text \<open>
  Any state between two calls of the public interface, after whatever error but \<open>NO_DEV\<close>: once the drive is
  selected it works.  Inside a function, behind \<open>drive_select\<close>, the state is \<open>ready\<close>.
\<close>

definition mounted :: "'d fs \<Rightarrow> bool" where
  "mounted s \<longleftrightarrow> io_ok (drive_select P s) \<and> bitmap_ok (cont s) s \<and> last_error s \<noteq> TFS_ERR_NO_DEV"

abbreviation entered :: "'d fs \<Rightarrow> 'd fs" where
  "entered s \<equiv> drive_select P (set_error TFS_ERR_OK s)"

lemma mounted_select [simp]: "mounted s \<Longrightarrow> contents (pf_select P (dev s)) = cont s"
  by (simp add: mounted_def cont_select)

lemma ready_entered: "mounted s \<Longrightarrow> ready (entered s)"
  by (simp add: mounted_def ready_start)

lemma bitmap_ok_set_error [simp]:
  "bitmap_ok C (set_error e s) = bitmap_ok C s" "bitmap_ok C (drive_select P s) = bitmap_ok C s"
  "bitmap_ok C (drive_deselect P s) = bitmap_ok C s"
  by (simp_all add: bitmap_ok_def)

lemma mounted_deselect [simp]: "mounted s \<Longrightarrow> mounted (drive_deselect P s)"
  by (simp add: mounted_def)

lemma mounted_chdir [simp]: "mounted (s\<lparr>current_dir_blk := n\<rparr>) = mounted s"
  by (simp add: mounted_def bitmap_ok_def)

lemma mounted_ready: "ready s \<Longrightarrow> mounted s"
  by (simp add: ready_def mounted_def)

lemma mounted_set_error: "ready s \<Longrightarrow> e \<noteq> TFS_ERR_NO_DEV \<Longrightarrow> mounted (set_error e s)"
  by (simp add: ready_def mounted_def)

lemma alloc_ready:
  assumes "ready s"
  obtains (full) s' where "alloc_block P s = Some (0, s')" "free_set (cont s) (blk_count s) = {}"
      "last_error s' = TFS_ERR_DISK_FULL" "cont s' = cont s" "bitmap_frame s s'"
      "io_ok s'" "bitmap_ok (cont s') s'"
  | (ok) b s' where "alloc_block P s = Some (b, s')" "ready s'" "bitmap_frame s s'"
      "b < blk_count s" "\<not> blk_used (cont s) b" "\<not> is_bitmap_blk b" "b \<noteq> 0"
      "\<And>n. \<not> is_bitmap_blk n \<Longrightarrow> cont s' n = cont s n"
      "\<And>n. blk_used (cont s') n \<longleftrightarrow> blk_used (cont s) n \<or> n = b"
proof -
  obtain b s' where r: "alloc_block P s = Some (b, s')" and p: "alloc_post s b s'"
    using alloc_block_spec readyD[OF assms] by blast
  show thesis
  proof (cases "free_set (cont s) (blk_count s) = {}")
    case True
    with r p show thesis by (intro full[of s']) (auto simp: alloc_post_def)
  next
    case False
    then have b: "b < blk_count s" "\<not> blk_used (cont s) b"
      using p by (auto simp: alloc_post_def free_set_def split: if_splits)
    moreover from this have "\<not> is_bitmap_blk b" using readyD(2)[OF assms] by (auto simp: bitmap_ok_def)
    moreover from this have "b \<noteq> 0" by (auto simp: is_bitmap_iff)
    ultimately show thesis using False r p
      by (intro ok[of b s']) (auto simp: alloc_post_def ready_def split: if_splits)
  qed
qed

lemma free_ready:
  assumes "ready s" and "pos < blk_count s" and "\<not> is_bitmap_blk pos"
  shows "ready (free_block P pos s)" "bitmap_frame s (free_block P pos s)"
    "last_error (free_block P pos s) = TFS_ERR_OK"
    "\<not> is_bitmap_blk n \<Longrightarrow> cont (free_block P pos s) n = cont s n"
    "blk_used (cont (free_block P pos s)) n \<longleftrightarrow> blk_used (cont s) n \<and> n \<noteq> pos"
  using free_block_spec[OF readyD[OF assms(1)] assms(2,3)] by (simp_all add: ready_def)

theorem free_file_blocks_spec:
  assumes "ready s" and "chain (cont s) pos xs"
    and "\<forall>x \<in> set xs. x < blk_count s \<and> \<not> is_bitmap_blk x"
  shows "\<exists>s'. free_file_blocks P pos s = Some s' \<and> ready s' \<and> fs_frame s s'
    \<and> loaded_dir_blk s' = loaded_dir_blk s
    \<and> (\<forall>n. \<not> is_bitmap_blk n \<longrightarrow> cont s' n = cont s n)
    \<and> (\<forall>n. blk_used (cont s') n \<longleftrightarrow> blk_used (cont s) n \<and> n \<notin> set xs)"
  using assms
proof (induction xs arbitrary: pos s)
  case Nil
  then show ?case by (simp add: free_file_blocks.simps[of P 0])
next
  case (Cons x xs)
  let ?s1 = "read_buf P x s"
  let ?s2 = "free_block P x ?s1"
  have x: "pos = x" "x \<noteq> 0" "x < blk_count s" "\<not> is_bitmap_blk x" using Cons.prems by auto
  have s1: "ready ?s1" "cont ?s1 = cont s" "blk_buf ?s1 = cont s x" using Cons.prems(1) x by simp_all
  have "x < blk_count ?s1" using x by simp
  note f = free_ready[OF s1(1) this x(4)]
  have fr: "bitmap_frame ?s1 ?s2" by (rule f(2))
  have nb: "\<forall>y \<in> set xs. y < blk_count ?s2 \<and> \<not> is_bitmap_blk y"
    using Cons.prems(3) by (simp add: bitmap_frameD[OF fr])
  have ch: "chain (cont ?s2) (blk_next (cont s x)) xs"
    using Cons.prems(2,3) s1(2) f(4) by (simp cong: chain_cong)
  obtain s' where s': "free_file_blocks P (blk_next (cont s x)) ?s2 = Some s'" "ready s'" "fs_frame ?s2 s'"
      "loaded_dir_blk s' = loaded_dir_blk ?s2"
      "\<forall>n. \<not> is_bitmap_blk n \<longrightarrow> cont s' n = cont ?s2 n"
      "\<forall>n. blk_used (cont s') n \<longleftrightarrow> blk_used (cont ?s2) n \<and> n \<notin> set xs"
    using Cons.IH[OF f(1) ch nb] by blast
  have "free_file_blocks P pos s = Some s'"
    using x s'(1) s1 f(3) readyD(3)[OF s1(1)]
    by (simp add: free_file_blocks.simps[of P x s] Let_def bitmap_frameD[OF fr])
  moreover have "fs_frame s s'"
    using fs_frame_trans[OF bitmap_fs_frame[OF fr] s'(3)] by (simp add: fs_frame_def)
  ultimately show ?case
    using s' f(4,5) s1(2) bitmap_frameD[OF fr] by auto
qed

end

end
