(* ===== verification/Directory.thy ===== *)
theory Directory
  imports Chain
begin

text \<open>
  Directories: \<open>find_file\<close>, \<open>write_dir_cleanup\<close> and the public functions that only walk or
  extend directories.  A \<open>TFS_DIR_ITEM *\<close> into \<open>blk_buf\<close> is the item's index; what it points
  to is whatever \<open>blk_buf\<close> holds when it is used, as in the code.
\<close>

section \<open>find_file\<close>

datatype find_result = FindError | FindItem nat | FindNone

text \<open>The loop over the items of one block; \<open>free\<close> is the pair \<open>free_blk\<close>, \<open>free_item\<close>.\<close>

fun scan_items :: "(byte list \<Rightarrow> bool) \<Rightarrow> block \<Rightarrow> u32 \<Rightarrow> nat list \<Rightarrow> (u32 \<times> nat) option
    \<Rightarrow> nat option \<times> (u32 \<times> nat) option" where
  "scan_items cmp b pos [] free = (None, free)"
| "scan_items cmp b pos (i # is) free =
     (if item_type b i = TFS_DIR_ITEM_FREE
      then scan_items cmp b pos is (if free = None then Some (pos, i) else free)
      else if cmp (item_name b i) then (Some i, free)
      else scan_items cmp b pos is free)"

partial_function (option) find_loop :: "'d platform \<Rightarrow> byte list \<Rightarrow> u32 \<Rightarrow> (u32 \<times> nat) option \<Rightarrow> 'd fs
    \<Rightarrow> (find_result \<times> (u32 \<times> nat) option \<times> 'd fs) option" where
  "find_loop P name pos free s =
     (let s = read_buf P pos s
      in if last_error s \<noteq> TFS_ERR_OK then Some (FindError, free, s)
         else let s = s\<lparr>loaded_dir_blk := pos\<rparr>;
                  r = scan_items (pf_filename_cmp P name) (blk_buf s) pos [0..<TFS_DIR_BLK_ITEMS] free
              in case fst r of
                   Some i \<Rightarrow> Some (FindItem i, snd r, s)
                 | None \<Rightarrow> if blk_next (blk_buf s) = 0 then Some (FindNone, snd r, s)
                           else find_loop P name (blk_next (blk_buf s)) (snd r) s)"

text \<open>The end of \<open>find_file\<close>: a new directory block is allocated and linked.\<close>

definition new_dir_block :: "'d platform \<Rightarrow> 'd fs \<Rightarrow> (nat option \<times> 'd fs) option" where
  "new_dir_block P s = do {
     (free_blk, s) \<leftarrow> alloc_block P s;
     if last_error s \<noteq> TFS_ERR_OK then Some (None, s)
     else let s = s\<lparr>blk_buf := set_next (blk_buf s) free_blk\<rparr>;
              s = write_buf P (loaded_dir_blk s) s
          in if last_error s \<noteq> TFS_ERR_OK then Some (None, s)
             else let s = s\<lparr>blk_buf := clear_items (set_next (set_prev (blk_buf s) (loaded_dir_blk s)) 0)\<rparr>;
                      s = s\<lparr>loaded_dir_blk := free_blk\<rparr>;
                      s = write_buf P free_blk s
                  in if last_error s \<noteq> TFS_ERR_OK then Some (None, s) else Some (Some 0, s)
   }"

definition find_file :: "'d platform \<Rightarrow> byte list \<Rightarrow> bool \<Rightarrow> 'd fs \<Rightarrow> (nat option \<times> 'd fs) option" where
  "find_file P name want_free_item s =
     (if c_at name 0 = 0 then Some (None, set_error TFS_ERR_NO_NAME s)
      else do {
        (r, free, s) \<leftarrow> find_loop P name (current_dir_blk s) None s;
        case r of
          FindError \<Rightarrow> Some (None, s)
        | FindItem i \<Rightarrow> Some (Some i, s)
        | FindNone \<Rightarrow>
            if \<not> want_free_item then Some (None, s)
            else (case free of
                    Some (free_blk, free_item) \<Rightarrow>
                      if loaded_dir_blk s \<noteq> free_blk
                      then let s = read_buf P free_blk s
                           in if last_error s \<noteq> TFS_ERR_OK then Some (None, s)
                              else Some (Some free_item, s\<lparr>loaded_dir_blk := free_blk\<rparr>)
                      else Some (Some free_item, s)
                  | None \<Rightarrow> new_dir_block P s)
      })"

section \<open>write_dir_cleanup\<close>

definition dir_block_empty :: "block \<Rightarrow> bool" where
  "dir_block_empty b \<longleftrightarrow> list_all (\<lambda>i. item_type b i = TFS_DIR_ITEM_FREE) [0..<TFS_DIR_BLK_ITEMS]"

text \<open>From the write of the neighbour on: \<open>prev\<close>, \<open>next\<close> as they are after the branch.\<close>

definition cleanup_links :: "'d platform \<Rightarrow> u32 \<Rightarrow> u32 \<Rightarrow> 'd fs \<Rightarrow> 'd fs" where
  "cleanup_links P prev nxt s =
     (let s = write_buf P prev s
      in if last_error s \<noteq> TFS_ERR_OK then s
         else if nxt \<noteq> 0
              then let s = read_buf P nxt s
                   in if last_error s \<noteq> TFS_ERR_OK then s
                      else let s = s\<lparr>blk_buf := set_prev (blk_buf s) prev\<rparr>;
                               s = write_buf P nxt s
                           in if last_error s \<noteq> TFS_ERR_OK then s
                              else free_block P (loaded_dir_blk s) s
              else free_block P (loaded_dir_blk s) s)"

definition write_dir_cleanup :: "'d platform \<Rightarrow> 'd fs \<Rightarrow> 'd fs" where
  "write_dir_cleanup P s =
     (if blk_prev (blk_buf s) = 0 \<and> blk_next (blk_buf s) = 0
      then write_buf P (loaded_dir_blk s) s
      else if \<not> dir_block_empty (blk_buf s) then write_buf P (loaded_dir_blk s) s
      else let prev = blk_prev (blk_buf s); nxt = blk_next (blk_buf s)
           in if prev = 0
              then let s = read_buf P nxt s
                   in if last_error s \<noteq> TFS_ERR_OK then s
                      else let s = s\<lparr>blk_buf := set_prev (blk_buf s) 0\<rparr>;
                               prev = loaded_dir_blk s;
                               s = s\<lparr>loaded_dir_blk := nxt\<rparr>
                           in cleanup_links P prev (blk_next (blk_buf s)) s
              else let s = read_buf P prev s
                   in if last_error s \<noteq> TFS_ERR_OK then s
                      else cleanup_links P prev nxt (s\<lparr>blk_buf := set_next (blk_buf s) nxt\<rparr>))"

section \<open>The public directory functions\<close>

text \<open>
  \<open>tfs_read_dir\<close> calls the user's \<open>tfs_dir_handler\<close> on every item, free ones too; the handler
  takes and returns the user's data and says whether to go on.
\<close>

fun read_items :: "('u \<Rightarrow> dir_item \<Rightarrow> 'u \<times> bool) \<Rightarrow> block \<Rightarrow> nat list \<Rightarrow> 'u \<Rightarrow> 'u \<times> bool" where
  "read_items h b [] u = (u, True)"
| "read_items h b (i # is) u =
     (let r = h u (get_item b i) in if snd r then read_items h b is (fst r) else (fst r, False))"

partial_function (option) read_dir_loop :: "'d platform \<Rightarrow> ('u \<Rightarrow> dir_item \<Rightarrow> 'u \<times> bool) \<Rightarrow> 'u \<Rightarrow> u32
    \<Rightarrow> 'd fs \<Rightarrow> ((bool \<times> 'u) \<times> 'd fs) option" where
  "read_dir_loop P h u pos s =
     (let s = read_buf P pos s
      in if last_error s \<noteq> TFS_ERR_OK then Some ((False, u), s)
         else let r = read_items h (blk_buf s) [0..<TFS_DIR_BLK_ITEMS] u
              in if \<not> snd r then Some ((False, fst r), s)
                 else if blk_next (blk_buf s) = 0 then Some ((True, fst r), s)
                      else read_dir_loop P h (fst r) (blk_next (blk_buf s)) s)"

definition tfs_read_dir :: "'d platform \<Rightarrow> ('u \<Rightarrow> dir_item \<Rightarrow> 'u \<times> bool) \<Rightarrow> 'u \<Rightarrow> 'd fs
    \<Rightarrow> ((bool \<times> 'u) \<times> 'd fs) option" where
  "tfs_read_dir P h u s = api_call P (False, u) (read_dir_loop P h u (current_dir_blk s)) s"

definition tfs_change_dir_root :: "'d fs \<Rightarrow> 'd fs" where
  "tfs_change_dir_root s = s\<lparr>current_dir_blk := TFS_ROOT_DIR_BLK\<rparr>"

definition change_dir_parent_body :: "'d platform \<Rightarrow> 'd fs \<Rightarrow> 'd fs option" where
  "change_dir_parent_body P s =
     (let s = read_buf P (current_dir_blk s) s
      in if last_error s \<noteq> TFS_ERR_OK then Some s
         else if dir_parent (blk_buf s) = 0 then Some (set_error TFS_ERR_NOT_EXIST s)
         else Some (s\<lparr>current_dir_blk := dir_parent (blk_buf s)\<rparr>))"

definition tfs_change_dir_parent :: "'d platform \<Rightarrow> 'd fs \<Rightarrow> 'd fs option" where
  "tfs_change_dir_parent P s = api_void P (change_dir_parent_body P) s"

definition change_dir_body :: "'d platform \<Rightarrow> byte list \<Rightarrow> 'd fs \<Rightarrow> 'd fs option" where
  "change_dir_body P name s = do {
     (item, s) \<leftarrow> find_file P name False s;
     if last_error s \<noteq> TFS_ERR_OK then Some s
     else case item of
            None \<Rightarrow> Some (set_error TFS_ERR_NOT_EXIST s)
          | Some i \<Rightarrow>
              if item_type (blk_buf s) i \<noteq> TFS_DIR_ITEM_DIR then Some (set_error TFS_ERR_NOT_EXIST s)
              else Some (s\<lparr>current_dir_blk := item_blk (blk_buf s) i\<rparr>)
   }"

definition tfs_change_dir :: "'d platform \<Rightarrow> byte list \<Rightarrow> 'd fs \<Rightarrow> 'd fs option" where
  "tfs_change_dir P name s = api_void P (change_dir_body P name) s"

text \<open>The four assignments that fill an item, in the order of the code.\<close>

definition fill_item :: "nat \<Rightarrow> byte \<Rightarrow> u32 \<Rightarrow> u32 \<Rightarrow> byte list \<Rightarrow> block \<Rightarrow> block" where
  "fill_item i t n sz name b =
     set_item_name (set_item_size (set_item_blk (set_item_type b i t) i n) i sz) i name"

text \<open>Where the code follows \<open>item\<close> after \<open>find_file (name, 1)\<close> without an error, the pointer
  is not null; the model's \<open>None\<close> branch is not reached.\<close>

definition create_dir_body :: "'d platform \<Rightarrow> byte list \<Rightarrow> 'd fs \<Rightarrow> 'd fs option" where
  "create_dir_body P name s = do {
     (item, s) \<leftarrow> find_file P name True s;
     if last_error s \<noteq> TFS_ERR_OK then Some s
     else do {
       i \<leftarrow> item;
       if item_type (blk_buf s) i \<noteq> TFS_DIR_ITEM_FREE then Some (set_error TFS_ERR_FILE_EXIST s)
       else do {
         (new, s) \<leftarrow> alloc_block P s;
         if last_error s \<noteq> TFS_ERR_OK then Some s
         else let s = s\<lparr>blk_buf := fill_item i TFS_DIR_ITEM_DIR new 0 name (blk_buf s)\<rparr>;
                  s = write_buf P (loaded_dir_blk s) s
              in if last_error s \<noteq> TFS_ERR_OK then Some s
                 else let s = s\<lparr>blk_buf := set_parent (replicate TFS_BLOCKSIZE 0) (current_dir_blk s)\<rparr>
                      in Some (write_buf P new s)
       }
     }
   }"

definition tfs_create_dir :: "'d platform \<Rightarrow> byte list \<Rightarrow> 'd fs \<Rightarrow> 'd fs option" where
  "tfs_create_dir P name s = api_void P (create_dir_body P name) s"

section \<open>The abstract directory\<close>

text \<open>
  A directory is the list of its slots, block by block.  A lookup is the first used slot whose
  name matches, a free slot the first unused one.
\<close>

definition dir_slots :: "u32 list \<Rightarrow> (u32 \<times> nat) list" where
  "dir_slots ds = List.product ds [0..<TFS_DIR_BLK_ITEMS]"

definition slot_free :: "(u32 \<Rightarrow> block) \<Rightarrow> u32 \<times> nat \<Rightarrow> bool" where
  "slot_free C p \<longleftrightarrow> item_type (C (fst p)) (snd p) = TFS_DIR_ITEM_FREE"

definition slot_match :: "(u32 \<Rightarrow> block) \<Rightarrow> (byte list \<Rightarrow> bool) \<Rightarrow> u32 \<times> nat \<Rightarrow> bool" where
  "slot_match C cmp p \<longleftrightarrow> \<not> slot_free C p \<and> cmp (item_name (C (fst p)) (snd p))"

definition dir_lookup :: "(u32 \<Rightarrow> block) \<Rightarrow> (byte list \<Rightarrow> bool) \<Rightarrow> u32 list \<Rightarrow> (u32 \<times> nat) option" where
  "dir_lookup C cmp ds = find (slot_match C cmp) (dir_slots ds)"

definition dir_free :: "(u32 \<Rightarrow> block) \<Rightarrow> u32 list \<Rightarrow> (u32 \<times> nat) option" where
  "dir_free C ds = find (slot_free C) (dir_slots ds)"

definition slot_item :: "(u32 \<Rightarrow> block) \<Rightarrow> u32 \<times> nat \<Rightarrow> dir_item" where
  "slot_item C p = get_item (C (fst p)) (snd p)"

text \<open>The item a name denotes.\<close>

definition dir_find :: "(u32 \<Rightarrow> block) \<Rightarrow> (byte list \<Rightarrow> bool) \<Rightarrow> u32 list \<Rightarrow> dir_item option" where
  "dir_find C cmp ds = map_option (slot_item C) (dir_lookup C cmp ds)"

lemma find_append: "find Q (xs @ ys) = (case find Q xs of None \<Rightarrow> find Q ys | Some x \<Rightarrow> Some x)"
  by (induction xs) auto

lemma find_map: "find Q (map f xs) = map_option f (find (Q \<circ> f) xs)"
  by (induction xs) auto

lemma find_SomeD: "find Q xs = Some x \<Longrightarrow> x \<in> set xs \<and> Q x"
  by (auto simp: find_Some_iff)

lemma in_dir_slots [simp]: "(d, i) \<in> set (dir_slots ds) \<longleftrightarrow> d \<in> set ds \<and> i < TFS_DIR_BLK_ITEMS"
  by (auto simp: dir_slots_def)

lemma dir_slots_simps [simp]:
  "dir_slots [] = []" "dir_slots (d # ds) = map (Pair d) [0..<TFS_DIR_BLK_ITEMS] @ dir_slots ds"
  by (simp_all only: dir_slots_def product.simps)

lemma dir_slots_append [simp]: "dir_slots (ds @ es) = dir_slots ds @ dir_slots es"
  by (induction ds) (simp_all del: dir_slots_simps(2) add: dir_slots_def)

lemma dir_lookup_SomeD:
  assumes "dir_lookup C cmp ds = Some (d, i)"
  shows "d \<in> set ds" "i < TFS_DIR_BLK_ITEMS" "item_type (C d) i \<noteq> TFS_DIR_ITEM_FREE" "cmp (item_name (C d) i)"
  using find_SomeD[OF assms[unfolded dir_lookup_def]] by (simp_all add: slot_match_def slot_free_def)

lemma dir_free_SomeD:
  assumes "dir_free C ds = Some (d, i)"
  shows "d \<in> set ds" "i < TFS_DIR_BLK_ITEMS" "item_type (C d) i = TFS_DIR_ITEM_FREE"
  using find_SomeD[OF assms[unfolded dir_free_def]] by (simp_all add: slot_free_def)

lemma dir_lookup_cong:
  assumes "\<And>d i. d \<in> set ds \<Longrightarrow> i < TFS_DIR_BLK_ITEMS \<Longrightarrow>
    item_type (C' d) i = item_type (C d) i \<and> item_name (C' d) i = item_name (C d) i"
  shows "dir_lookup C' cmp ds = dir_lookup C cmp ds"
  unfolding dir_lookup_def
  by (rule find_cong) (use assms in \<open>auto simp: slot_match_def slot_free_def\<close>)

text \<open>A free slot is filled: other names are looked up as before, the new name is found there.\<close>

lemma dir_lookup_filled:
  assumes "d \<in> set ds" and "i < TFS_DIR_BLK_ITEMS" and "item_type (C d) i = TFS_DIR_ITEM_FREE"
    and "item_type (C' d) i \<noteq> TFS_DIR_ITEM_FREE" and "item_name (C' d) i = nm"
    and other: "\<And>e j. e \<in> set ds \<Longrightarrow> j < TFS_DIR_BLK_ITEMS \<Longrightarrow> (e, j) \<noteq> (d, i) \<Longrightarrow>
      item_type (C' e) j = item_type (C e) j \<and> item_name (C' e) j = item_name (C e) j"
  shows "\<not> cmp nm \<Longrightarrow> dir_lookup C' cmp ds = dir_lookup C cmp ds"
    and "cmp nm \<Longrightarrow> dir_lookup C cmp ds = None \<Longrightarrow> dir_lookup C' cmp ds = Some (d, i)"
proof -
  have eq: "slot_match C' cmp p = slot_match C cmp p" if "p \<in> set (dir_slots ds)" "p \<noteq> (d, i)" for p
    using other[of "fst p" "snd p"] that by (cases p) (auto simp: slot_match_def slot_free_def)
  have no: "\<not> slot_match C cmp (d, i)" using assms by (simp add: slot_match_def slot_free_def)
  have yes: "slot_match C' cmp (d, i) \<longleftrightarrow> cmp nm" using assms by (simp add: slot_match_def slot_free_def)
  show "dir_lookup C' cmp ds = dir_lookup C cmp ds" if "\<not> cmp nm"
    unfolding dir_lookup_def using eq no yes that by (intro find_cong) auto
  show "dir_lookup C' cmp ds = Some (d, i)" if "cmp nm" "dir_lookup C cmp ds = None"
  proof -
    from that(2) have "\<forall>p \<in> set (dir_slots ds). \<not> slot_match C cmp p"
      unfolding dir_lookup_def find_None_iff by blast
    then have only: "\<forall>p \<in> set (dir_slots ds). slot_match C' cmp p \<longrightarrow> p = (d, i)" using eq by metis
    have "(d, i) \<in> set (dir_slots ds)" using assms by simp
    then have "find (slot_match C' cmp) (dir_slots ds) \<noteq> None"
      using yes that(1) unfolding find_None_iff by blast
    then obtain q where "find (slot_match C' cmp) (dir_slots ds) = Some q" by auto
    with find_SomeD[OF this] only show ?thesis by (simp add: dir_lookup_def)
  qed
qed

section \<open>The search loops compute the abstract lookup\<close>

lemma scan_items_spec:
  "fst (scan_items cmp (C pos) pos is free) = map_option snd (find (slot_match C cmp) (map (Pair pos) is))"
  "find (slot_match C cmp) (map (Pair pos) is) = None \<Longrightarrow>
   snd (scan_items cmp (C pos) pos is free) =
     (case free of None \<Rightarrow> find (slot_free C) (map (Pair pos) is) | Some x \<Rightarrow> Some x)"
  by (induction "is" arbitrary: free)
     (auto simp: slot_match_def slot_free_def split: option.splits)

context block_device
begin

text \<open>The directory that starts at the current directory block.\<close>

definition dir_ok :: "'d fs \<Rightarrow> u32 list \<Rightarrow> bool" where
  "dir_ok s ds \<longleftrightarrow> chain (cont s) (current_dir_blk s) ds \<and> back_links (cont s) 0 ds \<and> ds \<noteq> [] \<and>
     owned (cont s) (blk_count s) ds"

lemma find_loop_spec:
  assumes "ready s" and "chain (cont s) pos ds" and "ds \<noteq> []" and "\<forall>d \<in> set ds. d < blk_count s"
  shows "\<exists>fr s'. find_loop P name pos free s =
      Some (case dir_lookup (cont s) (pf_filename_cmp P name) ds of
              Some p \<Rightarrow> (FindItem (snd p), fr, s')
            | None \<Rightarrow> (FindNone, case free of None \<Rightarrow> dir_free (cont s) ds | Some x \<Rightarrow> Some x, s'))
    \<and> ready s' \<and> fs_frame s s' \<and> cont s' = cont s
    \<and> loaded_dir_blk s' = (case dir_lookup (cont s) (pf_filename_cmp P name) ds of
         Some p \<Rightarrow> fst p | None \<Rightarrow> last ds)
    \<and> blk_buf s' = cont s (loaded_dir_blk s')"
  using assms
proof (induction ds arbitrary: pos free s)
  case (Cons d ds)
  let ?cmp = "pf_filename_cmp P name"
  define s1 where "s1 = (read_buf P d s)\<lparr>loaded_dir_blk := d\<rparr>"
  define r where "r = scan_items ?cmp (cont s d) d [0..<TFS_DIR_BLK_ITEMS] free"
  define m where "m = find (slot_match (cont s) ?cmp) (map (Pair d) [0..<TFS_DIR_BLK_ITEMS])"
  have d: "pos = d" "d \<noteq> 0" "d < blk_count s" using Cons.prems by auto
  have s1: "ready s1" "fs_frame s s1" "cont s1 = cont s" "blk_buf s1 = cont s d"
      "last_error s1 = TFS_ERR_OK" "loaded_dir_blk s1 = d"
    using Cons.prems(1) d by (simp_all add: s1_def)
  have step: "find_loop P name pos free s =
      (case fst r of Some i \<Rightarrow> Some (FindItem i, snd r, s1)
       | None \<Rightarrow> if blk_next (cont s d) = 0 then Some (FindNone, snd r, s1)
                 else find_loop P name (blk_next (cont s d)) (snd r) s1)"
    using d Cons.prems(1) by (subst find_loop.simps) (simp add: Let_def s1_def r_def cong: option.case_cong)
  have lk: "dir_lookup (cont s) ?cmp (d # ds) =
      (case m of None \<Rightarrow> dir_lookup (cont s) ?cmp ds | Some x \<Rightarrow> Some x)"
    by (simp add: dir_lookup_def find_append m_def cong: option.case_cong)
  have r1: "fst r = map_option snd m" by (simp add: r_def m_def scan_items_spec)
  show ?case
  proof (cases m)
    case (Some p)
    then have "fst p = d" by (auto simp: m_def find_map)
    with Some step lk r1 s1 show ?thesis by (intro exI[of _ "snd r"] exI[of _ s1]) simp
  next
    case None
    then have r2: "snd r = (case free of None \<Rightarrow> find (slot_free (cont s)) (map (Pair d) [0..<TFS_DIR_BLK_ITEMS])
        | Some x \<Rightarrow> Some x)"
      by (simp add: r_def m_def scan_items_spec(2))
    show ?thesis
    proof (cases "ds = []")
      case True
      then have "blk_next (cont s d) = 0" using Cons.prems(2) by simp
      with None step lk r1 r2 s1 True show ?thesis
        by (intro exI[of _ "snd r"] exI[of _ s1]) (auto simp: dir_lookup_def dir_free_def split: option.splits)
    next
      case False
      let ?n = "blk_next (cont s d)"
      have n: "?n \<noteq> 0" "chain (cont s1) ?n ds" using Cons.prems(2) False s1(3) by (cases ds; auto)+
      have "\<forall>d \<in> set ds. d < blk_count s1" using Cons.prems(4) fs_frameD[OF s1(2)] by simp
      from Cons.IH[OF s1(1) n(2) False this, of "snd r"]
      obtain fr s' where s': "find_loop P name ?n (snd r) s1 =
          Some (case dir_lookup (cont s) ?cmp ds of Some p \<Rightarrow> (FindItem (snd p), fr, s')
            | None \<Rightarrow> (FindNone, case snd r of None \<Rightarrow> dir_free (cont s) ds | Some x \<Rightarrow> Some x, s'))"
        "ready s'" "fs_frame s1 s'" "cont s' = cont s"
        "loaded_dir_blk s' = (case dir_lookup (cont s) ?cmp ds of Some p \<Rightarrow> fst p | None \<Rightarrow> last ds)"
        "blk_buf s' = cont s (loaded_dir_blk s')"
        unfolding s1(3) by blast
      have "(case snd r of None \<Rightarrow> dir_free (cont s) ds | Some x \<Rightarrow> Some x) =
          (case free of None \<Rightarrow> dir_free (cont s) (d # ds) | Some x \<Rightarrow> Some x)"
        by (auto simp: r2 dir_free_def find_append split: option.splits)
      with s' step None r1 n(1) lk False fs_frame_trans[OF s1(2) s'(3)] show ?thesis
        by (intro exI[of _ fr] exI[of _ s']) (simp cong: option.case_cong)
    qed
  qed
qed simp

text \<open>A new directory block is linked behind the last one.\<close>

lemma new_dir_block_spec:
  assumes "ready s" and d: "loaded_dir_blk s = d" "d < blk_count s" "\<not> is_bitmap_blk d" "blk_used (cont s) d"
    and "blk_buf s = cont s d"
  obtains (full) s' where "new_dir_block P s = Some (None, s')" "free_set (cont s) (blk_count s) = {}"
      "last_error s' = TFS_ERR_DISK_FULL" "cont s' = cont s" "fs_frame s s'" "io_ok s'" "bitmap_ok (cont s') s'"
  | (ok) b s' where "new_dir_block P s = Some (Some 0, s')" "ready s'" "fs_frame s s'"
      "b < blk_count s" "\<not> blk_used (cont s) b" "\<not> is_bitmap_blk b" "b \<noteq> 0"
      "\<And>n. \<not> is_bitmap_blk n \<Longrightarrow> n \<noteq> d \<Longrightarrow> n \<noteq> b \<Longrightarrow> cont s' n = cont s n"
      "cont s' d = set_next (cont s d) b"
      "cont s' b = clear_items (set_next (set_prev (set_next (cont s d) b) d) 0)"
      "\<And>n. blk_used (cont s') n \<longleftrightarrow> blk_used (cont s) n \<or> n = b"
      "loaded_dir_blk s' = b" "blk_buf s' = cont s' b"
  using assms(1)
proof (cases rule: alloc_ready)
  case (full s')
  then show thesis by (intro that(1)[of s']) (simp_all add: new_dir_block_def bitmap_fs_frame)
next
  case (ok b s1)
  define s2 where "s2 = write_buf P d (s1\<lparr>blk_buf := set_next (cont s d) b\<rparr>)"
  define nb where "nb = clear_items (set_next (set_prev (set_next (cont s d) b) d) 0)"
  define s3 where "s3 = write_buf P b (s2\<lparr>blk_buf := nb, loaded_dir_blk := b\<rparr>)"
  have f1: "drive_info s1 = drive_info s" "loaded_dir_blk s1 = d" "blk_buf s1 = cont s d" "fs_frame s s1"
    using bitmap_frameD[OF ok(3)] assms(2,6) bitmap_fs_frame[OF ok(3)] by simp_all
  have s2: "ready s2" "cont s2 = (cont s1)(d := set_next (cont s d) b)" "fs_frame s s2"
      "blk_buf s2 = set_next (cont s d) b" "drive_info s2 = drive_info s" "loaded_dir_blk s2 = d"
    using ok(2) f1 d by (simp_all add: s2_def fs_frameD[OF f1(4)])
  have s3: "ready s3" "cont s3 = (cont s2)(b := nb)" "fs_frame s s3" "blk_buf s3 = nb" "loaded_dir_blk s3 = b"
    using s2 ok by (simp_all add: s3_def nb_def)
  have bd: "b \<noteq> d" using ok(5) d(4) by auto
  have "new_dir_block P s = Some (Some 0, s3)"
    using ok f1 s2 s3 d readyD(3)
    by (simp add: new_dir_block_def Let_def) (simp add: s2_def s3_def nb_def)
  moreover have "blk_used (cont s3) n = blk_used (cont s1) n" for n
    using d(3) ok(6) is_bitmap_get[of n] by (auto simp: blk_used_def s3(2) s2(2))
  ultimately show thesis
    using ok s3 s2 bd by (intro that(2)[of s3 b]) (auto simp: nb_def)
qed

text \<open>The five ways \<open>find_file\<close> ends on a working drive, for a name that is not empty.\<close>

lemma find_file_cases:
  assumes "ready s" and "dir_ok s ds" and "c_at name 0 \<noteq> 0"
  obtains (found) d i s' where "dir_lookup (cont s) (pf_filename_cmp P name) ds = Some (d, i)"
      "find_file P name want s = Some (Some i, s')" "ready s'" "fs_frame s s'" "cont s' = cont s"
      "loaded_dir_blk s' = d" "blk_buf s' = cont s d"
  | (absent) s' where "dir_lookup (cont s) (pf_filename_cmp P name) ds = None" "\<not> want"
      "find_file P name want s = Some (None, s')" "ready s'" "fs_frame s s'" "cont s' = cont s"
  | (slot) d i s' where "dir_lookup (cont s) (pf_filename_cmp P name) ds = None" "want"
      "dir_free (cont s) ds = Some (d, i)"
      "find_file P name want s = Some (Some i, s')" "ready s'" "fs_frame s s'" "cont s' = cont s"
      "loaded_dir_blk s' = d" "blk_buf s' = cont s d"
  | (grow) s1 where "dir_lookup (cont s) (pf_filename_cmp P name) ds = None" "want"
      "dir_free (cont s) ds = None" "find_file P name want s = new_dir_block P s1"
      "ready s1" "fs_frame s s1" "cont s1 = cont s" "loaded_dir_blk s1 = last ds" "blk_buf s1 = cont s (last ds)"
proof -
  let ?lk = "dir_lookup (cont s) (pf_filename_cmp P name) ds"
  have ds: "chain (cont s) (current_dir_blk s) ds" "ds \<noteq> []" "\<forall>d \<in> set ds. d < blk_count s"
    using assms(2) by (auto simp: dir_ok_def owned_def)
  obtain fr s1 where s1: "find_loop P name (current_dir_blk s) None s =
      Some (case ?lk of Some p \<Rightarrow> (FindItem (snd p), fr, s1)
            | None \<Rightarrow> (FindNone, dir_free (cont s) ds, s1))"
    "ready s1" "fs_frame s s1" "cont s1 = cont s"
    "loaded_dir_blk s1 = (case ?lk of Some p \<Rightarrow> fst p | None \<Rightarrow> last ds)"
    "blk_buf s1 = cont s (loaded_dir_blk s1)"
    using find_loop_spec[OF assms(1) ds, of name None, unfolded option.case] by blast
  show thesis
  proof (cases ?lk)
    case (Some p)
    with s1 assms(3) show thesis by (intro found[of "fst p" "snd p" s1]) (auto simp: find_file_def)
  next
    case lk: None
    show thesis
    proof (cases "want \<and> dir_free (cont s) ds \<noteq> None")
      case True
      then obtain d i where f: "dir_free (cont s) ds = Some (d, i)" by auto
      have d: "d < blk_count s1" using dir_free_SomeD(1)[OF f] ds(3) fs_frameD[OF s1(3)] by simp
      let ?s2 = "if last ds \<noteq> d then (read_buf P d s1)\<lparr>loaded_dir_blk := d\<rparr> else s1"
      show thesis
        using s1 lk f True assms(3) d
        by (intro slot[of d i ?s2]) (auto simp: find_file_def Let_def)
    next
      case no_slot: False
      show thesis
      proof (cases want)
        case True
        with no_slot have "dir_free (cont s) ds = None" by blast
        with s1 lk assms(3) True show thesis by (intro grow[of s1]) (simp_all add: find_file_def)
      next
        case False
        with s1 lk assms(3) show thesis by (intro absent[of s1]) (simp_all add: find_file_def)
      qed
    qed
  qed
qed

end

end
