(* ===== verification/Entries.thy ===== *)
theory Entries
  imports Directory
begin

text \<open>
  Adding a directory entry: the free slot that \<open>find_file (name, 1)\<close> delivers, the item that
  the callers store there, and what a later lookup sees.  \<open>tfs_create_dir\<close>,
  \<open>tfs_write_file\<close> and \<open>tfs_touch\<close> share these lemmas.
\<close>

section \<open>Filling an item\<close>

lemma get_item_simps [simp]:
  "it_blk (get_item b i) = item_blk b i" "it_size (get_item b i) = item_size b i"
  "it_type (get_item b i) = item_type b i" "it_name (get_item b i) = item_name b i"
  by (simp_all add: get_item_def)

lemma get_item_eqI:
  "item_blk b i = item_blk b' j \<Longrightarrow> item_size b i = item_size b' j \<Longrightarrow> item_type b i = item_type b' j \<Longrightarrow>
   item_name b i = item_name b' j \<Longrightarrow> get_item b i = get_item b' j"
  by (simp add: get_item_def)

lemma fill_item_simps [simp]:
  assumes "length b = TFS_BLOCKSIZE" and "i < TFS_DIR_BLK_ITEMS"
  shows "length (fill_item i t n sz name b) = TFS_BLOCKSIZE"
    "get_item (fill_item i t n sz name b) i =
       \<lparr>it_blk = n, it_size = sz, it_type = t, it_name = strncpy TFS_NAME_LEN name\<rparr>"
    "j < TFS_DIR_BLK_ITEMS \<Longrightarrow> j \<noteq> i \<Longrightarrow> get_item (fill_item i t n sz name b) j = get_item b j"
    "blk_prev (fill_item i t n sz name b) = blk_prev b"
    "blk_next (fill_item i t n sz name b) = blk_next b"
    "dir_parent (fill_item i t n sz name b) = dir_parent b"
  using assms by (simp_all add: fill_item_def get_item_def)

lemma get_item_headers [simp]:
  assumes "length b = TFS_BLOCKSIZE" and "i < TFS_DIR_BLK_ITEMS"
  shows "get_item (set_prev b v) i = get_item b i" "get_item (set_next b v) i = get_item b i"
    "get_item (set_parent b v) i = get_item b i"
  using assms by (simp_all add: get_item_def)

lemma dir_lookup_items_cong:
  assumes "\<And>d i. d \<in> set ds \<Longrightarrow> i < TFS_DIR_BLK_ITEMS \<Longrightarrow> get_item (C' d) i = get_item (C d) i"
  shows "dir_lookup C' cmp ds = dir_lookup C cmp ds"
proof (rule dir_lookup_cong)
  fix d i assume "d \<in> set ds" "i < TFS_DIR_BLK_ITEMS"
  from assms[OF this] show "item_type (C' d) i = item_type (C d) i \<and> item_name (C' d) i = item_name (C d) i"
    by (metis get_item_simps(3,4))
qed

lemma dir_find_items_cong:
  assumes "\<And>d i. d \<in> set ds \<Longrightarrow> i < TFS_DIR_BLK_ITEMS \<Longrightarrow> get_item (C' d) i = get_item (C d) i"
  shows "dir_find C' cmp ds = dir_find C cmp ds"
proof -
  have l: "dir_lookup C' cmp ds = dir_lookup C cmp ds" by (rule dir_lookup_items_cong) (rule assms)
  have "slot_item C' p = slot_item C p" if "dir_lookup C cmp ds = Some p" for p
    using that dir_lookup_SomeD(1,2)[of C cmp ds "fst p" "snd p"] assms by (simp add: slot_item_def)
  then show ?thesis unfolding dir_find_def l by (intro option.map_cong) auto
qed

text \<open>Two media that differ in one slot, which was free and now holds \<open>it\<close>.\<close>

lemma dir_find_filled:
  assumes "d \<in> set ds" and "i < TFS_DIR_BLK_ITEMS" and "item_type (C d) i = TFS_DIR_ITEM_FREE"
    and it: "get_item (C' d) i = it" "it_type it \<noteq> TFS_DIR_ITEM_FREE"
    and other: "\<And>e j. e \<in> set ds \<Longrightarrow> j < TFS_DIR_BLK_ITEMS \<Longrightarrow> (e, j) \<noteq> (d, i) \<Longrightarrow>
      get_item (C' e) j = get_item (C e) j"
  shows "\<not> cmp (it_name it) \<Longrightarrow> dir_find C' cmp ds = dir_find C cmp ds"
    and "cmp (it_name it) \<Longrightarrow> dir_lookup C cmp ds = None \<Longrightarrow> dir_lookup C' cmp ds = Some (d, i)"
    and "cmp (it_name it) \<Longrightarrow> dir_lookup C cmp ds = None \<Longrightarrow> dir_find C' cmp ds = Some it"
proof -
  have tn: "item_type (C' d) i \<noteq> TFS_DIR_ITEM_FREE" "item_name (C' d) i = it_name it"
    using it by auto
  have other': "item_type (C' e) j = item_type (C e) j \<and> item_name (C' e) j = item_name (C e) j"
    if "e \<in> set ds" "j < TFS_DIR_BLK_ITEMS" "(e, j) \<noteq> (d, i)" for e j
    using other[OF that] by (metis get_item_simps(3,4))
  note l = dir_lookup_filled[where C = C and C' = C' and cmp = cmp, OF assms(1-3) tn other']
  show "dir_lookup C' cmp ds = Some (d, i)" if "cmp (it_name it)" "dir_lookup C cmp ds = None"
    using l(2) that by blast
  then show "dir_find C' cmp ds = Some it" if "cmp (it_name it)" "dir_lookup C cmp ds = None"
    using that it by (simp add: dir_find_def slot_item_def)
  show "dir_find C' cmp ds = dir_find C cmp ds" if n: "\<not> cmp (it_name it)"
  proof -
    have eq: "dir_lookup C' cmp ds = dir_lookup C cmp ds" using l(1) n by blast
    have "slot_item C' p = slot_item C p" if "dir_lookup C cmp ds = Some p" for p
    proof -
      obtain e j where p: "p = (e, j)" by fastforce
      with that have "(e, j) \<noteq> (d, i)" using assms(3) dir_lookup_SomeD(3) by fastforce
      with that p show ?thesis
        using other dir_lookup_SomeD(1,2) by (simp add: slot_item_def)
    qed
    then show ?thesis unfolding dir_find_def eq by (intro option.map_cong) auto
  qed
qed

text \<open>An item in use is replaced: a name that denoted it denotes its new value, if the two names
  compare alike; all other names keep their meaning.\<close>

lemma dir_find_put:
  assumes "d \<in> set ds" and "i < TFS_DIR_BLK_ITEMS" and "item_type (C d) i \<noteq> TFS_DIR_ITEM_FREE"
    and it: "get_item (C' d) i = it" "it_type it \<noteq> TFS_DIR_ITEM_FREE"
    and alike: "cmp (it_name it) = cmp (item_name (C d) i)"
    and other: "\<And>e j. e \<in> set ds \<Longrightarrow> j < TFS_DIR_BLK_ITEMS \<Longrightarrow> (e, j) \<noteq> (d, i) \<Longrightarrow>
      get_item (C' e) j = get_item (C e) j"
  shows "dir_lookup C' cmp ds = dir_lookup C cmp ds"
    and "dir_find C' cmp ds = (if dir_lookup C cmp ds = Some (d, i) then Some it else dir_find C cmp ds)"
proof -
  have tn: "item_type (C' d) i \<noteq> TFS_DIR_ITEM_FREE" "item_name (C' d) i = it_name it"
    using it by auto
  have o': "item_type (C' e) j = item_type (C e) j" "item_name (C' e) j = item_name (C e) j"
    if "e \<in> set ds" "j < TFS_DIR_BLK_ITEMS" "(e, j) \<noteq> (d, i)" for e j
    using other[OF that] by (metis get_item_simps(3), metis get_item_simps(4))
  have m: "slot_match C' cmp p = slot_match C cmp p" if "p \<in> set (dir_slots ds)" for p
  proof (cases "p = (d, i)")
    case True
    then show ?thesis using tn assms(3) alike by (simp add: slot_match_def slot_free_def)
  next
    case False
    obtain e j where p: "p = (e, j)" by fastforce
    have "e \<in> set ds" "j < TFS_DIR_BLK_ITEMS" using that p by simp_all
    with False p o'[of e j] show ?thesis by (simp add: slot_match_def slot_free_def)
  qed
  then show l: "dir_lookup C' cmp ds = dir_lookup C cmp ds"
    unfolding dir_lookup_def by (intro find_cong) auto
  have "slot_item C' p = slot_item C p" if "dir_lookup C cmp ds = Some p" "p \<noteq> (d, i)" for p
    using that other[of "fst p" "snd p"] dir_lookup_SomeD(1,2)[of C cmp ds "fst p" "snd p"]
    by (simp add: slot_item_def)
  then show "dir_find C' cmp ds = (if dir_lookup C cmp ds = Some (d, i) then Some it else dir_find C cmp ds)"
    using it(1) by (cases "dir_lookup C cmp ds") (auto simp: dir_find_def l slot_item_def)
qed

section \<open>The free slot\<close>

context block_device
begin

text \<open>
  \<open>free_slot s s' ds ds' d i A\<close>: between \<open>s\<close> and \<open>s'\<close> the directory grew from \<open>ds\<close> to \<open>ds'\<close>
  without changing an item, slot \<open>i\<close> of block \<open>d\<close> is free and loaded, the blocks \<open>A\<close> were
  allocated, and nothing else outside the bitmap changed.
\<close>

definition dir_grown :: "'d fs \<Rightarrow> 'd fs \<Rightarrow> u32 list \<Rightarrow> u32 list \<Rightarrow> u32 set \<Rightarrow> bool" where
  "dir_grown s s' ds ds' A \<longleftrightarrow>
     fs_frame s s' \<and> dir_ok s' ds' \<and> (ds' = ds \<or> (\<exists>b. ds' = ds @ [b])) \<and>
     (\<forall>n. \<not> is_bitmap_blk n \<longrightarrow> n \<notin> set ds' \<longrightarrow> n \<notin> A \<longrightarrow> cont s' n = cont s n) \<and>
     (\<forall>n. blk_used (cont s') n \<longleftrightarrow> blk_used (cont s) n \<or> n \<in> set ds' \<or> n \<in> A) \<and>
     (\<forall>n \<in> (set ds' - set ds) \<union> A. \<not> blk_used (cont s) n \<and> n < blk_count s \<and> \<not> is_bitmap_blk n \<and> n \<noteq> 0) \<and>
     A \<inter> set ds' = {}"

definition free_slot :: "'d fs \<Rightarrow> 'd fs \<Rightarrow> u32 list \<Rightarrow> u32 list \<Rightarrow> u32 \<Rightarrow> nat \<Rightarrow> u32 set \<Rightarrow> bool" where
  "free_slot s s' ds ds' d i A \<longleftrightarrow>
     ready s' \<and> dir_grown s s' ds ds' A \<and> d \<in> set ds' \<and> i < TFS_DIR_BLK_ITEMS \<and>
     loaded_dir_blk s' = d \<and> blk_buf s' = cont s' d \<and> item_type (cont s' d) i = TFS_DIR_ITEM_FREE \<and>
     (\<forall>cmp. dir_lookup (cont s') cmp ds' = dir_lookup (cont s) cmp ds) \<and>
     (\<forall>cmp. dir_find (cont s') cmp ds' = dir_find (cont s) cmp ds)"

lemma dir_ok_cong:
  assumes "dir_ok s ds" and "fs_frame s s'"
    and "\<And>d. d \<in> set ds \<Longrightarrow> blk_next (cont s' d) = blk_next (cont s d)"
    and "\<And>d. d \<in> set ds \<Longrightarrow> blk_prev (cont s' d) = blk_prev (cont s d)"
    and "\<And>d. d \<in> set ds \<Longrightarrow> blk_used (cont s) d \<Longrightarrow> blk_used (cont s') d"
  shows "dir_ok s' ds"
proof -
  have "chain (cont s') (current_dir_blk s) ds = chain (cont s) (current_dir_blk s) ds"
    by (rule chain_cong) (simp add: assms(3))
  moreover have "back_links (cont s') 0 ds = back_links (cont s) 0 ds"
    by (rule back_links_cong) (simp add: assms(4))
  ultimately show ?thesis using assms(1,5) by (simp add: dir_ok_def owned_def fs_frameD[OF assms(2)])
qed

lemma dir_okD:
  assumes "dir_ok s ds" and "d \<in> set ds"
  shows "d < blk_count s" "\<not> is_bitmap_blk d" "blk_used (cont s) d" "d \<noteq> 0"
  using assms chain_nonzero[of "cont s" "current_dir_blk s" ds d] by (auto simp: dir_ok_def owned_def)

lemma find_free_slot:
  assumes "ready s" and "dir_ok s ds" and "c_at name 0 \<noteq> 0"
    and "dir_lookup (cont s) (pf_filename_cmp P name) ds = None"
  obtains (full) s' where "find_file P name True s = Some (None, s')" "free_set (cont s) (blk_count s) = {}"
      "last_error s' = TFS_ERR_DISK_FULL" "cont s' = cont s" "fs_frame s s'" "io_ok s'" "bitmap_ok (cont s') s'"
  | (slot) ds' d i s' where "find_file P name True s = Some (Some i, s')" "free_slot s s' ds ds' d i {}"
  using assms(1-3)
proof (cases rule: find_file_cases[where want = True])
  case (found d i s')
  with assms(4) show thesis by simp
next
  case (slot d i s')
  have "dir_ok s' ds" by (rule dir_ok_cong[OF assms(2) slot(6)]) (simp_all add: slot(7))
  with slot dir_free_SomeD[OF slot(3)] dir_okD[OF assms(2)] show thesis
    by (intro that(2)[of i s' ds d]) (auto simp: free_slot_def dir_grown_def)
next
  case (grow s1)
  let ?d = "last ds"
  have d: "?d \<in> set ds" using assms(2) by (auto simp: dir_ok_def)
  note dd = dir_okD[OF assms(2) d]
  have d1: "?d < blk_count s1" "blk_used (cont s1) ?d" "blk_buf s1 = cont s1 ?d"
    using dd fs_frameD[OF grow(6)] grow by simp_all
  show thesis using grow(5,8) d1(1) dd(2) d1(2,3)
  proof (cases rule: new_dir_block_spec)
    case (full s')
    with grow fs_frame_trans[OF grow(6)] fs_frameD[OF grow(6)] show thesis by (intro that(1)[of s']) simp_all
  next
    case (ok b s')
    have fr: "fs_frame s s'" using fs_frame_trans[OF grow(6) ok(3)] .
    have b_new: "b \<notin> set ds" using ok(5) dir_okD(3)[OF assms(2)] grow(7) by auto
    have c_ds: "cont s' e = (if e = ?d then set_next (cont s e) b else cont s e)" if "e \<in> set ds" for e
      using that b_new dir_okD(2)[OF assms(2) that] ok(8,9) grow(7) by auto
    have ch: "chain (cont s') (current_dir_blk s) (ds @ [b])"
    proof (rule chain_snoc)
      show "chain (cont s) (current_dir_blk s) ds" using assms(2) by (simp add: dir_ok_def)
      show "blk_next (cont s' b) = 0" by (simp add: ok(10))
      show "blk_next (cont s' ?d) = b" by (simp add: ok(9))
      fix x assume "x \<in> set (butlast ds)"
      then have "x \<in> set ds" by (rule in_set_butlastD)
      moreover have "x \<noteq> ?d" using \<open>x \<in> set (butlast ds)\<close> assms(2) chain_distinct
        by (metis append_butlast_last_id d dir_ok_def distinct_append disjoint_iff list.set_intros(1) length_pos_if_in_set length_greater_0_conv)
      ultimately show "blk_next (cont s' x) = blk_next (cont s x)" by (simp add: c_ds)
    qed (use assms(2) ok(7) b_new in \<open>auto simp: dir_ok_def\<close>)
    have "back_links (cont s') 0 ds = back_links (cont s) 0 ds"
      by (rule back_links_cong) (simp add: c_ds)
    then have bl: "back_links (cont s') 0 (ds @ [b])"
      using assms(2) d by (auto simp: back_links_snoc dir_ok_def ok(10))
    have dok: "dir_ok s' (ds @ [b])"
      using ch bl dir_okD[OF assms(2)] ok(4,6,11) grow(7) fs_frameD[OF grow(6)]
      by (auto simp: dir_ok_def owned_def fs_frameD[OF fr])
    have items: "get_item (cont s' e) j = get_item (cont s e) j" if "e \<in> set ds" "j < TFS_DIR_BLK_ITEMS" for e j
      using c_ds[OF that(1)] that(2) by simp
    have free_b: "item_type (cont s' b) j = TFS_DIR_ITEM_FREE" if "j < TFS_DIR_BLK_ITEMS" for j
      using that by (simp add: ok(10))
    have lk: "dir_lookup (cont s') cmp (ds @ [b]) = dir_lookup (cont s) cmp ds" for cmp
    proof -
      have "find (slot_match (cont s') cmp) (dir_slots [b]) = None"
        using free_b by (auto simp: find_None_iff slot_match_def slot_free_def)
      then have "dir_lookup (cont s') cmp (ds @ [b]) = dir_lookup (cont s') cmp ds"
        by (simp add: dir_lookup_def find_append split: option.splits)
      then show ?thesis using dir_lookup_items_cong[OF items] by simp
    qed
    have fd: "dir_find (cont s') cmp (ds @ [b]) = dir_find (cont s) cmp ds" for cmp
    proof -
      have "dir_find (cont s') cmp (ds @ [b]) = dir_find (cont s') cmp ds"
        using lk dir_lookup_items_cong[OF items] by (simp add: dir_find_def)
      then show ?thesis using dir_find_items_cong[OF items] by simp
    qed
    have "n \<noteq> ?d" if "n \<notin> set ds" for n using d that by auto
    then have "dir_grown s s' ds (ds @ [b]) {}"
      using fr dok d dir_okD[OF assms(2)] ok(4-8,11) grow(7) fs_frameD[OF grow(6)]
      by (auto simp: dir_grown_def)
    then have "free_slot s s' ds (ds @ [b]) b 0 {}"
      using ok lk fd free_b by (simp add: free_slot_def)
    then show thesis using grow(4) ok(1) by (intro that(2)[of 0 s']) simp_all
  qed
qed (use assms(4) in simp_all)

text \<open>Allocation and writes to blocks outside the directory keep what was established.\<close>

lemma dir_grown_step:
  assumes g: "dir_grown s s1 ds ds' A" and "fs_frame s1 s2"
    and c: "\<And>n. \<not> is_bitmap_blk n \<Longrightarrow> n \<notin> A \<union> B \<Longrightarrow> cont s2 n = cont s1 n"
    and u: "\<And>n. blk_used (cont s2) n \<longleftrightarrow> blk_used (cont s1) n \<or> n \<in> B"
    and B: "\<And>n. n \<in> B \<Longrightarrow> \<not> blk_used (cont s1) n \<and> n < blk_count s \<and> \<not> is_bitmap_blk n \<and> n \<noteq> 0"
  shows "dir_grown s s2 ds ds' (A \<union> B)" and "\<And>n. n \<in> set ds' \<Longrightarrow> cont s2 n = cont s1 n"
proof -
  have ok: "dir_ok s1 ds'" and disj: "A \<inter> set ds' = {}" using g by (auto simp: dir_grown_def)
  have nB: "n \<notin> B" if "n \<in> set ds'" for n using dir_okD(3)[OF ok that] B by blast
  then show same: "cont s2 n = cont s1 n" if "n \<in> set ds'" for n
    using that disj dir_okD(2)[OF ok that] by (intro c) auto
  have u1: "blk_used (cont s1) n \<longleftrightarrow> blk_used (cont s) n \<or> n \<in> set ds' \<or> n \<in> A" for n
    using g by (simp add: dir_grown_def)
  show "dir_grown s s2 ds ds' (A \<union> B)"
    unfolding dir_grown_def
  proof (intro conjI allI ballI impI)
    show "fs_frame s s2" using g fs_frame_trans[OF _ assms(2)] by (simp add: dir_grown_def)
    show "dir_ok s2 ds'" by (rule dir_ok_cong[OF ok assms(2)]) (simp_all add: same u)
    show "ds' = ds \<or> (\<exists>b. ds' = ds @ [b])" using g by (simp add: dir_grown_def)
    show "(A \<union> B) \<inter> set ds' = {}" using disj nB by blast
    show "blk_used (cont s2) n \<longleftrightarrow> blk_used (cont s) n \<or> n \<in> set ds' \<or> n \<in> A \<union> B" for n
      by (simp only: u u1) blast
  next
    fix n assume n: "\<not> is_bitmap_blk n" "n \<notin> set ds'" "n \<notin> A \<union> B"
    then have "cont s2 n = cont s1 n" by (intro c)
    with n g show "cont s2 n = cont s n" by (simp add: dir_grown_def)
  next
    fix n assume n: "n \<in> (set ds' - set ds) \<union> (A \<union> B)"
    have g': "\<forall>n \<in> (set ds' - set ds) \<union> A. \<not> blk_used (cont s) n \<and> n < blk_count s \<and> \<not> is_bitmap_blk n \<and> n \<noteq> 0"
      using g by (simp add: dir_grown_def)
    have "\<not> blk_used (cont s) n \<and> n < blk_count s \<and> \<not> is_bitmap_blk n \<and> n \<noteq> 0"
    proof (cases "n \<in> B")
      case True
      then show ?thesis using B[OF True] u1 by blast
    next
      case False
      with n have "n \<in> (set ds' - set ds) \<union> A" by blast
      with g' show ?thesis by blast
    qed
    then show "\<not> blk_used (cont s) n" "n < blk_count s" "\<not> is_bitmap_blk n" "n \<noteq> 0" by blast+
  qed
qed

lemma free_slot_alloc:
  assumes f: "free_slot s s1 ds ds' d i A" and "ready s2" and fr: "bitmap_frame s1 s2"
    and b: "b < blk_count s1" "\<not> blk_used (cont s1) b" "\<not> is_bitmap_blk b" "b \<noteq> 0"
    and c: "\<And>n. \<not> is_bitmap_blk n \<Longrightarrow> cont s2 n = cont s1 n"
    and u: "\<And>n. blk_used (cont s2) n \<longleftrightarrow> blk_used (cont s1) n \<or> n = b"
  shows "free_slot s s2 ds ds' d i (insert b A)"
proof -
  have g: "dir_grown s s1 ds ds' A" using f by (simp add: free_slot_def)
  then have cnt: "drive_info s1 = drive_info s" by (simp add: dir_grown_def fs_frame_def)
  have new: "\<not> blk_used (cont s1) n \<and> n < blk_count s \<and> \<not> is_bitmap_blk n \<and> n \<noteq> 0" if "n \<in> {b}" for n
    using that b cnt by simp
  have g2: "dir_grown s s2 ds ds' (A \<union> {b})"
    by (rule dir_grown_step(1)[OF g bitmap_fs_frame[OF fr]]) (use c u new in auto)
  have same: "cont s2 n = cont s1 n" if "n \<in> set ds'" for n
    by (rule dir_grown_step(2)[OF g bitmap_fs_frame[OF fr] _ _ _ that, of "{b}"]) (use c u new in auto)
  have "dir_lookup (cont s2) cmp ds' = dir_lookup (cont s1) cmp ds'" for cmp
    by (rule dir_lookup_items_cong) (simp add: same)
  moreover have "dir_find (cont s2) cmp ds' = dir_find (cont s1) cmp ds'" for cmp
    by (rule dir_find_items_cong) (simp add: same)
  ultimately show ?thesis
    using f g2 assms(2) same by (simp add: free_slot_def bitmap_frameD[OF fr])
qed

text \<open>The new entry is in place: it is found under its name, all others as before.\<close>

definition entry_added :: "'d fs \<Rightarrow> 'd fs \<Rightarrow> u32 list \<Rightarrow> u32 list \<Rightarrow> dir_item \<Rightarrow> u32 set \<Rightarrow> bool" where
  "entry_added s s' ds ds' it A \<longleftrightarrow> dir_grown s s' ds ds' A \<and>
     (\<forall>cmp. \<not> cmp (it_name it) \<longrightarrow> dir_find (cont s') cmp ds' = dir_find (cont s) cmp ds) \<and>
     (\<forall>cmp. cmp (it_name it) \<longrightarrow> dir_lookup (cont s) cmp ds = None \<longrightarrow>
        dir_find (cont s') cmp ds' = Some it)"

lemma free_slot_fill:
  assumes f: "free_slot s s1 ds ds' d i A" and t: "t \<noteq> TFS_DIR_ITEM_FREE"
    and s2: "s2 = write_buf P d (s1\<lparr>blk_buf := fill_item i t n sz name (blk_buf s1)\<rparr>)"
  shows "ready s2" "fs_frame s1 s2" "loaded_dir_blk s2 = d"
    "entry_added s s2 ds ds' \<lparr>it_blk = n, it_size = sz, it_type = t, it_name = strncpy TFS_NAME_LEN name\<rparr> A"
    "\<And>m. m \<noteq> d \<Longrightarrow> cont s2 m = cont s1 m" "\<And>m. blk_used (cont s2) m \<longleftrightarrow> blk_used (cont s1) m"
proof -
  let ?b = "fill_item i t n sz name (cont s1 d)"
  let ?it = "\<lparr>it_blk = n, it_size = sz, it_type = t, it_name = strncpy TFS_NAME_LEN name\<rparr>"
  have g: "dir_grown s s1 ds ds' A" and d: "d \<in> set ds'" and i: "i < TFS_DIR_BLK_ITEMS"
    and r: "ready s1" and buf: "blk_buf s1 = cont s1 d" and fr: "item_type (cont s1 d) i = TFS_DIR_ITEM_FREE"
    using f by (auto simp: free_slot_def)
  have ok: "dir_ok s1 ds'" using g by (simp add: dir_grown_def)
  note dd = dir_okD[OF ok d]
  have c2: "cont s2 = (cont s1)(d := ?b)" using r dd i by (simp add: s2 buf)
  show "ready s2" "fs_frame s1 s2" using r dd i by (simp_all add: s2 buf)
  show "loaded_dir_blk s2 = d" using f by (simp add: s2 free_slot_def)
  show "\<And>m. m \<noteq> d \<Longrightarrow> cont s2 m = cont s1 m" by (simp add: c2)
  show u2: "blk_used (cont s2) m \<longleftrightarrow> blk_used (cont s1) m" for m
    using dd(2) is_bitmap_get[of m] by (auto simp: c2 blk_used_def)
  have ok2: "dir_ok s2 ds'"
    by (rule dir_ok_cong[OF ok \<open>fs_frame s1 s2\<close>]) (use i u2 in \<open>simp_all add: c2\<close>)
  have g2: "dir_grown s s2 ds ds' A"
    using g d ok2 u2 fs_frame_trans[OF _ \<open>fs_frame s1 s2\<close>] by (auto simp: dir_grown_def c2)
  have it: "get_item (cont s2 d) i = ?it" using i by (simp add: c2)
  have oth: "get_item (cont s2 e) j = get_item (cont s1 e) j"
    if "e \<in> set ds'" "j < TFS_DIR_BLK_ITEMS" "(e, j) \<noteq> (d, i)" for e j
    using that i by (auto simp: c2)
  have ty: "it_type ?it \<noteq> TFS_DIR_ITEM_FREE" using t by simp
  note fl = dir_find_filled[where C = "cont s1" and C' = "cont s2", OF d i fr it ty oth]
  have lk: "dir_lookup (cont s1) cmp ds' = dir_lookup (cont s) cmp ds"
    and fd: "dir_find (cont s1) cmp ds' = dir_find (cont s) cmp ds" for cmp
    using f by (auto simp: free_slot_def)
  show "entry_added s s2 ds ds' ?it A"
    unfolding entry_added_def using g2 fl(1,3) lk fd by simp
qed

lemma entry_added_step:
  assumes e: "entry_added s s1 ds ds' it A" and "fs_frame s1 s2"
    and "\<And>n. \<not> is_bitmap_blk n \<Longrightarrow> n \<notin> A \<union> B \<Longrightarrow> cont s2 n = cont s1 n"
    and "\<And>n. blk_used (cont s2) n \<longleftrightarrow> blk_used (cont s1) n \<or> n \<in> B"
    and "\<And>n. n \<in> B \<Longrightarrow> \<not> blk_used (cont s1) n \<and> n < blk_count s \<and> \<not> is_bitmap_blk n \<and> n \<noteq> 0"
  shows "entry_added s s2 ds ds' it (A \<union> B)"
proof -
  have g: "dir_grown s s1 ds ds' A" using e by (simp add: entry_added_def)
  have same: "cont s2 n = cont s1 n" if "n \<in> set ds'" for n
    by (rule dir_grown_step(2)[OF g assms(2-5) that])
  have "dir_find (cont s2) cmp ds' = dir_find (cont s1) cmp ds'" for cmp
    by (rule dir_find_items_cong) (simp add: same)
  with e dir_grown_step(1)[OF g assms(2-5)] show ?thesis by (simp add: entry_added_def)
qed

end

text \<open>A port whose comparison recognises a name after \<open>strncpy\<close> into a directory item.\<close>

locale named_device = block_device P contents dev_ok
  for P :: "'d platform" and contents and dev_ok +
  assumes cmp_self: "pf_filename_cmp P name (strncpy TFS_NAME_LEN name)"

interpretation ln: named_device linux_platform linux_contents linux_ok
  by unfold_locales (simp add: strncmp_filename_cmp_def strncmp_eq_strncpy)

end
