(* ===== verification/Subdirs.thy ===== *)
theory Subdirs
  imports Entries
begin

text \<open>
  What the directory operations of the public interface do on a working drive:
  \<open>tfs_create_dir\<close>, \<open>tfs_change_dir\<close>, \<open>tfs_change_dir_parent\<close> and \<open>tfs_read_dir\<close>, for every
  outcome they can have there.
\<close>

context block_device
begin

section \<open>Entering and leaving a public function\<close>

lemma api_void_mounted:
  "mounted s \<Longrightarrow> body (entered s) = Some s' \<Longrightarrow> api_void P body s = Some (drive_deselect P s')"
  by (simp add: api_void_def mounted_def)

lemma api_call_mounted:
  "mounted s \<Longrightarrow> body (entered s) = Some (r, s') \<Longrightarrow> api_call P r0 body s = Some (r, drive_deselect P s')"
  by (simp add: api_call_def mounted_def)

lemma fs_frame_entered [simp]:
  "fs_frame (entered s) s' = fs_frame s s'"
  by (simp add: fs_frame_def)

lemma dir_ok_entered [simp]:
  "mounted s \<Longrightarrow> dir_ok (entered s) ds = dir_ok s ds" "dir_ok (drive_deselect P s) ds = dir_ok s ds"
  by (simp_all add: dir_ok_def)

lemma dir_grown_entered [simp]:
  "mounted s \<Longrightarrow> dir_grown (entered s) s' ds ds' A = dir_grown s s' ds ds' A"
  "dir_grown s (drive_deselect P s') ds ds' A = dir_grown s s' ds ds' A"
  by (simp_all add: dir_grown_def)

lemma entry_added_entered [simp]:
  "mounted s \<Longrightarrow> entry_added (entered s) s' ds ds' it A = entry_added s s' ds ds' it A"
  "entry_added s (drive_deselect P s') ds ds' it A = entry_added s s' ds ds' it A"
  by (simp_all add: entry_added_def)

lemma dir_grown_refl:
  assumes "dir_ok s ds" and "fs_frame s s'" and "cont s' = cont s"
  shows "dir_grown s s' ds ds {}"
  using dir_ok_cong[OF assms(1,2)] assms dir_okD[OF assms(1)] by (auto simp: dir_grown_def)

section \<open>tfs_create_dir\<close>

lemma create_dir_cases:
  assumes "mounted s" and "dir_ok s ds" and "c_at name 0 \<noteq> 0"
  obtains (exists_already) p s' where "dir_lookup (cont s) (pf_filename_cmp P name) ds = Some p"
      "tfs_create_dir P name s = Some s'" "last_error s' = TFS_ERR_FILE_EXIST"
      "mounted s'" "fs_frame s s'" "cont s' = cont s"
  | (full) ds' s' where "dir_lookup (cont s) (pf_filename_cmp P name) ds = None"
      "tfs_create_dir P name s = Some s'" "last_error s' = TFS_ERR_DISK_FULL"
      "free_set (cont s') (blk_count s') = {}" "mounted s'" "dir_grown s s' ds ds' {}"
      "\<And>cmp. dir_find (cont s') cmp ds' = dir_find (cont s) cmp ds"
  | (ok) ds' b s' where "dir_lookup (cont s) (pf_filename_cmp P name) ds = None"
      "tfs_create_dir P name s = Some s'" "last_error s' = TFS_ERR_OK" "mounted s'" "b \<notin> set ds'"
      "entry_added s s' ds ds' \<lparr>it_blk = b, it_size = 0, it_type = TFS_DIR_ITEM_DIR,
         it_name = strncpy TFS_NAME_LEN name\<rparr> {b}"
      "cont s' b = set_parent (replicate TFS_BLOCKSIZE 0) (current_dir_blk s)"
proof (cases "dir_lookup (cont s) (pf_filename_cmp P name) ds")
  case (Some p)
  note [simp] = assms(1) mounted_select[OF assms(1)]
  have r: "ready (entered s)" and dk: "dir_ok (entered s) ds"
    using assms by (simp_all add: ready_entered)
  show thesis using r dk assms(3)
  proof (cases rule: find_file_cases[where want = True])
    case (found d i s1)
    then have "create_dir_body P name (entered s) = Some (set_error TFS_ERR_FILE_EXIST s1)"
      using dir_lookup_SomeD(3)[OF found(1)] readyD(3)[OF found(3)] by (simp add: create_dir_body_def)
    note e = api_void_mounted[where body = "create_dir_body P name", OF assms(1) this]
    show thesis
      using found Some e mounted_set_error[OF found(3)]
      by (intro exists_already[of p "drive_deselect P (set_error TFS_ERR_FILE_EXIST s1)"])
        (simp_all add: tfs_create_dir_def)
  qed (use Some in simp_all)
next
  case None
  note [simp] = assms(1) mounted_select[OF assms(1)]
  have r: "ready (entered s)" and dk: "dir_ok (entered s) ds"
    and lk: "dir_lookup (cont (entered s)) (pf_filename_cmp P name) ds = None"
    using assms None by (simp_all add: ready_entered)
  show thesis using r dk assms(3) lk
  proof (cases rule: find_free_slot)
    case (full s1)
    then have "create_dir_body P name (entered s) = Some s1" by (simp add: create_dir_body_def)
    note e = api_void_mounted[where body = "create_dir_body P name", OF assms(1) this]
    have "dir_grown s s1 ds ds {}" using full assms(2) by (intro dir_grown_refl) simp_all
    with full e None show thesis
      by (intro that(2)[of "drive_deselect P s1" ds])
        (simp_all add: tfs_create_dir_def mounted_def fs_frameD[OF full(5)])
  next
    case (slot ds' d i s1)
    have s1: "ready s1" "dir_grown s s1 ds ds' {}" "blk_buf s1 = cont s1 d" "loaded_dir_blk s1 = d"
        "d \<in> set ds'" "i < TFS_DIR_BLK_ITEMS" "item_type (cont s1 d) i = TFS_DIR_ITEM_FREE"
      using slot(2) by (simp_all add: free_slot_def)
    have fd: "dir_find (cont s1) cmp ds' = dir_find (cont s) cmp ds" for cmp
      using slot(2) by (simp add: free_slot_def)
    have fr1: "fs_frame s s1" using s1(2) by (simp add: dir_grown_def)
    show thesis using s1(1)
    proof (cases rule: alloc_ready)
      case (full s2)
      then have "create_dir_body P name (entered s) = Some s2"
        using slot(1) s1 readyD(3)[OF s1(1)] by (simp add: create_dir_body_def)
      note e = api_void_mounted[where body = "create_dir_body P name", OF assms(1) this]
      have g2: "dir_grown s s2 ds ds' ({} \<union> {})"
        by (rule dir_grown_step(1)[OF s1(2) bitmap_fs_frame[OF full(5)]]) (use full in simp_all)
      show thesis using full e None g2 fd
        by (intro that(2)[of "drive_deselect P s2" ds'])
          (simp_all add: tfs_create_dir_def mounted_def bitmap_frameD[OF full(5)])
    next
      case (ok b s2)
      have f2: "free_slot (entered s) s2 ds ds' d i (insert b {})"
        by (rule free_slot_alloc[OF slot(2) ok(2,3,4,5,6,7)]) (use ok in simp_all)
      define s3 where "s3 = write_buf P d (s2\<lparr>blk_buf := fill_item i TFS_DIR_ITEM_DIR b 0 name (blk_buf s2)\<rparr>)"
      have t: "TFS_DIR_ITEM_DIR \<noteq> TFS_DIR_ITEM_FREE" by simp
      note f3 = free_slot_fill[OF f2 t s3_def]
      define s4 where "s4 = write_buf P b (s3\<lparr>blk_buf := set_parent (replicate TFS_BLOCKSIZE 0) (current_dir_blk s3)\<rparr>)"
      have fr2: "fs_frame s1 s2" by (rule bitmap_fs_frame[OF ok(3)])
      have fr3: "fs_frame s s3" using fs_frame_trans[OF fs_frame_trans[OF fr1 fr2] f3(2)] .
      have cnt: "blk_count s3 = blk_count s1" using fs_frameD(1)[OF fr1] fs_frameD(1)[OF fr3] by simp
      have nb: "\<not> is_bitmap_blk b" "b < blk_count s3" using ok cnt by simp_all
      have s4: "ready s4" "cont s4 = (cont s3)(b := set_parent (replicate TFS_BLOCKSIZE 0) (current_dir_blk s))"
          "fs_frame s3 s4"
        using f3(1) nb fs_frameD[OF fr3] by (simp_all add: s4_def)
      have body: "create_dir_body P name (entered s) = Some s4"
        using slot(1) s1 ok readyD(3) f3(1) bitmap_frameD[OF ok(3)]
        by (simp add: create_dir_body_def Let_def) (simp add: s3_def s4_def)
      have u4: "blk_used (cont s4) n = blk_used (cont s3) n" for n
        using nb(1) is_bitmap_get[of n] by (auto simp: s4(2) blk_used_def)
      have e4: "entry_added (entered s) s4 ds ds' \<lparr>it_blk = b, it_size = 0, it_type = TFS_DIR_ITEM_DIR,
          it_name = strncpy TFS_NAME_LEN name\<rparr> ({b} \<union> {})"
        by (rule entry_added_step[OF f3(4) s4(3)]) (simp_all add: s4(2) u4[unfolded s4(2)])
      have nd: "b \<notin> set ds'" using e4 by (auto simp: entry_added_def dir_grown_def)
      note e = api_void_mounted[where body = "create_dir_body P name", OF assms(1) body]
      show thesis
        using e4 s4 e None nd mounted_ready[OF s4(1)] readyD(3)[OF s4(1)]
        by (intro that(3)[of "drive_deselect P s4" b ds']) (simp_all add: tfs_create_dir_def)
    qed
  qed
qed

section \<open>tfs_change_dir and tfs_change_dir_parent\<close>

lemma change_dir_cases:
  assumes "mounted s" and "dir_ok s ds" and "c_at name 0 \<noteq> 0"
  obtains (found) it s' where "dir_find (cont s) (pf_filename_cmp P name) ds = Some it"
      "it_type it = TFS_DIR_ITEM_DIR" "tfs_change_dir P name s = Some s'" "last_error s' = TFS_ERR_OK"
      "mounted s'" "cont s' = cont s" "current_dir_blk s' = it_blk it" "blk_count s' = blk_count s" "handles s' = handles s"
  | (none) s' where "\<forall>it. dir_find (cont s) (pf_filename_cmp P name) ds = Some it \<longrightarrow> it_type it \<noteq> TFS_DIR_ITEM_DIR"
      "tfs_change_dir P name s = Some s'" "last_error s' = TFS_ERR_NOT_EXIST"
      "mounted s'" "cont s' = cont s" "fs_frame s s'"
proof -
  note [simp] = assms(1) mounted_select[OF assms(1)]
  have r: "ready (entered s)" and dk: "dir_ok (entered s) ds"
    using assms by (simp_all add: ready_entered)
  show thesis using r dk assms(3)
  proof (cases rule: find_file_cases[where want = False])
    case (found d i s1)
    have df: "dir_find (cont s) (pf_filename_cmp P name) ds = Some (get_item (cont s d) i)"
      using found(1) by (simp add: dir_find_def slot_item_def)
    show thesis
    proof (cases "item_type (cont s d) i = TFS_DIR_ITEM_DIR")
      case True
      let ?s2 = "s1\<lparr>current_dir_blk := item_blk (cont s d) i\<rparr>"
      have m2: "mounted ?s2" using mounted_ready[OF found(3)] by simp
      have "change_dir_body P name (entered s) = Some ?s2"
        using found True readyD(3)[OF found(3)] by (simp add: change_dir_body_def)
      note e = api_void_mounted[where body = "change_dir_body P name", OF assms(1) this]
      show thesis
        using df True e m2 found readyD(3)[OF found(3)] fs_frameD[OF found(4)]
        by (intro that(1)[of "get_item (cont s d) i" "drive_deselect P ?s2"]) (simp_all add: tfs_change_dir_def)
    next
      case False
      then have "change_dir_body P name (entered s) = Some (set_error TFS_ERR_NOT_EXIST s1)"
        using found readyD(3)[OF found(3)] by (simp add: change_dir_body_def)
      note e = api_void_mounted[where body = "change_dir_body P name", OF assms(1) this]
      show thesis using df False e found mounted_set_error[OF found(3)]
        by (intro that(2)[of "drive_deselect P (set_error TFS_ERR_NOT_EXIST s1)"]) (simp_all add: tfs_change_dir_def)
    qed
  next
    case (absent s1)
    then have "change_dir_body P name (entered s) = Some (set_error TFS_ERR_NOT_EXIST s1)"
      using readyD(3)[OF absent(4)] by (simp add: change_dir_body_def)
    note e = api_void_mounted[where body = "change_dir_body P name", OF assms(1) this]
    show thesis using e absent mounted_set_error[OF absent(4)]
      by (intro that(2)[of "drive_deselect P (set_error TFS_ERR_NOT_EXIST s1)"])
        (simp_all add: tfs_change_dir_def dir_find_def)
  qed simp_all
qed

lemma change_dir_parent_spec:
  assumes "mounted s" and "current_dir_blk s < blk_count s"
  defines "par \<equiv> dir_parent (cont s (current_dir_blk s))"
  obtains s' where "tfs_change_dir_parent P s = Some s'" "mounted s'" "cont s' = cont s"
    "blk_count s' = blk_count s"
    "last_error s' = (if par = 0 then TFS_ERR_NOT_EXIST else TFS_ERR_OK)"
    "current_dir_blk s' = (if par = 0 then current_dir_blk s else par)"
proof -
  note [simp] = assms(1) mounted_select[OF assms(1)]
  let ?s1 = "read_buf P (current_dir_blk s) (entered s)"
  have s1: "ready ?s1" "cont ?s1 = cont s" "blk_buf ?s1 = cont s (current_dir_blk s)" "last_error ?s1 = TFS_ERR_OK"
    using ready_entered[OF assms(1)] assms(2) by simp_all
  show thesis
  proof (cases "par = 0")
    case True
    then have "change_dir_parent_body P (entered s) = Some (set_error TFS_ERR_NOT_EXIST ?s1)"
      using s1 by (simp add: change_dir_parent_body_def par_def)
    note e = api_void_mounted[where body = "change_dir_parent_body P", OF assms(1) this]
    show thesis using e True s1 mounted_set_error[OF s1(1)]
      by (intro that[of "drive_deselect P (set_error TFS_ERR_NOT_EXIST ?s1)"]) (simp_all add: tfs_change_dir_parent_def)
  next
    case False
    let ?s2 = "?s1\<lparr>current_dir_blk := par\<rparr>"
    have m2: "mounted ?s2" using mounted_ready[OF s1(1)] by simp
    from False have "change_dir_parent_body P (entered s) = Some ?s2"
      using s1 by (simp add: change_dir_parent_body_def par_def)
    note e = api_void_mounted[where body = "change_dir_parent_body P", OF assms(1) this]
    show thesis using e False s1 m2
      by (intro that[of "drive_deselect P ?s2"]) (simp_all add: tfs_change_dir_parent_def)
  qed
qed

end

end
