(* ===== verification/Format.thy ===== *)
theory Format
  imports Subdirs
begin

text \<open>
  Mounting and formatting: \<open>tfs_init\<close>, \<open>tfs_format\<close> and \<open>tfs_get_used\<close>.  The calls of the user's
  format callbacks are recorded in \<open>callbacks\<close>.
\<close>

section \<open>Operations\<close>

text \<open>What \<open>memset\<close> leaves in a handle.\<close>

definition zero_handle :: filehandle where
  "zero_handle = \<lparr>usage_count = 0, dir_blk = 0, dir_item = None, fh_size = 0, first_blk = 0,
     curr_blk = 0, curr_pos = 0\<rparr>"

definition tfs_init :: "'d platform \<Rightarrow> 'd fs \<Rightarrow> 'd fs" where
  "tfs_init P s =
     (let s = (if pf_extended_api P then s\<lparr>handles := replicate TFS_MAX_FDS zero_handle\<rparr> else s);
          s = set_error TFS_ERR_OK s;
          r = pf_init P (drive_info s) (dev s);
          s = set_error (snd (snd r)) (s\<lparr>dev := fst r, drive_info := fst (snd r)\<rparr>)
      in if last_error s \<noteq> TFS_ERR_OK then s
         else let s = drive_select P s;
                  s = s\<lparr>last_bitmap_blk := blk_count s - 1\<rparr>;
                  s = s\<lparr>last_bitmap_len := ucast (last_bitmap_blk s AND TFS_BITMAP_BLK_MASK) + 1\<rparr>;
                  s = s\<lparr>last_bitmap_blk := GET_BITMAP_BLK (last_bitmap_blk s)\<rparr>;
                  s = load_bitmap P TFS_FIRST_BITMAP_BLK s
              in if last_error s \<noteq> TFS_ERR_OK then drive_deselect P s
                 else drive_deselect P (s\<lparr>current_dir_blk := TFS_ROOT_DIR_BLK, loaded_dir_blk := 0\<rparr>))"

abbreviation TFS_FORMAT_STATE_START :: byte where "TFS_FORMAT_STATE_START \<equiv> 0"
abbreviation TFS_FORMAT_STATE_BITMAP_START :: byte where "TFS_FORMAT_STATE_BITMAP_START \<equiv> 1"
abbreviation TFS_FORMAT_STATE_BITMAP_DONE :: byte where "TFS_FORMAT_STATE_BITMAP_DONE \<equiv> 2"
abbreviation TFS_FORMAT_STATE_ROOTDIR :: byte where "TFS_FORMAT_STATE_ROOTDIR \<equiv> 3"
abbreviation TFS_FORMAT_STATE_DONE :: byte where "TFS_FORMAT_STATE_DONE \<equiv> 4"

definition call_back :: "format_event \<Rightarrow> 'd fs \<Rightarrow> 'd fs" where
  "call_back e s = s\<lparr>callbacks := callbacks s @ [e]\<rparr>"

text \<open>
  \<open>mark all blocks after end of disk as used\<close>.  When the last bitmap block is full,
  \<open>last_bitmap_len\<close> is 4096, \<open>offset\<close> is 512, and the byte that the code changes is the one behind
  \<open>bitmap_blk\<close>.
\<close>

definition mark_end :: "'d fs \<Rightarrow> 'd fs" where
  "mark_end s =
     (let m = push_bit (unat (last_bitmap_len s AND 7)) 0xff;
          offset = unat (drop_bit 3 (last_bitmap_len s));
          s = (if offset < TFS_BLOCKSIZE
               then s\<lparr>bitmap_blk := (bitmap_blk s)[offset := bitmap_blk s ! offset OR m]\<rparr>
               else s\<lparr>after_bitmap := after_bitmap s OR m\<rparr>)
      in s\<lparr>bitmap_blk := mem_set (bitmap_blk s) (offset + 1) 0xff (TFS_BLOCKSIZE - (offset + 1))\<rparr>)"

partial_function (option) format_loop :: "'d platform \<Rightarrow> u32 \<Rightarrow> u32 \<Rightarrow> 'd fs \<Rightarrow> 'd fs option" where
  "format_loop P prog_max pos s =
     (let s = call_back (FormatProgress (drop_bit TFS_BITMAP_BLK_SHIFT pos) prog_max) s;
          final = (pos = last_bitmap_blk s);
          s = (if final then mark_end s else s);
          s = write_bitmap P pos s
      in if last_error s \<noteq> TFS_ERR_OK then Some s
         else if final then Some (call_back (FormatState TFS_FORMAT_STATE_BITMAP_DONE) s)
         else format_loop P prog_max (pos + TFS_BITMAP_BLK_COUNT) s)"

text \<open>From the first bitmap block being read back to the last callback.\<close>

definition format_root :: "'d platform \<Rightarrow> 'd fs \<Rightarrow> 'd fs option" where
  "format_root P s =
     (let s = load_bitmap P TFS_FIRST_BITMAP_BLK s
      in if last_error s \<noteq> TFS_ERR_OK then Some s
         else do {
           (pos, s) \<leftarrow> alloc_block P (call_back (FormatState TFS_FORMAT_STATE_ROOTDIR) s);
           if last_error s \<noteq> TFS_ERR_OK then Some s
           else let s = write_buf P pos (s\<lparr>blk_buf := replicate TFS_BLOCKSIZE 0\<rparr>)
                in if last_error s \<noteq> TFS_ERR_OK then Some s
                   else Some (call_back (FormatState TFS_FORMAT_STATE_DONE)
                     (s\<lparr>current_dir_blk := TFS_ROOT_DIR_BLK, loaded_dir_blk := 0\<rparr>))
         })"

definition tfs_format :: "'d platform \<Rightarrow> 'd fs \<Rightarrow> 'd fs option" where
  "tfs_format P s =
     (let prog_max = drop_bit TFS_BITMAP_BLK_SHIFT (last_bitmap_blk s)
      in if last_error s = TFS_ERR_NO_DEV then Some s
         else let s = call_back (FormatState TFS_FORMAT_STATE_START) (set_error TFS_ERR_OK s);
                  s = (drive_select P s)\<lparr>bitmap_blk := (replicate TFS_BLOCKSIZE 0)[0 := 1]\<rparr>;
                  s = call_back (FormatState TFS_FORMAT_STATE_BITMAP_START) s
              in do {
                s \<leftarrow> format_loop P prog_max TFS_FIRST_BITMAP_BLK s;
                s \<leftarrow> (if last_error s \<noteq> TFS_ERR_OK then Some s else format_root P s);
                Some (drive_deselect P s)
              })"

fun count_masks :: "byte list \<Rightarrow> byte \<Rightarrow> u32 \<Rightarrow> u32" where
  "count_masks [] p used = used"
| "count_masks (m # ms) p used = count_masks ms p (if p AND m \<noteq> 0 then used + 1 else used)"

fun count_used :: "byte list \<Rightarrow> u32 \<Rightarrow> u32" where
  "count_used [] used = used"
| "count_used (p # ps) used = count_used ps (if p > 0 then count_masks masks p used else used)"

partial_function (option) used_loop :: "'d platform \<Rightarrow> u32 \<Rightarrow> u32 \<Rightarrow> 'd fs \<Rightarrow> (u32 \<times> 'd fs) option" where
  "used_loop P pos used s =
     (let s = load_bitmap P pos s
      in if last_error s \<noteq> TFS_ERR_OK then Some (0, drive_deselect P s)
         else let used = count_used (bitmap_blk s) used
              in if pos = last_bitmap_blk s
                 then Some (used - (TFS_BITMAP_BLK_COUNT - ucast (last_bitmap_len s)),
                            drive_deselect P (load_bitmap P TFS_FIRST_BITMAP_BLK s))
                 else used_loop P (pos + TFS_BITMAP_BLK_COUNT) used s)"

definition tfs_get_used :: "'d platform \<Rightarrow> 'd fs \<Rightarrow> (u32 \<times> 'd fs) option" where
  "tfs_get_used P s =
     (if last_error s = TFS_ERR_NO_DEV then Some (0, s)
      else used_loop P TFS_FIRST_BITMAP_BLK 0 (drive_select P (set_error TFS_ERR_OK s)))"

section \<open>Formatting\<close>

lemma call_back_simps [simp]:
  "last_error (call_back e s) = last_error s" "dev (call_back e s) = dev s"
  "drive_info (call_back e s) = drive_info s" "last_bitmap_blk (call_back e s) = last_bitmap_blk s"
  "last_bitmap_len (call_back e s) = last_bitmap_len s" "loaded_bitmap_blk (call_back e s) = loaded_bitmap_blk s"
  "bitmap_blk (call_back e s) = bitmap_blk s" "current_dir_blk (call_back e s) = current_dir_blk s"
  "loaded_dir_blk (call_back e s) = loaded_dir_blk s" "blk_buf (call_back e s) = blk_buf s"
  "handles (call_back e s) = handles s" "after_bitmap (call_back e s) = after_bitmap s"
  "after_handles (call_back e s) = after_handles s" "callbacks (call_back e s) = callbacks s @ [e]"
  by (simp_all add: call_back_def)

lemma mark_end_simps [simp]:
  "last_error (mark_end s) = last_error s" "dev (mark_end s) = dev s"
  "drive_info (mark_end s) = drive_info s" "last_bitmap_blk (mark_end s) = last_bitmap_blk s"
  "last_bitmap_len (mark_end s) = last_bitmap_len s" "loaded_bitmap_blk (mark_end s) = loaded_bitmap_blk s"
  "current_dir_blk (mark_end s) = current_dir_blk s"
  "loaded_dir_blk (mark_end s) = loaded_dir_blk s" "blk_buf (mark_end s) = blk_buf s"
  "handles (mark_end s) = handles s" "after_handles (mark_end s) = after_handles s"
  "callbacks (mark_end s) = callbacks s"
  by (simp_all add: mark_end_def Let_def)

lemma bit_push_ff: "bit (push_bit k (0xff :: byte)) n \<longleftrightarrow> k \<le> n \<and> n < 8"
proof (cases "k \<le> n \<and> n < 8")
  case True
  then have "bit (0xff :: byte) (n - k)" by (intro bit_ff) linarith
  with True show ?thesis by (simp add: bit_push_bit_iff)
next
  case False
  then show ?thesis by (auto simp: bit_push_bit_iff)
qed

lemma unat_shift3: "unat (drop_bit 3 (w :: u16)) = unat w div 8" "unat (w AND 7) = unat w mod 8"
proof -
  show "unat (drop_bit 3 w) = unat w div 8" by (subst unat_drop_bit_eq) (simp add: drop_bit_eq_div)
  have m: "(7 :: u16) = mask 3" by (simp add: mask_eq_exp_minus_1)
  show "unat (w AND 7) = unat w mod 8"
    by (simp add: m unsigned_take_bit_eq flip: take_bit_eq_mask) (simp add: take_bit_eq_mod)
qed

text \<open>Exactly the blocks behind the end of the disk are added to the bitmap, and the byte behind
  \<open>bitmap_blk\<close> changes only when the last bitmap block is full.\<close>

lemma mark_end_spec:
  assumes "length (bitmap_blk s) = TFS_BLOCKSIZE" and "unat (last_bitmap_len s) \<le> 4096"
  shows "length (bitmap_blk (mark_end s)) = TFS_BLOCKSIZE"
    "j < 4096 \<Longrightarrow> bit_at (bitmap_blk (mark_end s)) j \<longleftrightarrow> bit_at (bitmap_blk s) j \<or> unat (last_bitmap_len s) \<le> j"
    "after_bitmap (mark_end s) = (if unat (last_bitmap_len s) = 4096 then 0xff else after_bitmap s)"
proof -
  let ?l = "unat (last_bitmap_len s)" and ?b = "bitmap_blk s"
  let ?o = "?l div 8" and ?m = "push_bit (?l mod 8) (0xff :: byte)"
  have e: "mark_end s = (if ?o < 512
      then s\<lparr>bitmap_blk := mem_set (?b[?o := ?b ! ?o OR ?m]) (?o + 1) 0xff (512 - (?o + 1))\<rparr>
      else s\<lparr>after_bitmap := after_bitmap s OR ?m, bitmap_blk := mem_set ?b (?o + 1) 0xff (512 - (?o + 1))\<rparr>)"
    by (simp add: mark_end_def Let_def unat_shift3)
  show "length (bitmap_blk (mark_end s)) = TFS_BLOCKSIZE"
    using assms by (auto simp: e mem_set_def put_bytes_def)
  show "after_bitmap (mark_end s) = (if ?l = 4096 then 0xff else after_bitmap s)"
  proof (cases "?o < 512")
    case False
    then have "?l = 4096" using assms(2) by linarith
    moreover have "after_bitmap s OR (0xff :: byte) = 0xff"
    proof -
      have "after_bitmap s OR (- 1 :: byte) = - 1" by simp
      moreover have "(- 1 :: byte) = 0xff" by simp
      ultimately show ?thesis by metis
    qed
    ultimately show ?thesis by (simp add: e)
  qed (auto simp: e)
  assume j: "j < 4096"
  show "bit_at (bitmap_blk (mark_end s)) j \<longleftrightarrow> bit_at ?b j \<or> ?l \<le> j"
  proof (cases "?o < 512")
    case False
    then have "?l = 4096" using assms(2) by linarith
    with j show ?thesis by (simp add: e mem_set_def put_bytes_def)
  next
    case True
    let ?b1 = "mem_set (?b[?o := ?b ! ?o OR ?m]) (?o + 1) 0xff (512 - (?o + 1))"
    have jd: "j div 8 < 512" "j mod 8 < 8" using j by auto
    have nth: "?b1 ! (j div 8) = (if ?o < j div 8 then 0xff else if j div 8 = ?o then ?b ! ?o OR ?m else ?b ! (j div 8))"
      using jd True assms(1) by (auto simp: nth_mem_set)
    have le: "?l \<le> j \<longleftrightarrow> ?o < j div 8 \<or> j div 8 = ?o \<and> ?l mod 8 \<le> j mod 8"
      using div_mult_mod_eq[of ?l 8] div_mult_mod_eq[of j 8] mod_less_divisor[of 8 ?l] jd(2) by linarith
    have f: "bitmap_blk (mark_end s) = ?b1" using True by (simp add: e)
    show ?thesis
      unfolding f bit_at_def nth le using jd(2) bit_ff[OF jd(2)]
      by (auto simp: bit_or_iff bit_push_ff)
  qed
qed


abbreviation fresh_bitmap :: block where
  "fresh_bitmap \<equiv> (replicate TFS_BLOCKSIZE 0)[0 := 1]"

lemma bit_at_fresh: "j < 4096 \<Longrightarrow> bit_at fresh_bitmap j \<longleftrightarrow> j = 0"
proof -
  assume j: "j < 4096"
  show "bit_at fresh_bitmap j \<longleftrightarrow> j = 0"
  proof (cases "j div 8 = 0")
    case True
    then have "j mod 8 = j" by simp
    with True show ?thesis by (simp add: bit_at_def bit_1_iff)
  next
    case False
    moreover have "j div 8 < 512" using j by auto
    ultimately show ?thesis by (simp add: bit_at_def nth_list_update)
  qed
qed

lemma progress_index: "drop_bit TFS_BITMAP_BLK_SHIFT pos = of_nat (bm_idx pos)"
proof -
  have "bm_idx pos \<le> unat pos" by (simp add: bm_idx_def)
  moreover have "unat pos < 2 ^ 32" using unsigned_less[of pos] by simp
  ultimately have "bm_idx pos < 2 ^ 32" by simp
  then have "unat (of_nat (bm_idx pos) :: u32) = bm_idx pos" by (simp add: unat_of_nat take_bit_eq_mod)
  moreover have "unat (drop_bit TFS_BITMAP_BLK_SHIFT pos) = bm_idx pos"
    unfolding unat_drop_bit_eq by (simp add: drop_bit_eq_div bm_idx_def)
  ultimately show ?thesis by (simp add: word_unat_eq_iff)
qed

text \<open>Formatting touches the buffers, the bitmap cache, the current directory and the callbacks.\<close>

definition format_frame :: "'d fs \<Rightarrow> 'd fs \<Rightarrow> bool" where
  "format_frame s s' \<longleftrightarrow> drive_info s' = drive_info s \<and> last_bitmap_blk s' = last_bitmap_blk s \<and>
     last_bitmap_len s' = last_bitmap_len s \<and> handles s' = handles s \<and> after_handles s' = after_handles s"

lemma format_frame_trans: "format_frame s t \<Longrightarrow> format_frame t u \<Longrightarrow> format_frame s u"
  by (simp add: format_frame_def)

context block_device
begin

lemma io_ok_call_back [simp]: "io_ok (call_back e s) = io_ok s"
  by (simp add: io_ok_def del: io_ok_lengths)

lemma bitmap_ok_call_back [simp]:
  "bitmap_ok C (call_back e s) = bitmap_ok C s" "bitmap_ok C (s\<lparr>current_dir_blk := n\<rparr>) = bitmap_ok C s"
  "bitmap_ok C (s\<lparr>loaded_dir_blk := n\<rparr>) = bitmap_ok C s"
  by (simp_all add: bitmap_ok_def)

lemma format_loop_spec:
  assumes "io_ok s" and "last_error s = TFS_ERR_OK" and "is_bitmap_blk pos" and "pos \<le> last_bitmap_blk s"
    and lb: "is_bitmap_blk (last_bitmap_blk s)" "last_bitmap_blk s < blk_count s"
    and "bitmap_blk s = fresh_bitmap" and "unat (last_bitmap_len s) \<le> 4096"
  shows "\<exists>s'. format_loop P pm pos s = Some s' \<and> io_ok s' \<and> last_error s' = TFS_ERR_OK \<and> format_frame s s' \<and>
    (\<forall>n. pos \<le> GET_BITMAP_BLK n \<longrightarrow> GET_BITMAP_BLK n \<le> last_bitmap_blk s \<longrightarrow>
       (blk_used (cont s') n \<longleftrightarrow> is_bitmap_blk n \<or> GET_BITMAP_BLK n = last_bitmap_blk s \<and>
          unat (last_bitmap_len s) \<le> unat (n AND TFS_BITMAP_BLK_MASK))) \<and>
    (\<forall>n. \<not> (is_bitmap_blk n \<and> pos \<le> n \<and> n \<le> last_bitmap_blk s) \<longrightarrow> cont s' n = cont s n) \<and>
    after_bitmap s' = (if unat (last_bitmap_len s) = 4096 then 0xff else after_bitmap s) \<and>
    callbacks s' = callbacks s @ map (\<lambda>k. FormatProgress (of_nat k) pm) [bm_idx pos..<bm_num (last_bitmap_blk s)]
      @ [FormatState TFS_FORMAT_STATE_BITMAP_DONE]"
  using assms
proof (induction "bm_num (last_bitmap_blk s) - bm_idx pos" arbitrary: s pos)
  case 0
  then show ?case using bm_idx_less[of pos "last_bitmap_blk s"] by simp
next
  case (Suc k)
  let ?l = "last_bitmap_blk s" and ?len = "unat (last_bitmap_len s)"
  let ?prog = "FormatProgress (of_nat (bm_idx pos)) pm"
  have pos: "pos < blk_count s" using Suc.prems(4,6) by simp
  have posn: "unat (n AND TFS_BITMAP_BLK_MASK) = 0 \<longleftrightarrow> is_bitmap_blk n" for n
    by (simp add: unat_and_mask is_bitmap_iff)
  have pl: "bm_idx pos < bm_num ?l" by (rule bm_idx_less[OF Suc.prems(4)])
  show ?case
  proof (cases "pos = ?l")
    case True
    let ?s1 = "mark_end (call_back ?prog s)"
    let ?s2 = "write_bitmap P pos ?s1"
    have len1: "length (bitmap_blk (call_back ?prog s)) = TFS_BLOCKSIZE" using Suc.prems(7) by simp
    have l8: "unat (last_bitmap_len (call_back ?prog s)) \<le> 4096" using Suc.prems(8) by simp
    note me = mark_end_spec[OF len1 l8]
    have io1: "io_ok ?s1" using Suc.prems(1) me(1) by (simp add: io_ok_def del: io_ok_lengths)
    have s2: "io_ok ?s2" "last_error ?s2 = TFS_ERR_OK" "cont ?s2 = (cont s)(pos := bitmap_blk ?s1)"
      using io1 pos me(1) Suc.prems(2) by (simp_all add: write_bitmap_def)
    have u: "blk_used (cont ?s2) n \<longleftrightarrow> is_bitmap_blk n \<or> ?len \<le> unat (n AND TFS_BITMAP_BLK_MASK)"
      if "GET_BITMAP_BLK n = pos" for n
    proof -
      have "bit_at (bitmap_blk s) (unat (n AND TFS_BITMAP_BLK_MASK)) \<longleftrightarrow> is_bitmap_blk n"
        unfolding Suc.prems(7) bit_at_fresh[OF bit_index_less] posn ..
      moreover have "blk_used (cont ?s2) n = bit_at (bitmap_blk ?s1) (unat (n AND TFS_BITMAP_BLK_MASK))"
        unfolding blk_used_def s2(3) that fun_upd_same ..
      ultimately show ?thesis unfolding me(2)[OF bit_index_less[of n]] call_back_simps by blast
    qed
    have "format_loop P pm pos s = Some (call_back (FormatState TFS_FORMAT_STATE_BITMAP_DONE) ?s2)"
      using True s2(2) by (subst format_loop.simps) (simp add: Let_def progress_index)
    moreover have "GET_BITMAP_BLK n = pos" if "pos \<le> GET_BITMAP_BLK n" "GET_BITMAP_BLK n \<le> ?l" for n
      using that True by simp
    moreover have "[bm_idx pos..<bm_num ?l] = [bm_idx pos]" using True by (simp add: bm_num_def)
    moreover have "format_frame s (call_back (FormatState TFS_FORMAT_STATE_BITMAP_DONE) ?s2)"
      by (simp add: format_frame_def write_bitmap_def)
    moreover have "after_bitmap ?s2 = (if ?len = 4096 then 0xff else after_bitmap s)" "callbacks ?s2 = callbacks s @ [?prog]"
      using me(3) by (simp_all add: write_bitmap_def)
    moreover have "cont ?s2 n = cont s n" if "\<not> (is_bitmap_blk n \<and> pos \<le> n \<and> n \<le> ?l)" for n
      using that s2(3) True Suc.prems(3) by auto
    moreover have "io_ok (call_back (FormatState TFS_FORMAT_STATE_BITMAP_DONE) ?s2)" using s2(1) by (simp add: io_ok_def del: io_ok_lengths)
    ultimately show ?thesis
      using s2(2) u True
      by (intro exI[of _ "call_back (FormatState TFS_FORMAT_STATE_BITMAP_DONE) ?s2"]) simp
  next
    case False
    let ?s1 = "call_back ?prog s"
    let ?s2 = "write_bitmap P pos ?s1" and ?p = "pos + TFS_BITMAP_BLK_COUNT"
    have io1: "io_ok ?s1" using Suc.prems(1) by (simp add: io_ok_def del: io_ok_lengths)
    have s2: "io_ok ?s2" "last_error ?s2 = TFS_ERR_OK" "cont ?s2 = (cont s)(pos := fresh_bitmap)"
      using io1 pos Suc.prems(2,7) by (simp_all add: write_bitmap_def)
    have fr: "format_frame s ?s2" "last_bitmap_blk ?s2 = ?l" "last_bitmap_len ?s2 = last_bitmap_len s"
      "blk_count ?s2 = blk_count s" "bitmap_blk ?s2 = fresh_bitmap" "after_bitmap ?s2 = after_bitmap s"
      "callbacks ?s2 = callbacks s @ [?prog]"
      using Suc.prems(7) by (simp_all add: format_frame_def write_bitmap_def)
    have step: "format_loop P pm pos s = format_loop P pm ?p ?s2"
      using False s2(2) by (subst format_loop.simps) (simp add: Let_def progress_index)
    have nb: "next_bitmap s pos = ?p" using False by (simp add: next_bitmap_def)
    note nx = next_bitmap_props[OF Suc.prems(5,3,4), unfolded nb]
    have "bm_idx pos \<noteq> bm_idx ?l" using False bm_idx_inject[OF Suc.prems(3,5)] by blast
    then have "Suc (bm_idx pos) < bm_num ?l" using pl by (simp add: bm_num_def)
    then have idx: "bm_idx ?p = Suc (bm_idx pos)" using nx(3) by simp
    then have k: "k = bm_num (last_bitmap_blk ?s2) - bm_idx ?p" using Suc.hyps(2) fr by simp
    obtain s' where s': "format_loop P pm ?p ?s2 = Some s'" "io_ok s'" "last_error s' = TFS_ERR_OK" "format_frame ?s2 s'"
      "\<forall>n. ?p \<le> GET_BITMAP_BLK n \<longrightarrow> GET_BITMAP_BLK n \<le> ?l \<longrightarrow>
         (blk_used (cont s') n \<longleftrightarrow> is_bitmap_blk n \<or> GET_BITMAP_BLK n = ?l \<and> ?len \<le> unat (n AND TFS_BITMAP_BLK_MASK))"
      "\<forall>n. \<not> (is_bitmap_blk n \<and> ?p \<le> n \<and> n \<le> ?l) \<longrightarrow> cont s' n = cont ?s2 n"
      "after_bitmap s' = (if ?len = 4096 then 0xff else after_bitmap s)"
      "callbacks s' = (callbacks s @ [?prog]) @ map (\<lambda>k. FormatProgress (of_nat k) pm) [bm_idx ?p..<bm_num ?l]
         @ [FormatState TFS_FORMAT_STATE_BITMAP_DONE]"
      using Suc.hyps(1)[OF k s2(1,2) nx(1), unfolded fr(2-7), OF nx(2) Suc.prems(5,6) refl Suc.prems(8)] by blast
    have up: "unat ?p = unat pos + 4096"
      using idx nx(1) Suc.prems(3) unat_get_bitmap[of ?p] unat_get_bitmap[of pos]
      by (simp add: is_bitmap_blk_def bm_idx_def)
    have ge: "?p \<le> m \<longleftrightarrow> pos \<le> m \<and> m \<noteq> pos" if bm: "is_bitmap_blk m" for m
    proof -
      obtain a where "unat m = 4096 * a" using bm by (auto simp: is_bitmap_iff elim!: dvdE)
      moreover obtain b where "unat pos = 4096 * b" using Suc.prems(3) by (auto simp: is_bitmap_iff elim!: dvdE)
      ultimately show ?thesis unfolding word_le_nat_alt word_unat_eq_iff up by auto
    qed
    have pu: "blk_used (cont s') n \<longleftrightarrow> is_bitmap_blk n" if "GET_BITMAP_BLK n = pos" for n
    proof -
      have "\<not> ?p \<le> pos" using ge[OF Suc.prems(3)] by simp
      then have "cont s' pos = fresh_bitmap" using s'(6) s2(3) by simp
      then show ?thesis unfolding blk_used_def that by (simp only: bit_at_fresh[OF bit_index_less] posn)
    qed
    have "blk_used (cont s') n \<longleftrightarrow> is_bitmap_blk n \<or> GET_BITMAP_BLK n = ?l \<and> ?len \<le> unat (n AND TFS_BITMAP_BLK_MASK)"
      if "pos \<le> GET_BITMAP_BLK n" "GET_BITMAP_BLK n \<le> ?l" for n
      using that pu[of n] s'(5) ge[of "GET_BITMAP_BLK n"] False by (cases "GET_BITMAP_BLK n = pos") auto
    moreover have "cont s' n = cont s n" if "\<not> (is_bitmap_blk n \<and> pos \<le> n \<and> n \<le> ?l)" for n
    proof -
      have "\<not> (is_bitmap_blk n \<and> ?p \<le> n \<and> n \<le> ?l)" using that ge[of n] by blast
      then have "cont s' n = cont ?s2 n" using s'(6) by blast
      moreover have "n \<noteq> pos" using that Suc.prems(3,4) by auto
      ultimately show ?thesis using s2(3) by simp
    qed
    moreover have "[bm_idx pos..<bm_num ?l] = bm_idx pos # [bm_idx ?p..<bm_num ?l]"
      using pl idx by (simp add: upt_rec[of "bm_idx pos"])
    ultimately show ?thesis
      using s' step format_frame_trans[OF fr(1) s'(4)] by (intro exI[of _ s']) simp
  qed
qed


text \<open>The size fields that \<open>tfs_init\<close> computes.\<close>

definition geometry :: "'d fs \<Rightarrow> bool" where
  "geometry s \<longleftrightarrow> 0 < blk_count s \<and> last_bitmap_blk s = GET_BITMAP_BLK (blk_count s - 1) \<and>
     last_bitmap_len s = ucast ((blk_count s - 1) AND TFS_BITMAP_BLK_MASK) + 1"

end

lemma bitmap_len: "unat (ucast (n AND TFS_BITMAP_BLK_MASK) + 1 :: u16) = unat n mod 4096 + 1"
proof -
  have "unat (n AND TFS_BITMAP_BLK_MASK) < 4096" by simp
  then have "unat (ucast (n AND TFS_BITMAP_BLK_MASK) :: u16) = unat n mod 4096"
    by (simp add: unat_and_mask unsigned_ucast_eq take_bit_eq_mod)
  then show ?thesis by (simp add: unat_word_ariths)
qed

context block_device
begin

lemma geometry_props:
  assumes "geometry s"
  shows "is_bitmap_blk (last_bitmap_blk s)" "last_bitmap_blk s < blk_count s"
    "unat (last_bitmap_len s) = unat (blk_count s - 1) mod 4096 + 1"
    "unat (blk_count s) = unat (last_bitmap_blk s) + unat (last_bitmap_len s)"
    "n < blk_count s \<Longrightarrow> GET_BITMAP_BLK n \<le> last_bitmap_blk s"
    "GET_BITMAP_BLK n = last_bitmap_blk s \<Longrightarrow> blk_count s \<le> n \<longleftrightarrow> unat (last_bitmap_len s) \<le> unat (n AND TFS_BITMAP_BLK_MASK)"
proof -
  have g: "0 < blk_count s" "last_bitmap_blk s = GET_BITMAP_BLK (blk_count s - 1)"
    "last_bitmap_len s = ucast ((blk_count s - 1) AND TFS_BITMAP_BLK_MASK) + 1"
    using assms by (simp_all add: geometry_def)
  have dec: "unat (blk_count s) = unat (blk_count s - 1) + 1"
    using g(1) by (simp add: unat_sub_if_size word_less_nat_alt)
  show l: "unat (last_bitmap_len s) = unat (blk_count s - 1) mod 4096 + 1"
    unfolding g(3) by (rule bitmap_len)
  show "is_bitmap_blk (last_bitmap_blk s)" by (simp add: g(2))
  have lu: "unat (last_bitmap_blk s) = 4096 * (unat (blk_count s - 1) div 4096)"
    unfolding g(2) by (rule unat_get_bitmap)
  show c: "unat (blk_count s) = unat (last_bitmap_blk s) + unat (last_bitmap_len s)"
    unfolding l lu dec by simp
  show "last_bitmap_blk s < blk_count s" using c l by (simp add: word_less_nat_alt)
  show "GET_BITMAP_BLK n \<le> last_bitmap_blk s" if "n < blk_count s"
  proof -
    have "n \<le> blk_count s - 1" using that dec by (simp add: word_le_nat_alt word_less_nat_alt)
    then show ?thesis by (simp add: g(2) get_bitmap_mono)
  qed
  assume "GET_BITMAP_BLK n = last_bitmap_blk s"
  then have "4096 * (unat n div 4096) = unat (last_bitmap_blk s)" using unat_get_bitmap[of n] by simp
  then have "unat n = unat (last_bitmap_blk s) + unat n mod 4096" using mult_div_mod_eq[of 4096 "unat n"] by simp
  then show "blk_count s \<le> n \<longleftrightarrow> unat (last_bitmap_len s) \<le> unat (n AND TFS_BITMAP_BLK_MASK)"
    unfolding word_le_nat_alt c unat_and_mask by linarith
qed

text \<open>The bits behind the end of the disk, which \<open>tfs_get_used\<close> counts on.\<close>

definition tail_marked :: "'d fs \<Rightarrow> bool" where
  "tail_marked s \<longleftrightarrow> (\<forall>n. blk_count s \<le> n \<longrightarrow> GET_BITMAP_BLK n = last_bitmap_blk s \<longrightarrow> blk_used (cont s) n)"

lemma alloc_block_one:
  assumes "ready s" and "loaded_bitmap_blk s = 0" and "1 < blk_count s" and "\<not> blk_used (cont s) 1"
  obtains s' where "alloc_block P s = Some (1, s')" "ready s'" "bitmap_frame s s'"
    "\<And>n. \<not> is_bitmap_blk n \<Longrightarrow> cont s' n = cont s n" "\<And>n. blk_used (cont s') n \<longleftrightarrow> blk_used (cont s) n \<or> n = 1"
  using assms(1)
proof (cases rule: alloc_ready)
  case full
  with assms(3,4) have "(1 :: u32) \<in> free_set (cont s) (blk_count s)" by (simp add: free_set_def)
  with full show thesis by simp
next
  case (ok b s')
  have ld: "bitmap_blk s = cont s 0"
    using readyD(2)[OF assms(1)] assms(2) by (simp add: bitmap_ok_def)
  have used: "blk_used (cont s) 0" using readyD(2)[OF assms(1)] by (simp add: bitmap_ok_def is_bitmap_iff)
  have g: "GET_BITMAP_BLK 0 = 0" "GET_BITMAP_BLK 1 = 0" by (simp_all add: word_unat_eq_iff unat_get_bitmap)
  have b0: "bit_at (bitmap_blk s) 0" and b1: "\<not> bit_at (bitmap_blk s) 1"
    using used assms(4) by (simp_all add: blk_used_def g ld unat_and_mask)
  have "b = 1"
  proof (cases rule: scan_bitmap_cases[where ps = "bitmap_blk s" and i = 0 and block = 0])
    case full
    with b1 assms(1) show ?thesis by (simp add: ready_def)
  next
    case (found j)
    have "j = 1"
    proof (rule ccontr)
      assume "j \<noteq> 1"
      then consider "j = 0" | "1 < j" by linarith
      then show False using found(2,3) b0 b1 by cases auto
    qed
    moreover have "\<not> blk_count s \<le> 1" using assms(3) by (simp add: not_le)
    ultimately have "alloc_block P s = Some (mark_used P 0 2 1 s)"
      using found(4) assms(2,3) by (simp add: alloc_block_def alloc_loop.simps[of P 0 0 s] Let_def)
    then have "mark_used P 0 2 1 s = (b, s')" using ok(1) by simp
    then show ?thesis using readyD(3)[OF ok(2)] by (auto simp: mark_used_def Let_def split: if_splits)
  qed
  with ok show thesis by (intro that[of s']) simp_all
qed

theorem format_spec:
  assumes io: "io_ok (drive_select P s)" and "last_error s \<noteq> TFS_ERR_NO_DEV" and g: "geometry s" and "2 \<le> blk_count s"
  shows "\<exists>s'. tfs_format P s = Some s' \<and> mounted s' \<and> last_error s' = TFS_ERR_OK \<and> geometry s' \<and> tail_marked s' \<and> format_frame s s' \<and>
    current_dir_blk s' = 1 \<and> dir_ok s' [1] \<and> cont s' 1 = replicate TFS_BLOCKSIZE 0 \<and>
    (\<forall>n < blk_count s. blk_used (cont s') n \<longleftrightarrow> is_bitmap_blk n \<or> n = 1) \<and>
    (\<forall>n. \<not> is_bitmap_blk n \<longrightarrow> n \<noteq> 1 \<longrightarrow> cont s' n = cont s n) \<and>
    after_bitmap s' = (if unat (last_bitmap_len s) = 4096 then 0xff else after_bitmap s) \<and>
    callbacks s' = callbacks s @ [FormatState TFS_FORMAT_STATE_START, FormatState TFS_FORMAT_STATE_BITMAP_START] @
      map (\<lambda>k. FormatProgress (of_nat k) (of_nat (bm_idx (last_bitmap_blk s)))) [0..<bm_num (last_bitmap_blk s)] @
      [FormatState TFS_FORMAT_STATE_BITMAP_DONE, FormatState TFS_FORMAT_STATE_ROOTDIR, FormatState TFS_FORMAT_STATE_DONE]"
proof -
  note gp = geometry_props[OF g]
  let ?l = "last_bitmap_blk s" and ?pm = "of_nat (bm_idx (last_bitmap_blk s)) :: u32"
  define s1 where "s1 = call_back (FormatState TFS_FORMAT_STATE_BITMAP_START)
    ((drive_select P (call_back (FormatState TFS_FORMAT_STATE_START) (set_error TFS_ERR_OK s)))\<lparr>bitmap_blk := fresh_bitmap\<rparr>)"
  have s1: "io_ok s1" "last_error s1 = TFS_ERR_OK" "last_bitmap_blk s1 = ?l" "last_bitmap_len s1 = last_bitmap_len s"
    "blk_count s1 = blk_count s" "bitmap_blk s1 = fresh_bitmap" "cont s1 = cont s" "format_frame s s1"
    "after_bitmap s1 = after_bitmap s"
    "callbacks s1 = callbacks s @ [FormatState TFS_FORMAT_STATE_START, FormatState TFS_FORMAT_STATE_BITMAP_START]"
    using io cont_select[OF io] by (simp_all add: s1_def io_ok_def format_frame_def del: io_ok_lengths)
  have l0: "(0 :: u32) \<le> last_bitmap_blk s1" "is_bitmap_blk 0" by (simp_all add: is_bitmap_iff)
  have len: "unat (last_bitmap_len s) \<le> 4096"
    using gp(3) mod_less_divisor[of 4096 "unat (blk_count s - 1)"] by simp
  obtain s2 where s2: "format_loop P ?pm 0 s1 = Some s2" "io_ok s2" "last_error s2 = TFS_ERR_OK" "format_frame s1 s2"
      "\<forall>n. 0 \<le> GET_BITMAP_BLK n \<longrightarrow> GET_BITMAP_BLK n \<le> ?l \<longrightarrow>
        (blk_used (cont s2) n \<longleftrightarrow> is_bitmap_blk n \<or> GET_BITMAP_BLK n = ?l \<and>
          unat (last_bitmap_len s) \<le> unat (n AND TFS_BITMAP_BLK_MASK))"
      "\<forall>n. \<not> (is_bitmap_blk n \<and> 0 \<le> n \<and> n \<le> ?l) \<longrightarrow> cont s2 n = cont s n"
      "after_bitmap s2 = (if unat (last_bitmap_len s) = 4096 then 0xff else after_bitmap s)"
      "callbacks s2 = callbacks s1 @ map (\<lambda>k. FormatProgress (of_nat k) ?pm) [bm_idx 0..<bm_num ?l]
        @ [FormatState TFS_FORMAT_STATE_BITMAP_DONE]"
    using format_loop_spec[OF s1(1,2) l0(2,1), of ?pm, unfolded s1(3-7,9), OF gp(1,2) refl len] by blast
  have u2: "blk_used (cont s2) n \<longleftrightarrow> is_bitmap_blk n \<or> GET_BITMAP_BLK n = ?l \<and> blk_count s \<le> n"
    if "GET_BITMAP_BLK n \<le> ?l" for n
    using s2(5) that gp(6)[of n] by auto
  have f2: "format_frame s s2" by (rule format_frame_trans[OF s1(8) s2(4)])
  have ff: "drive_info s2 = drive_info s" "last_bitmap_blk s2 = ?l" "last_bitmap_len s2 = last_bitmap_len s"
    using f2 by (simp_all add: format_frame_def)
  have cnt0: "0 < blk_count s2" using g ff by (simp add: geometry_def)
  define s3 where "s3 = call_back (FormatState TFS_FORMAT_STATE_ROOTDIR) (load_bitmap P 0 s2)"
  have s3: "io_ok s3" "last_error s3 = TFS_ERR_OK" "cont s3 = cont s2" "loaded_bitmap_blk s3 = 0" "bitmap_blk s3 = cont s2 0"
    "drive_info s3 = drive_info s" "last_bitmap_blk s3 = ?l" "last_bitmap_len s3 = last_bitmap_len s"
    using s2(2,3) cnt0 ff by (simp_all add: s3_def)
  have cnt: "blk_count s3 = blk_count s" by (simp add: s3(6))
  have used3: "blk_used (cont s3) n \<longleftrightarrow> is_bitmap_blk n" if "n < blk_count s" for n
  proof -
    have "\<not> blk_count s \<le> n" using that by (simp add: not_le)
    then show ?thesis using u2[OF gp(5)[OF that]] s3(3) by simp
  qed
  have "bitmap_ok (cont s3) s3"
    using g used3 s3 by (simp add: bitmap_ok_def geometry_def is_bitmap_iff)
  then have r3: "ready s3" using s3 by (simp add: ready_def)
  have one: "1 < blk_count s3" "1 < blk_count s" using assms(4) cnt by (simp_all add: word_less_nat_alt word_le_nat_alt)
  have nb1: "\<not> is_bitmap_blk 1" by (simp add: is_bitmap_iff)
  have free1: "\<not> blk_used (cont s3) 1" using used3[OF one(2)] nb1 by simp
  obtain s4 where s4: "alloc_block P s3 = Some (1, s4)" "ready s4" "bitmap_frame s3 s4"
    "\<And>n. \<not> is_bitmap_blk n \<Longrightarrow> cont s4 n = cont s3 n" "\<And>n. blk_used (cont s4) n \<longleftrightarrow> blk_used (cont s3) n \<or> n = 1"
    using alloc_block_one[OF r3 s3(4) one(1) free1] by blast
  define s5 where "s5 = write_buf P 1 (s4\<lparr>blk_buf := replicate TFS_BLOCKSIZE 0\<rparr>)"
  have cnt4: "blk_count s4 = blk_count s" using bitmap_frameD(1)[OF s4(3)] cnt by simp
  have s5: "ready s5" "cont s5 = (cont s4)(1 := replicate TFS_BLOCKSIZE 0)" "fs_frame s4 s5"
    using s4(2) nb1 one(2) cnt4 by (simp_all add: s5_def)
  define s6 where "s6 = call_back (FormatState TFS_FORMAT_STATE_DONE) (s5\<lparr>current_dir_blk := 1, loaded_dir_blk := 0\<rparr>)"
  let ?s' = "drive_deselect P s6"
  have root: "format_root P s2 = Some s6"
    using s2(2,3) cnt0 s4(1) readyD(3)[OF s4(2)] readyD(3)[OF s5(1)]
    by (simp add: format_root_def Let_def flip: s3_def) (simp add: s5_def[symmetric] s6_def)
  have fmt: "tfs_format P s = Some ?s'"
    using assms(2) s2(1,3) root by (simp add: tfs_format_def Let_def progress_index flip: s1_def)
  have f6: "drive_info s6 = drive_info s" "last_bitmap_blk s6 = ?l" "last_bitmap_len s6 = last_bitmap_len s"
    "loaded_bitmap_blk s6 = loaded_bitmap_blk s5" "bitmap_blk s6 = bitmap_blk s5" "current_dir_blk s6 = 1"
    using bitmap_frameD[OF s4(3)] s3(6-8) fs_frameD[OF s5(3)] by (simp_all add: s6_def)
  have c6: "cont s6 = (cont s4)(1 := replicate TFS_BLOCKSIZE 0)" using s5(2) by (simp add: s6_def)
  have "ready s6" using s5(1) by (simp add: ready_def s6_def)
  then have r6: "mounted ?s'" "last_error ?s' = TFS_ERR_OK"
    using mounted_ready readyD(3) by simp_all
  have used6: "blk_used (cont ?s') n \<longleftrightarrow> blk_used (cont s2) n \<or> n = 1" for n
    using s4(5) s3(3) nb1 by (simp add: c6 blk_used_upd)
  have "format_frame s ?s'"
    using f2 bitmap_frameD[OF s4(3)] fs_frameD[OF s5(3)] by (simp add: format_frame_def s6_def s3_def)
  moreover have "geometry ?s'" using g f6 by (simp add: geometry_def)
  moreover have "tail_marked ?s'"
    using u2 f6 used6 by (simp add: tail_marked_def)
  moreover have u: "blk_used (cont ?s') n \<longleftrightarrow> is_bitmap_blk n \<or> n = 1" if "n < blk_count s" for n
    using used6 used3[OF that] s3(3) by simp
  moreover have "dir_ok ?s' [1]"
    using f6 c6 u[OF one(2)] one nb1 by (simp add: dir_ok_def owned_def)
  moreover have "cont ?s' n = cont s n" if "\<not> is_bitmap_blk n" "n \<noteq> 1" for n
    using that s4(4) s3(3) s2(6) by (simp add: c6)
  moreover have "after_bitmap ?s' = (if unat (last_bitmap_len s) = 4096 then 0xff else after_bitmap s)"
    using s2(7) bitmap_frameD[OF s4(3)] fs_frameD[OF s5(3)] by (simp add: s6_def s3_def)
  moreover have "bm_idx 0 = 0" by (simp add: bm_idx_def)
  then have "callbacks ?s' = callbacks s @ [FormatState TFS_FORMAT_STATE_START, FormatState TFS_FORMAT_STATE_BITMAP_START] @
      map (\<lambda>k. FormatProgress (of_nat k) ?pm) [0..<bm_num ?l] @
      [FormatState TFS_FORMAT_STATE_BITMAP_DONE, FormatState TFS_FORMAT_STATE_ROOTDIR, FormatState TFS_FORMAT_STATE_DONE]"
    using s2(8) s1(10) bitmap_frameD[OF s4(3)] fs_frameD[OF s5(3)] by (simp add: s6_def s3_def)
  moreover have "current_dir_blk ?s' = 1" "cont ?s' 1 = replicate TFS_BLOCKSIZE 0"
    using f6(6) c6 by simp_all
  ultimately show ?thesis using fmt r6 by (intro exI[of _ ?s'] conjI allI impI) (assumption | blast)+
qed

end

section \<open>Counting used blocks\<close>

definition n_used :: "byte list \<Rightarrow> nat" where
  "n_used bs = card {j. j < 8 * length bs \<and> bit_at bs j}"

lemma count_masks_from:
  "a \<le> 8 \<Longrightarrow> count_masks (map (\<lambda>k. 2 ^ k) [a..<8]) p u = u + of_nat (card {k. a \<le> k \<and> k < 8 \<and> bit p k})"
proof (induction "8 - a" arbitrary: a u)
  case 0
  then have a: "a = 8" by simp
  have e: "{k. 8 \<le> k \<and> k < 8 \<and> bit p k} = {}" by auto
  show ?case unfolding a e by simp
next
  case (Suc d)
  then have a: "[a..<8] = a # [Suc a..<8]" "a < 8" by (auto simp: upt_rec)
  have e: "{k. a \<le> k \<and> k < 8 \<and> bit p k} = (if bit p a then {a} else {}) \<union> {k. Suc a \<le> k \<and> k < 8 \<and> bit p k}"
    using a(2) by (auto simp: le_eq_less_or_eq)
  have c: "card {k. a \<le> k \<and> k < 8 \<and> bit p k} = (if bit p a then 1 else 0) + card {k. Suc a \<le> k \<and> k < 8 \<and> bit p k}"
    unfolding e by simp
  have "count_masks (map (\<lambda>k. 2 ^ k) [Suc a..<8]) p v = v + of_nat (card {k. Suc a \<le> k \<and> k < 8 \<and> bit p k})" for v
    using Suc by simp
  then show ?case unfolding c using a by (simp add: and_pow2)
qed

lemma n_used_Cons: "n_used (p # ps) = card {k. k < 8 \<and> bit p k} + n_used ps"
proof -
  have e: "{j. j < 8 * length (p # ps) \<and> bit_at (p # ps) j} =
      {k. k < 8 \<and> bit p k} \<union> (\<lambda>j. j + 8) ` {j. j < 8 * length ps \<and> bit_at ps j}" (is "?L = ?A \<union> ?B")
  proof (rule set_eqI)
    fix j
    show "j \<in> ?L \<longleftrightarrow> j \<in> ?A \<union> ?B"
    proof (cases "j < 8")
      case False
      then have "j \<in> ?B \<longleftrightarrow> j - 8 < 8 * length ps \<and> bit_at ps (j - 8)"
        by (auto simp: image_iff intro!: exI[of _ "j - 8"])
      with False show ?thesis by (auto simp: bit_at_Cons)
    qed (auto simp: bit_at_Cons)
  qed
  have "card (?A \<union> ?B) = card ?A + card ?B" by (rule card_Un_disjoint) auto
  also have "card ?B = n_used ps" by (simp add: card_image n_used_def)
  finally show ?thesis unfolding n_used_def[of "p # ps"] e .
qed

lemma count_used_eq: "count_used bs u = u + of_nat (n_used bs)"
proof (induction bs arbitrary: u)
  case (Cons p ps)
  have "count_masks masks p u = u + of_nat (card {k. k < 8 \<and> bit p k})"
    using count_masks_from[of 0 p u] by (simp add: masks_eq)
  moreover have c0: "card {k. k < 8 \<and> bit p k} = 0" if "\<not> 0 < p"
  proof -
    have "p = 0" using that by (simp add: word_greater_zero_iff)
    then show ?thesis by simp
  qed
  ultimately show ?case using Cons[of u] Cons[of "count_masks masks p u"]
    by (cases "0 < p") (simp_all add: n_used_Cons c0)
qed (simp add: n_used_def)

lemma n_used_block:
  assumes "is_bitmap_blk pos" and "length (C pos) = TFS_BLOCKSIZE"
  shows "card {n. GET_BITMAP_BLK n = pos \<and> blk_used C n} = n_used (C pos)"
proof -
  have "{n. GET_BITMAP_BLK n = pos \<and> blk_used C n} = (\<lambda>j. pos + of_nat j) ` {j. j < 4096 \<and> bit_at (C pos) j}"
  proof (intro set_eqI iffI)
    fix n assume "n \<in> {n. GET_BITMAP_BLK n = pos \<and> blk_used C n}"
    then have n: "GET_BITMAP_BLK n = pos" "bit_at (C pos) (unat (n AND TFS_BITMAP_BLK_MASK))" by (auto simp: blk_used_def)
    define j where "j = unat (n AND TFS_BITMAP_BLK_MASK)"
    have j: "j < 4096" by (simp add: j_def)
    have "n = pos + of_nat j"
      unfolding block_eq_iff[of n] bitmap_in_range(2,3)[OF assms(1) j] n(1) j_def[symmetric] by (rule conjI refl)+
    then show "n \<in> (\<lambda>j. pos + of_nat j) ` {j. j < 4096 \<and> bit_at (C pos) j}"
      using n(2) j unfolding j_def by blast
  next
    fix n assume "n \<in> (\<lambda>j. pos + of_nat j) ` {j. j < 4096 \<and> bit_at (C pos) j}"
    then obtain j where j: "n = pos + of_nat j" "j < 4096" "bit_at (C pos) j" by blast
    from bitmap_in_range(2,3)[OF assms(1) j(2)] j(3)
    show "n \<in> {n. GET_BITMAP_BLK n = pos \<and> blk_used C n}" unfolding j(1) blk_used_def mem_Collect_eq by simp
  qed
  moreover have "inj_on (\<lambda>j. pos + of_nat j) {j. j < 4096 \<and> bit_at (C pos) j}"
  proof (rule inj_onI)
    fix i j assume "i \<in> {j. j < 4096 \<and> bit_at (C pos) j}" "j \<in> {j. j < 4096 \<and> bit_at (C pos) j}"
      and "pos + of_nat i = pos + of_nat j"
    then have "unat pos + i = unat pos + j"
      using bitmap_in_range(1)[OF assms(1), of i] bitmap_in_range(1)[OF assms(1), of j] by (metis mem_Collect_eq)
    then show "i = j" by simp
  qed
  ultimately show ?thesis using assms(2) by (simp add: card_image n_used_def)
qed

lemma next_bitmap_step:
  assumes "is_bitmap_blk pos" and "is_bitmap_blk l" and "pos \<le> l" and "pos \<noteq> l"
  shows "is_bitmap_blk (pos + TFS_BITMAP_BLK_COUNT)" "pos + TFS_BITMAP_BLK_COUNT \<le> l"
    "bm_idx (pos + TFS_BITMAP_BLK_COUNT) = Suc (bm_idx pos)"
    "is_bitmap_blk m \<Longrightarrow> pos + TFS_BITMAP_BLK_COUNT \<le> m \<longleftrightarrow> pos \<le> m \<and> m \<noteq> pos"
proof -
  obtain a where a: "unat pos = 4096 * a" using assms(1) by (auto simp: is_bitmap_iff elim!: dvdE)
  obtain b where b: "unat l = 4096 * b" using assms(2) by (auto simp: is_bitmap_iff elim!: dvdE)
  have ab: "a < b" using assms(3,4) a b by (auto simp: word_le_nat_alt word_unat_eq_iff)
  have "unat l < 2 ^ 32" using unsigned_less[of l] by simp
  then have up: "unat (pos + TFS_BITMAP_BLK_COUNT) = 4096 * (a + 1)"
    using ab a b by (simp add: unat_word_ariths)
  show "is_bitmap_blk (pos + TFS_BITMAP_BLK_COUNT)" "pos + TFS_BITMAP_BLK_COUNT \<le> l"
    "bm_idx (pos + TFS_BITMAP_BLK_COUNT) = Suc (bm_idx pos)"
    using ab a b by (simp_all add: is_bitmap_iff bm_idx_def word_le_nat_alt up)
  assume m: "is_bitmap_blk m"
  obtain c where "unat m = 4096 * c" using m by (auto simp: is_bitmap_iff elim!: dvdE)
  then show "pos + TFS_BITMAP_BLK_COUNT \<le> m \<longleftrightarrow> pos \<le> m \<and> m \<noteq> pos"
    unfolding word_le_nat_alt word_unat_eq_iff up a by auto
qed

context block_device
begin

text \<open>The used blocks of the bitmap blocks from \<open>pos\<close> on.\<close>

definition used_from :: "'d fs \<Rightarrow> u32 \<Rightarrow> u32 set" where
  "used_from s pos = {n. pos \<le> GET_BITMAP_BLK n \<and> GET_BITMAP_BLK n \<le> last_bitmap_blk s \<and> blk_used (cont s) n}"

lemma used_loop_spec:
  assumes "io_ok s" and "last_error s = TFS_ERR_OK" and "geometry s" and "is_bitmap_blk pos" and "pos \<le> last_bitmap_blk s"
  shows "\<exists>s'. used_loop P pos u s =
      Some (u + of_nat (card (used_from s pos)) - (TFS_BITMAP_BLK_COUNT - ucast (last_bitmap_len s)), drive_deselect P (load_bitmap P 0 s'))
    \<and> io_ok s' \<and> last_error s' = TFS_ERR_OK \<and> cont s' = cont s \<and> bitmap_frame s s'"
  using assms
proof (induction "bm_num (last_bitmap_blk s) - bm_idx pos" arbitrary: s pos u)
  case 0
  then show ?case using bm_idx_less[of pos "last_bitmap_blk s"] by simp
next
  case (Suc k)
  note gp = geometry_props[OF Suc.prems(3)]
  let ?s1 = "load_bitmap P pos s" and ?l = "last_bitmap_blk s" and ?p = "pos + TFS_BITMAP_BLK_COUNT"
  have pc: "pos < blk_count s" using Suc.prems(5) gp(2) by simp
  have s1: "io_ok ?s1" "last_error ?s1 = TFS_ERR_OK" "cont ?s1 = cont s" "bitmap_blk ?s1 = cont s pos"
    "bitmap_frame s ?s1" using Suc.prems(1,2) pc by simp_all
  have here: "card {n. GET_BITMAP_BLK n = pos \<and> blk_used (cont s) n} = n_used (cont s pos)"
    by (rule n_used_block[OF Suc.prems(4)]) simp
  show ?case
  proof (cases "pos = ?l")
    case True
    then have "used_from s pos = {n. GET_BITMAP_BLK n = pos \<and> blk_used (cont s) n}"
      by (auto simp: used_from_def)
    then have "card (used_from s pos) = n_used (cont s pos)" using here by simp
    then show ?thesis
      using s1 True by (intro exI[of _ ?s1]) (subst used_loop.simps, simp add: Let_def count_used_eq)
  next
    case False
    note nx = next_bitmap_step[OF Suc.prems(4) gp(1) Suc.prems(5) False]
    have "used_from s pos = {n. GET_BITMAP_BLK n = pos \<and> blk_used (cont s) n} \<union> used_from s ?p"
      using nx(4) Suc.prems(5) by (auto simp: used_from_def)
    moreover have "{n. GET_BITMAP_BLK n = pos \<and> blk_used (cont s) n} \<inter> used_from s ?p = {}"
      using nx(4) by (auto simp: used_from_def)
    ultimately have "card (used_from s pos) = n_used (cont s pos) + card (used_from s ?p)"
      using here by (simp add: card_Un_disjoint)
    moreover have uf: "used_from ?s1 q = used_from s q" for q using s1(3) by (simp add: used_from_def)
    have g1: "geometry ?s1" using Suc.prems(3) by (simp add: geometry_def)
    have k: "k = bm_num (last_bitmap_blk ?s1) - bm_idx ?p" using Suc.hyps(2) nx(3) by simp
    have le: "?p \<le> last_bitmap_blk ?s1" using nx(2) by simp
    obtain s' where s': "used_loop P ?p (u + of_nat (n_used (cont s pos))) ?s1 =
        Some (u + of_nat (n_used (cont s pos)) + of_nat (card (used_from ?s1 ?p)) -
          (TFS_BITMAP_BLK_COUNT - ucast (last_bitmap_len ?s1)), drive_deselect P (load_bitmap P 0 s'))"
      "io_ok s'" "last_error s' = TFS_ERR_OK" "cont s' = cont ?s1" "bitmap_frame ?s1 s'"
      using Suc.hyps(1)[OF k s1(1,2) g1 nx(1) le] by blast
    have "used_loop P pos u s = used_loop P ?p (u + of_nat (n_used (cont s pos))) ?s1"
      using s1 False by (subst used_loop.simps) (simp add: Let_def count_used_eq)
    ultimately show ?thesis
      using s' s1 uf bitmap_frame_trans[OF s1(5) s'(5)] by (intro exI[of _ s']) (simp add: add.assoc)
  qed
qed

lemma card_behind_end:
  assumes "geometry s" and "tail_marked s"
  shows "card (used_from s 0) = card {n. n < blk_count s \<and> blk_used (cont s) n} + (4096 - unat (last_bitmap_len s))"
proof -
  note gp = geometry_props[OF assms(1)]
  let ?l = "last_bitmap_blk s" and ?len = "unat (last_bitmap_len s)"
  let ?T = "{n. blk_count s \<le> n \<and> GET_BITMAP_BLK n = ?l}"
  have lt: "n < blk_count s" if "GET_BITMAP_BLK n \<le> ?l" "GET_BITMAP_BLK n \<noteq> ?l" for n
  proof -
    obtain a where a: "unat ?l = 4096 * a" using gp(1) by (auto simp: is_bitmap_iff elim!: dvdE)
    have "unat n div 4096 < a"
      using that a unat_get_bitmap[of n] by (auto simp: word_le_nat_alt word_unat_eq_iff)
    then have "unat n < 4096 * a" by (simp add: less_mult_imp_div_less div_less_iff_less_mult mult.commute)
    then show ?thesis using gp(4) a by (simp add: word_less_nat_alt)
  qed
  have tl: "n \<in> ?T" if "GET_BITMAP_BLK n \<le> ?l" "\<not> n < blk_count s" for n
  proof -
    have "GET_BITMAP_BLK n = ?l" using lt[OF that(1)] that(2) by blast
    with that(2) show ?thesis by (simp add: not_less)
  qed
  have e: "used_from s 0 = {n. n < blk_count s \<and> blk_used (cont s) n} \<union> ?T"
    using tl gp(5) assms(2) by (auto simp: used_from_def tail_marked_def)
  have "?T = (\<lambda>j. ?l + of_nat j) ` {j. ?len \<le> j \<and> j < 4096}"
  proof (intro set_eqI iffI)
    fix n assume n: "n \<in> ?T"
    define j where "j = unat (n AND TFS_BITMAP_BLK_MASK)"
    have j: "j < 4096" by (simp add: j_def)
    have "GET_BITMAP_BLK n = ?l" using n by simp
    then have "n = ?l + of_nat j"
      unfolding block_eq_iff[of n] bitmap_in_range(2,3)[OF gp(1) j] j_def[symmetric] by simp
    moreover have "?len \<le> j" using n gp(6)[of n] by (simp add: j_def)
    ultimately show "n \<in> (\<lambda>j. ?l + of_nat j) ` {j. ?len \<le> j \<and> j < 4096}" using j by blast
  next
    fix n assume "n \<in> (\<lambda>j. ?l + of_nat j) ` {j. ?len \<le> j \<and> j < 4096}"
    then obtain j where j: "n = ?l + of_nat j" "j < 4096" "?len \<le> j" by blast
    from bitmap_in_range(2,3)[OF gp(1) j(2)] gp(6)[of n] j(3)
    show "n \<in> ?T" unfolding j(1) by simp
  qed
  moreover have "inj_on (\<lambda>j. ?l + of_nat j) {j. ?len \<le> j \<and> j < 4096}"
  proof (rule inj_onI)
    fix i j assume "i \<in> {j. ?len \<le> j \<and> j < 4096}" "j \<in> {j. ?len \<le> j \<and> j < 4096}" and "?l + of_nat i = ?l + of_nat j"
    then have "unat ?l + i = unat ?l + j"
      using bitmap_in_range(1)[OF gp(1), of i] bitmap_in_range(1)[OF gp(1), of j] by (metis (no_types, lifting) mem_Collect_eq)
    then show "i = j" by simp
  qed
  ultimately have "card ?T = card {j. ?len \<le> j \<and> j < 4096}" by (simp add: card_image)
  moreover have "{j. ?len \<le> j \<and> j < 4096} = {?len..<4096}" by auto
  ultimately have ct: "card ?T = 4096 - ?len" by simp
  have "card (used_from s 0) = card {n. n < blk_count s \<and> blk_used (cont s) n} + card ?T"
    unfolding e by (rule card_Un_disjoint) (auto simp: not_less)
  then show ?thesis using ct by simp
qed

text \<open>\<open>tfs_get_used\<close> returns the number of used blocks of the disk.\<close>

theorem get_used_spec:
  assumes m: "mounted s" and "tail_marked s"
  shows "\<exists>s'. tfs_get_used P s = Some (of_nat (card {n. n < blk_count s \<and> blk_used (cont s) n}), s') \<and>
    mounted s' \<and> last_error s' = TFS_ERR_OK \<and> cont s' = cont s \<and> bitmap_frame s s'"
proof -
  have b: "bitmap_ok (cont s) s" and e: "last_error s \<noteq> TFS_ERR_NO_DEV" using m by (simp_all add: mounted_def)
  have g: "geometry s" using b by (simp add: geometry_def bitmap_ok_def)
  note gp = geometry_props[OF g]
  let ?s0 = "drive_select P (set_error TFS_ERR_OK s)"
  have r0: "ready ?s0" by (rule ready_entered[OF m])
  have g0: "geometry ?s0" using g by (simp add: geometry_def)
  have b0: "is_bitmap_blk 0" "(0 :: u32) \<le> last_bitmap_blk ?s0" by (simp_all add: is_bitmap_iff)
  obtain s1 where s1: "used_loop P 0 0 ?s0 = Some (0 + of_nat (card (used_from ?s0 0)) -
      (TFS_BITMAP_BLK_COUNT - ucast (last_bitmap_len ?s0)), drive_deselect P (load_bitmap P 0 s1))"
    "io_ok s1" "last_error s1 = TFS_ERR_OK" "cont s1 = cont ?s0" "bitmap_frame ?s0 s1"
    using used_loop_spec[OF readyD(1)[OF r0] _ g0 b0, of 0] by auto
  have uf: "used_from ?s0 0 = used_from s 0" using m by (simp add: used_from_def)
  have len: "unat (last_bitmap_len s) \<le> 4096"
    using gp(3) mod_less_divisor[of 4096 "unat (blk_count s - 1)"] by simp
  have w: "TFS_BITMAP_BLK_COUNT - ucast (last_bitmap_len s) = of_nat (4096 - unat (last_bitmap_len s))"
  proof -
    have u: "unat (ucast (last_bitmap_len s) :: u32) = unat (last_bitmap_len s)"
      using len by (simp add: unsigned_ucast_eq take_bit_nat_eq_self)
    then have "ucast (last_bitmap_len s) \<le> TFS_BITMAP_BLK_COUNT" using len by (simp add: word_le_nat_alt)
    then have "unat (TFS_BITMAP_BLK_COUNT - ucast (last_bitmap_len s)) = 4096 - unat (last_bitmap_len s)"
      by (simp add: unat_sub u)
    moreover have "unat (of_nat (4096 - unat (last_bitmap_len s)) :: u32) = 4096 - unat (last_bitmap_len s)"
      by (simp add: unat_of_nat take_bit_eq_mod)
    ultimately show ?thesis by (simp only: word_unat_eq_iff)
  qed
  have fr: "bitmap_frame s (load_bitmap P 0 s1)"
    using s1(5) by (simp add: bitmap_frame_def)
  have pos: "0 < blk_count s1" using g bitmap_frameD(1)[OF s1(5)] by (simp add: geometry_def)
  have "bitmap_ok (cont s) (load_bitmap P 0 s1)"
    using b m s1(2-4) pos bitmap_frameD[OF fr] by (auto simp: bitmap_ok_def is_bitmap_iff)
  then have "ready (load_bitmap P 0 s1)"
    using m s1(2-4) pos by (simp add: ready_def)
  then have "mounted (drive_deselect P (load_bitmap P 0 s1))" "last_error (drive_deselect P (load_bitmap P 0 s1)) = TFS_ERR_OK"
    using mounted_ready readyD(3) by simp_all
  moreover have "bitmap_frame s (drive_deselect P (load_bitmap P 0 s1))"
    using fr by (simp add: bitmap_frame_def)
  ultimately show ?thesis
    using m s1 e pos
    by (intro exI[of _ "drive_deselect P (load_bitmap P 0 s1)"])
      (simp add: tfs_get_used_def uf w card_behind_end[OF g assms(2)])
qed

section \<open>Mounting\<close>

lemma init_io:
  assumes "length (blk_buf s) = TFS_BLOCKSIZE" and "length (bitmap_blk s) = TFS_BLOCKSIZE"
    and i: "pf_init P (drive_info s) (dev s) = (d, di, TFS_ERR_OK)" and "dev_ok di (pf_select P d)" and "0 < di_blk_count di"
  shows "io_ok (drive_select P (tfs_init P s))" "last_error (tfs_init P s) = TFS_ERR_OK" "geometry (tfs_init P s)" "cont (tfs_init P s) = contents d"
    "drive_info (tfs_init P s) = di" "current_dir_blk (tfs_init P s) = TFS_ROOT_DIR_BLK"
    "handles (tfs_init P s) = (if pf_extended_api P then replicate TFS_MAX_FDS zero_handle else handles s)"
    "loaded_bitmap_blk (tfs_init P s) = 0" "bitmap_blk (tfs_init P s) = contents d 0"
proof -
  define s1 where "s1 = (drive_select P (set_error TFS_ERR_OK (s\<lparr>handles :=
      (if pf_extended_api P then replicate TFS_MAX_FDS zero_handle else handles s), dev := d, drive_info := di\<rparr>)))
    \<lparr>last_bitmap_len := ucast ((di_blk_count di - 1) AND TFS_BITMAP_BLK_MASK) + 1,
     last_bitmap_blk := GET_BITMAP_BLK (di_blk_count di - 1)\<rparr>"
  have s1: "io_ok s1" "last_error s1 = TFS_ERR_OK" "drive_info s1 = di" "cont s1 = contents d" "geometry s1"
    "handles s1 = (if pf_extended_api P then replicate TFS_MAX_FDS zero_handle else handles s)"
    using assms pf_select_dev[OF assms(4)] by (simp_all add: s1_def io_ok_def geometry_def del: io_ok_lengths)
  have e: "tfs_init P s = drive_deselect P ((load_bitmap P 0 s1)\<lparr>current_dir_blk := TFS_ROOT_DIR_BLK, loaded_dir_blk := 0\<rparr>)"
  proof -
    have "tfs_init P s = (if last_error (load_bitmap P 0 s1) \<noteq> TFS_ERR_OK then drive_deselect P (load_bitmap P 0 s1)
        else drive_deselect P ((load_bitmap P 0 s1)\<lparr>current_dir_blk := TFS_ROOT_DIR_BLK, loaded_dir_blk := 0\<rparr>))"
      using i by (cases "pf_extended_api P") (simp_all add: tfs_init_def Let_def set_error_def drive_select_def s1_def)
    moreover have "last_error (load_bitmap P 0 s1) = TFS_ERR_OK" using s1(1-3) assms(5) by simp
    ultimately show ?thesis by simp
  qed
  show "io_ok (drive_select P (tfs_init P s))" "last_error (tfs_init P s) = TFS_ERR_OK" "loaded_bitmap_blk (tfs_init P s) = 0"
    "bitmap_blk (tfs_init P s) = contents d 0"
    using s1(1-4) assms(5) by (simp_all add: e)
  show "geometry (tfs_init P s)" using s1(5) by (simp add: e geometry_def)
  show "cont (tfs_init P s) = contents d" "drive_info (tfs_init P s) = di"
    "current_dir_blk (tfs_init P s) = TFS_ROOT_DIR_BLK"
    "handles (tfs_init P s) = (if pf_extended_api P then replicate TFS_MAX_FDS zero_handle else handles s)"
    using s1 assms(5) by (simp_all add: e)
qed

theorem init_spec:
  assumes "length (blk_buf s) = TFS_BLOCKSIZE" and "length (bitmap_blk s) = TFS_BLOCKSIZE"
    and "pf_init P (drive_info s) (dev s) = (d, di, TFS_ERR_OK)" and "dev_ok di (pf_select P d)" and "0 < di_blk_count di"
    and used: "\<forall>n. is_bitmap_blk n \<longrightarrow> n < di_blk_count di \<longrightarrow> blk_used (contents d) n"
  shows "mounted (tfs_init P s)" "last_error (tfs_init P s) = TFS_ERR_OK" "geometry (tfs_init P s)" "cont (tfs_init P s) = contents d"
    "drive_info (tfs_init P s) = di" "current_dir_blk (tfs_init P s) = TFS_ROOT_DIR_BLK"
    "handles (tfs_init P s) = (if pf_extended_api P then replicate TFS_MAX_FDS zero_handle else handles s)"
proof -
  note t = init_io[OF assms(1-5)]
  have "bitmap_ok (cont (tfs_init P s)) (tfs_init P s)"
    using t(3) used assms(5) by (simp add: bitmap_ok_def geometry_def is_bitmap_iff t(4,5,8,9))
  then show "mounted (tfs_init P s)" using t(1,2) by (simp add: mounted_def)
qed (use init_io[OF assms(1-5)] in simp_all)

end

text \<open>Without a device nothing is mounted, and every later call of the interface returns at once.\<close>

lemma init_failed:
  assumes "pf_init P (drive_info s) (dev s) = (d, di, c)" and "c \<noteq> TFS_ERR_OK"
  shows "last_error (tfs_init P s) = c" "dev (tfs_init P s) = d"
  using assms by (simp_all add: tfs_init_def Let_def)

lemma linux_init_file:
  assumes "ld_outcomes d = []" and "ld_mode d = S_IFREG" and "ld_size d div TFS_BLOCKSIZE < 2 ^ 32"
  shows "\<exists>d' di'. linux_drive_init di d = (d', di', TFS_ERR_OK) \<and> linux_ok di' d' \<and> linux_contents d' = linux_contents d \<and>
    unat (di_blk_count di') = ld_size d div TFS_BLOCKSIZE"
proof -
  have "unat (of_nat (ld_size d div TFS_BLOCKSIZE) :: u32) = ld_size d div TFS_BLOCKSIZE"
    using assms(3) by (simp add: unat_of_nat take_bit_nat_eq_self)
  then show ?thesis
    using assms by (simp add: linux_drive_init_def Let_def linux_ok_def sys_step_def fun_eq_iff linux_contents_def)
qed

end
