(* ===== verification/Demo.thy ===== *)
theory Demo
  imports Subdirs Format
begin

text \<open>
  A concrete file system for the witnesses: a regular file of eight blocks behind the Linux
  drive, freshly formatted.  Block 0 is the bitmap, block 1 the empty root directory, blocks 2
  to 7 are free.
\<close>

definition demo_dev :: linux_dev where
  "demo_dev = \<lparr>ld_mode = S_IFREG, ld_size = 4096,
     ld_data = (\<lambda>i. if i = 0 then 3 else if i < 512 then 0xff else 0), ld_pos = 0, ld_outcomes = []\<rparr>"

definition demo_fs :: "linux_dev fs" where
  "demo_fs = \<lparr>dev = demo_dev,
     drive_info = \<lparr>di_model = strncpy 33 (ascii ''mmc-emu''), di_serno = strncpy 21 (ascii ''N/A''),
       di_type = 0, di_blk_count = 8\<rparr>,
     last_error = TFS_ERR_OK, last_bitmap_blk = 0, last_bitmap_len = 8, loaded_bitmap_blk = 0,
     bitmap_blk = 3 # replicate 511 0xff, current_dir_blk = 1, loaded_dir_blk = 0,
     blk_buf = replicate 512 0, handles = replicate TFS_MAX_FDS zero_handle, after_bitmap = 0,
     after_handles = zero_handle, callbacks = []\<rparr>"

lemma demo_fields [simp]:
  "blk_count demo_fs = 8" "last_error demo_fs = TFS_ERR_OK" "last_bitmap_blk demo_fs = 0"
  "last_bitmap_len demo_fs = 8" "loaded_bitmap_blk demo_fs = 0" "current_dir_blk demo_fs = 1"
  "dev demo_fs = demo_dev" "bitmap_blk demo_fs = 3 # replicate 511 0xff" "blk_buf demo_fs = replicate 512 0"
  "handles demo_fs = replicate TFS_MAX_FDS zero_handle" "after_handles demo_fs = zero_handle"
  by (simp_all add: demo_fs_def)

lemma demo_contents:
  "linux_contents demo_dev 0 = 3 # replicate 511 0xff"
  "n \<noteq> 0 \<Longrightarrow> linux_contents demo_dev n = replicate 512 0"
proof -
  show "linux_contents demo_dev 0 = 3 # replicate 511 0xff"
    by (rule nth_equalityI) (auto simp: linux_contents_def demo_dev_def nth_Cons')
  assume "n \<noteq> 0"
  then have "1 \<le> unat n" by (simp add: Suc_leI unat_gt_0)
  then have "512 \<le> unat n * 512" by simp
  then show "linux_contents demo_dev n = replicate 512 0"
    by (intro nth_equalityI) (auto simp: linux_contents_def demo_dev_def)
qed

lemma demo_used: "n < 8 \<Longrightarrow> blk_used (linux_contents demo_dev) n \<longleftrightarrow> n < 2"
proof -
  assume n: "n < 8"
  then have u: "unat n < 8" by (simp add: word_less_nat_alt)
  have g: "GET_BITMAP_BLK n = 0" using u by (simp add: word_unat_eq_iff unat_get_bitmap)
  have "unat (n AND TFS_BITMAP_BLK_MASK) = unat n" using u by (simp add: unat_and_mask)
  then have "blk_used (linux_contents demo_dev) n \<longleftrightarrow> bit (3 :: byte) (unat n)"
    using u by (simp add: blk_used_def g demo_contents bit_at_def)
  also have "\<dots> \<longleftrightarrow> unat n < 2"
  proof -
    have "unat n \<in> {0, 1, 2, 3, 4, 5, 6, 7}" using u by auto
    then show ?thesis by (auto simp: bit_numeral_rec bit_1_iff)
  qed
  finally show ?thesis by (simp add: word_less_nat_alt)
qed

lemma demo_bitmap_only: "is_bitmap_blk n \<Longrightarrow> n < 8 \<Longrightarrow> n = 0"
  by (simp add: is_bitmap_iff word_less_nat_alt word_unat_eq_iff)

text \<open>On Linux the drive is always selected.\<close>

lemma linux_ready: "ld.ready s \<longleftrightarrow> ld.mounted s \<and> last_error s = TFS_ERR_OK"
  by (auto simp: ld.ready_def ld.mounted_def)

lemma demo_ready [simp]: "ld.ready demo_fs" "ld.mounted demo_fs"
proof -
  have "ld.io_ok demo_fs"
    by (simp add: ld.io_ok_def linux_ok_def demo_dev_def)
  moreover have "bitmap_ok (linux_contents demo_dev) demo_fs"
    using demo_used demo_bitmap_only
    by (fastforce simp: bitmap_ok_def demo_contents GET_BITMAP_BLK_def is_bitmap_blk_def)
  ultimately show "ld.ready demo_fs" by (simp add: ld.ready_def)
  then show "ld.mounted demo_fs" by (rule ld.mounted_ready)
qed

lemma demo_dir_ok [simp]: "ld.dir_ok demo_fs [1]"
  by (simp add: ld.dir_ok_def demo_contents owned_def demo_used is_bitmap_iff)

lemma demo_free: "n < 8 \<Longrightarrow> n \<in> free_set (linux_contents demo_dev) 8 \<longleftrightarrow> 2 \<le> n"
  by (simp add: free_set_def demo_used not_less)

lemma demo_lookup [simp]: "dir_lookup (linux_contents demo_dev) cmp [1] = None"
  by (auto simp: dir_lookup_def find_None_iff slot_match_def slot_free_def demo_contents)

end
