(* ===== verification/Files.thy ===== *)
theory Files
  imports Subdirs
begin

text \<open>
  Whole files: \<open>tfs_write_file\<close>, \<open>tfs_read_file\<close>, \<open>tfs_delete\<close> and \<open>tfs_rename\<close>.  The user's
  buffers are lists; the bytes that \<open>tfs_read_file\<close> stores through \<open>data\<close> are returned.  On the
  Linux target \<open>TFS_DATA_LEN\<close> has the type of \<open>sizeof\<close>, 64 bits, so that comparisons with it do
  not wrap; they are made on natural numbers here.
\<close>

section \<open>Operations\<close>

text \<open>Declared with the handles in \<open>filesys.c\<close>: the usage count of the first handle on an item of
  the loaded directory block.\<close>

definition item_usage_count :: "nat \<Rightarrow> 'd fs \<Rightarrow> byte" where
  "item_usage_count i s =
     (case find (\<lambda>h. dir_blk h = loaded_dir_blk s \<and> dir_item h = Some i) (handles s) of
        Some h \<Rightarrow> usage_count h
      | None \<Rightarrow> 0)"

text \<open>The head of the write loop: \<open>blk_len\<close>, the remaining length and \<open>next\<close>, which is 0 when
  \<open>alloc_block\<close> fails.\<close>

definition next_data_block :: "'d platform \<Rightarrow> nat \<Rightarrow> 'd fs \<Rightarrow> ((nat \<times> nat) \<times> 'd fs) option" where
  "next_data_block P len s =
     (if TFS_DATA_LEN < len
      then do {
        (n, s) \<leftarrow> alloc_block P s;
        Some ((TFS_DATA_LEN, len - TFS_DATA_LEN), s\<lparr>blk_buf := set_next (blk_buf s) n\<rparr>)
      }
      else Some ((len, 0), s\<lparr>blk_buf := set_next (blk_buf s) 0\<rparr>))"

partial_function (option) write_loop :: "'d platform \<Rightarrow> u32 \<Rightarrow> byte list \<Rightarrow> nat \<Rightarrow> 'd fs \<Rightarrow> 'd fs option" where
  "write_loop P pos data len s =
     (if pos = 0 then Some s
      else do {
        (l, s) \<leftarrow> next_data_block P len s;
        let s = s\<lparr>blk_buf := put_data (blk_buf s) 0 (take (fst l) data)\<rparr>;
            s = write_buf P pos s
        in if last_error s \<noteq> TFS_ERR_OK then Some s
           else let s = s\<lparr>blk_buf := set_prev (blk_buf s) pos\<rparr>
                in write_loop P (blk_next (blk_buf s)) (drop (fst l) data) (snd l) s
      })"

text \<open>From the test of \<open>len == 0\<close> on; \<open>store_item\<close> from the update of the item on.\<close>

definition store_item :: "'d platform \<Rightarrow> nat \<Rightarrow> byte list \<Rightarrow> byte list \<Rightarrow> u32 \<Rightarrow> u32 \<Rightarrow> 'd fs \<Rightarrow> 'd fs option" where
  "store_item P i name data len pos s =
     (let s = s\<lparr>blk_buf := fill_item i TFS_DIR_ITEM_FILE pos len name (blk_buf s)\<rparr>;
          s = write_buf P (loaded_dir_blk s) s
      in if last_error s \<noteq> TFS_ERR_OK then Some s
         else write_loop P pos data (unat len) (s\<lparr>blk_buf := set_prev (blk_buf s) 0\<rparr>))"

definition store_file :: "'d platform \<Rightarrow> nat \<Rightarrow> byte list \<Rightarrow> byte list \<Rightarrow> u32 \<Rightarrow> 'd fs \<Rightarrow> 'd fs option" where
  "store_file P i name data len s =
     (if len = 0 then store_item P i name data len 0 s
      else do {
        (pos, s) \<leftarrow> alloc_block P s;
        if last_error s \<noteq> TFS_ERR_OK then Some s else store_item P i name data len pos s
      })"

definition write_file_body :: "'d platform \<Rightarrow> byte list \<Rightarrow> byte list \<Rightarrow> u32 \<Rightarrow> bool \<Rightarrow> 'd fs \<Rightarrow> 'd fs option" where
  "write_file_body P name data len overwrite s = do {
     (item, s) \<leftarrow> find_file P name True s;
     if last_error s \<noteq> TFS_ERR_OK then Some s
     else do {
       i \<leftarrow> item;
       if item_type (blk_buf s) i \<noteq> TFS_DIR_ITEM_FREE
       then if \<not> overwrite \<or> item_type (blk_buf s) i \<noteq> TFS_DIR_ITEM_FILE
            then Some (set_error TFS_ERR_FILE_EXIST s)
            else if pf_extended_api P \<and> item_usage_count i s > 0 then Some (set_error TFS_FILE_BUSY s)
            else do {
              s \<leftarrow> free_file_blocks P (item_blk (blk_buf s) i) s;
              if last_error s \<noteq> TFS_ERR_OK then Some s
              else let s = read_buf P (loaded_dir_blk s) s
                   in if last_error s \<noteq> TFS_ERR_OK then Some s else store_file P i name data len s
            }
       else store_file P i name data len s
     }
   }"

definition tfs_write_file :: "'d platform \<Rightarrow> byte list \<Rightarrow> byte list \<Rightarrow> u32 \<Rightarrow> bool \<Rightarrow> 'd fs \<Rightarrow> 'd fs option" where
  "tfs_write_file P name data len overwrite s = api_void P (write_file_body P name data len overwrite) s"

text \<open>The read loop does not stop when \<open>rem\<close> reaches 0, only at the end of the chain.\<close>

partial_function (option) read_loop :: "'d platform \<Rightarrow> u32 \<Rightarrow> nat \<Rightarrow> byte list \<Rightarrow> 'd fs \<Rightarrow> (byte list \<times> 'd fs) option" where
  "read_loop P pos rem out s =
     (let s = read_buf P pos s
      in if last_error s \<noteq> TFS_ERR_OK then Some (out, s)
         else let blk_len = min rem TFS_DATA_LEN;
                  rem = rem - blk_len;
                  out = out @ take blk_len (data_bytes (blk_buf s));
                  pos = blk_next (blk_buf s)
              in if pos = 0
                 then Some (out, if rem > 0 then set_error TFS_ERR_UNEXP_EOF s else s)
                 else read_loop P pos rem out s)"

definition read_file_body :: "'d platform \<Rightarrow> byte list \<Rightarrow> u32 \<Rightarrow> 'd fs \<Rightarrow> ((u32 \<times> byte list) \<times> 'd fs) option" where
  "read_file_body P name max_len s = do {
     (item, s) \<leftarrow> find_file P name False s;
     if last_error s \<noteq> TFS_ERR_OK then Some ((0, []), s)
     else case item of
            None \<Rightarrow> Some ((0, []), set_error TFS_ERR_NOT_EXIST s)
          | Some i \<Rightarrow>
              if item_type (blk_buf s) i \<noteq> TFS_DIR_ITEM_FILE
              then Some ((0, []), set_error TFS_ERR_NOT_EXIST s)
              else let len = item_size (blk_buf s) i;
                       len = (if len > max_len then max_len else len)
                   in do {
                        (out, s) \<leftarrow> read_loop P (item_blk (blk_buf s) i) (unat len) [] s;
                        Some ((len, out), s)
                      }
   }"

definition tfs_read_file :: "'d platform \<Rightarrow> byte list \<Rightarrow> u32 \<Rightarrow> 'd fs \<Rightarrow> ((u32 \<times> byte list) \<times> 'd fs) option" where
  "tfs_read_file P name max_len s = api_call P (0, []) (read_file_body P name max_len) s"

text \<open>\<open>tfs_delete\<close>; \<open>type\<close> is the parameter of the extended API, without which there is no test
  of the type or of open handles.  The last branch is an item of neither type.\<close>

definition delete_body :: "'d platform \<Rightarrow> byte list \<Rightarrow> byte \<Rightarrow> 'd fs \<Rightarrow> 'd fs option" where
  "delete_body P name type s = do {
     (item, s) \<leftarrow> find_file P name False s;
     if last_error s \<noteq> TFS_ERR_OK then Some s
     else case item of
            None \<Rightarrow> Some (set_error TFS_ERR_NOT_EXIST s)
          | Some i \<Rightarrow>
              if pf_extended_api P \<and> type \<noteq> 0 \<and> item_type (blk_buf s) i \<noteq> type
              then Some (set_error TFS_ERR_NOT_EXIST s)
              else if pf_extended_api P \<and> item_usage_count i s > 0 then Some (set_error TFS_FILE_BUSY s)
              else let pos = item_blk (blk_buf s) i
                   in if item_type (blk_buf s) i = TFS_DIR_ITEM_FILE
                      then let s = s\<lparr>blk_buf := set_item_type (blk_buf s) i TFS_DIR_ITEM_FREE\<rparr>;
                               s = write_dir_cleanup P s
                           in if last_error s \<noteq> TFS_ERR_OK then Some s else free_file_blocks P pos s
                      else if item_type (blk_buf s) i = TFS_DIR_ITEM_DIR
                      then let s = read_buf P pos s
                           in if last_error s \<noteq> TFS_ERR_OK then Some s
                              else if blk_next (blk_buf s) \<noteq> 0 then Some (set_error TFS_ERR_NOT_EMPTY s)
                              else if \<not> dir_block_empty (blk_buf s) then Some (set_error TFS_ERR_NOT_EMPTY s)
                              else let s = read_buf P (loaded_dir_blk s) s
                                   in if last_error s \<noteq> TFS_ERR_OK then Some s
                                      else let s = s\<lparr>blk_buf := set_item_type (blk_buf s) i TFS_DIR_ITEM_FREE\<rparr>;
                                               s = write_dir_cleanup P s
                                           in if last_error s \<noteq> TFS_ERR_OK then Some s
                                              else Some (free_block P pos s)
                      else Some (set_error TFS_ERR_NOT_EXIST s)
   }"

definition tfs_delete :: "'d platform \<Rightarrow> byte list \<Rightarrow> byte \<Rightarrow> 'd fs \<Rightarrow> 'd fs option" where
  "tfs_delete P name type s = api_void P (delete_body P name type) s"

definition rename_body :: "'d platform \<Rightarrow> byte list \<Rightarrow> byte list \<Rightarrow> 'd fs \<Rightarrow> 'd fs option" where
  "rename_body P from to s = do {
     (item, s) \<leftarrow> find_file P to False s;
     if last_error s \<noteq> TFS_ERR_OK then Some s
     else if item \<noteq> None then Some (set_error TFS_ERR_FILE_EXIST s)
     else do {
       (item, s) \<leftarrow> find_file P from False s;
       if last_error s \<noteq> TFS_ERR_OK then Some s
       else case item of
              None \<Rightarrow> Some (set_error TFS_ERR_NOT_EXIST s)
            | Some i \<Rightarrow>
                let s = s\<lparr>blk_buf := set_item_name (blk_buf s) i to\<rparr>
                in Some (write_buf P (loaded_dir_blk s) s)
     }
   }"

definition tfs_rename :: "'d platform \<Rightarrow> byte list \<Rightarrow> byte list \<Rightarrow> 'd fs \<Rightarrow> 'd fs option" where
  "tfs_rename P from to s = api_void P (rename_body P from to) s"

section \<open>The data of a file\<close>

lemma data_bytes_put [simp]:
  assumes "length b = TFS_BLOCKSIZE" and "length xs \<le> TFS_DATA_LEN"
  shows "take (length xs) (data_bytes (put_data b 0 xs)) = xs"
  using assms put_bytes_same[of 8 xs b] by (simp add: data_bytes_def put_data_def)

lemma data_bytes_put_full [simp]:
  assumes "length b = TFS_BLOCKSIZE" and "length xs = TFS_DATA_LEN"
  shows "data_bytes (put_data b 0 xs) = xs"
  using data_bytes_put[of b xs] assms by simp

lemma data_bytes_headers [simp]:
  assumes "length b = TFS_BLOCKSIZE"
  shows "data_bytes (set_prev b v) = data_bytes b" "data_bytes (set_next b v) = data_bytes b"
  using assms by (auto simp: data_bytes_def set_prev_def set_next_def put_bytes_def)

abbreviation blocks_for :: "nat \<Rightarrow> nat" where
  "blocks_for n \<equiv> (n + 503) div 504"

context block_device
begin

lemma write_keeps:
  assumes "io_ok s" and "bitmap_ok (cont s) s" and "n < blk_count s" and "\<not> is_bitmap_blk n"
  shows "cont (write_buf P n s) = (cont s)(n := blk_buf s)" "io_ok (write_buf P n s)"
    "bitmap_ok (cont (write_buf P n s)) (write_buf P n s)" "last_error (write_buf P n s) = last_error s"
proof -
  show c: "cont (write_buf P n s) = (cont s)(n := blk_buf s)" "io_ok (write_buf P n s)"
    "last_error (write_buf P n s) = last_error s"
    using assms by (simp_all add: write_buf_def)
  show "bitmap_ok (cont (write_buf P n s)) (write_buf P n s)"
    by (rule bitmap_ok_frame[OF assms(2)]) (use c assms(4) in auto)
qed

text \<open>
  \<open>stored s s' pos xs data\<close>: the chain \<open>xs\<close> from \<open>pos\<close> on holds as much of \<open>data\<close> as fits in its
  blocks, all but the first of which were free, and nothing else but the bitmap changed.
\<close>

definition stored :: "'d fs \<Rightarrow> 'd fs \<Rightarrow> u32 \<Rightarrow> u32 list \<Rightarrow> byte list \<Rightarrow> bool" where
  "stored s s' pos xs data \<longleftrightarrow>
     io_ok s' \<and> bitmap_ok (cont s') s' \<and> fs_frame s s' \<and> loaded_dir_blk s' = loaded_dir_blk s \<and>
     chain (cont s') pos xs \<and> back_links (cont s') (blk_prev (blk_buf s)) xs \<and>
     (\<forall>n \<in> set (tl xs). \<not> blk_used (cont s) n \<and> n < blk_count s \<and> \<not> is_bitmap_blk n) \<and>
     (\<forall>n. blk_used (cont s') n \<longleftrightarrow> blk_used (cont s) n \<or> n \<in> set xs) \<and>
     (\<forall>n. \<not> is_bitmap_blk n \<longrightarrow> n \<notin> set xs \<longrightarrow> cont s' n = cont s n) \<and>
     take (length data) (chain_data (cont s') xs) = take (504 * length xs) data \<and>
     (if length xs = blocks_for (length data) then last_error s' = TFS_ERR_OK
      else length xs < blocks_for (length data) \<and> last_error s' = TFS_ERR_DISK_FULL \<and>
           free_set (cont s') (blk_count s') = {})"

text \<open>What is left of it once the blocks that changed are accounted for elsewhere.\<close>

definition written :: "'d fs \<Rightarrow> u32 \<Rightarrow> u32 list \<Rightarrow> byte list \<Rightarrow> bool" where
  "written s' pos xs data \<longleftrightarrow> mounted s' \<and>
     chain (cont s') pos xs \<and> back_links (cont s') 0 xs \<and>
     take (length data) (chain_data (cont s') xs) = take (504 * length xs) data \<and>
     (if length xs = blocks_for (length data) then last_error s' = TFS_ERR_OK
      else length xs < blocks_for (length data) \<and> last_error s' = TFS_ERR_DISK_FULL \<and>
           free_set (cont s') (blk_count s') = {})"

lemma written_stored:
  "stored s s' pos xs data \<Longrightarrow> blk_prev (blk_buf s) = 0 \<Longrightarrow> written s' pos xs data"
  unfolding stored_def written_def mounted_def by (simp split: if_splits)

lemma written_empty: "ready s \<Longrightarrow> written s 0 [] []"
  using readyD(3)[of s] mounted_ready[of s] by (simp add: written_def)

lemma written_deselect [simp]: "written s pos xs data \<Longrightarrow> written (drive_deselect P s) pos xs data"
  by (simp add: written_def)

lemma length_chain_data [simp]: "length (chain_data (cont s) xs) = 504 * length xs"
  by (induction xs) simp_all

lemma write_loop_spec:
  assumes "ready s" and "pos \<noteq> 0" "pos < blk_count s" "\<not> is_bitmap_blk pos" "blk_used (cont s) pos"
    and "data \<noteq> []"
  shows "\<exists>xs s'. write_loop P pos data (length data) s = Some s' \<and> stored s s' pos xs data"
  using assms
proof (induction "length data" arbitrary: s pos data rule: less_induct)
  case less
  have buf: "length (blk_buf s) = TFS_BLOCKSIZE" using less.prems(1) by simp
  show ?case
  proof (cases "length data \<le> TFS_DATA_LEN")
    case True
    define b where "b = put_data (set_next (blk_buf s) 0) 0 data"
    define s1 where "s1 = write_buf P pos (s\<lparr>blk_buf := b\<rparr>)"
    define s2 where "s2 = s1\<lparr>blk_buf := set_prev b pos\<rparr>"
    have lb: "length b = TFS_BLOCKSIZE" "blk_next b = 0" "blk_prev b = blk_prev (blk_buf s)"
      "take (length data) (data_bytes b) = data"
      using buf True by (simp_all add: b_def)
    have s1: "ready s1" "cont s1 = (cont s)(pos := b)" "fs_frame s s1" "loaded_dir_blk s1 = loaded_dir_blk s"
      "blk_buf s1 = b"
      using less.prems lb by (simp_all add: s1_def)
    have s2: "ready s2" "cont s2 = (cont s)(pos := b)" "fs_frame s s2" "loaded_dir_blk s2 = loaded_dir_blk s"
      "blk_next (blk_buf s2) = 0"
      using s1 lb by (simp_all add: s2_def)
    have "write_loop P pos data (length data) s = write_loop P 0 (drop (length data) data) 0 s2"
      using less.prems(2) True readyD(3)[OF s1(1)] s1(5) lb(1,2)
      by (simp add: write_loop.simps[of P pos data] next_data_block_def Let_def flip: b_def)
        (simp add: s1_def[symmetric] s2_def)
    then have "write_loop P pos data (length data) s = Some s2" by (simp add: write_loop.simps[of P 0])
    moreover have "0 < length data" using less.prems(6) by simp
    then have bf: "blocks_for (length data) = Suc 0" using True by (intro div_nat_eqI) (simp_all add: Suc_le_eq)
    moreover have "bitmap_ok ((cont s)(pos := b)) s2" using readyD(2)[OF s2(1)] s2(2) by simp
    then have "stored s s2 pos [pos] data"
      using s2 lb less.prems True bf
      by (auto simp: stored_def readyD blk_used_upd fs_frameD[OF s2(3)])
    ultimately show ?thesis by blast
  next
    case False
    then have len: "TFS_DATA_LEN < length data" by simp
    let ?d = "take TFS_DATA_LEN data" and ?r = "drop TFS_DATA_LEN data"
    have bf: "blocks_for (length data) = Suc (blocks_for (length ?r))"
      using len by (simp add: div_add_self1[of 504, symmetric])
    have r: "?r \<noteq> []" "length ?r < length data" using len by simp_all
    show ?thesis using less.prems(1)
    proof (cases rule: alloc_ready)
      case (full s1)
      define b where "b = put_data (set_next (blk_buf s) 0) 0 ?d"
      define s2 where "s2 = write_buf P pos (s1\<lparr>blk_buf := b\<rparr>)"
      have f1: "fs_frame s s1" "blk_buf s1 = blk_buf s" "loaded_dir_blk s1 = loaded_dir_blk s"
        "drive_info s1 = drive_info s"
        using bitmap_fs_frame[OF full(5)] bitmap_frameD[OF full(5)] by simp_all
      have lb: "length b = TFS_BLOCKSIZE" "blk_next b = 0" "blk_prev b = blk_prev (blk_buf s)" "data_bytes b = ?d"
        using buf len by (simp_all add: b_def)
      have pre: "io_ok (s1\<lparr>blk_buf := b\<rparr>)" "bitmap_ok (cont s1) (s1\<lparr>blk_buf := b\<rparr>)"
        using full(6,7) lb bitmap_ok_frame[of "cont s1" s1 "s1\<lparr>blk_buf := b\<rparr>" "cont s1"] by simp_all
      note w = write_keeps[of "s1\<lparr>blk_buf := b\<rparr>" pos, folded s2_def]
      have s2: "io_ok s2" "bitmap_ok (cont s2) s2" "cont s2 = (cont s)(pos := b)" "last_error s2 = TFS_ERR_DISK_FULL"
        "fs_frame s s2" "loaded_dir_blk s2 = loaded_dir_blk s" "blk_count s2 = blk_count s"
        using w pre less.prems full f1 by (simp_all add: s2_def)
      have "write_loop P pos data (length data) s = Some s2"
        using less.prems(2) len full f1 s2(4)
        by (simp add: write_loop.simps[of P pos data] next_data_block_def Let_def flip: b_def) (simp add: s2_def)
      moreover have "stored s s2 pos [pos] data"
        using s2 lb less.prems len bf r full(2)
        by (auto simp: stored_def blk_used_upd free_set_def)
      ultimately show ?thesis by blast
    next
      case (ok n s1)
      define b where "b = put_data (set_next (blk_buf s) n) 0 ?d"
      define s2 where "s2 = write_buf P pos (s1\<lparr>blk_buf := b\<rparr>)"
      define s3 where "s3 = s2\<lparr>blk_buf := set_prev b pos\<rparr>"
      have f1: "fs_frame s s1" "blk_buf s1 = blk_buf s" "loaded_dir_blk s1 = loaded_dir_blk s"
        "drive_info s1 = drive_info s"
        using bitmap_fs_frame[OF ok(3)] bitmap_frameD[OF ok(3)] by simp_all
      have lb: "length b = TFS_BLOCKSIZE" "blk_next b = n" "blk_prev b = blk_prev (blk_buf s)" "data_bytes b = ?d"
        using buf len by (simp_all add: b_def)
      have s2: "ready s2" "cont s2 = (cont s1)(pos := b)" "fs_frame s s2" "loaded_dir_blk s2 = loaded_dir_blk s"
        "blk_buf s2 = b"
        using less.prems lb ok(2) f1 by (simp_all add: s2_def)
      have s3: "ready s3" "cont s3 = (cont s1)(pos := b)" "fs_frame s s3" "loaded_dir_blk s3 = loaded_dir_blk s"
        "blk_next (blk_buf s3) = n" "blk_prev (blk_buf s3) = pos"
        using s2 lb by (simp_all add: s3_def)
      have u3: "blk_used (cont s3) m \<longleftrightarrow> blk_used (cont s) m \<or> m = n" for m
        using less.prems(4) ok(9) by (simp add: s3(2) blk_used_upd)
      have step: "write_loop P pos data (length data) s = write_loop P n ?r (length ?r) s3"
        using less.prems(2) len ok(1) f1(2) readyD(3)[OF s2(1)] s2(5) lb(1,2)
        by (simp add: write_loop.simps[of P pos data] next_data_block_def Let_def flip: b_def)
          (simp add: s2_def[symmetric] s3_def)
      have nc: "n < blk_count s3" "blk_used (cont s3) n" using ok(4) u3 by (simp_all add: fs_frameD[OF s3(3)])
      obtain xs s' where x: "write_loop P n ?r (length ?r) s3 = Some s'" "stored s3 s' n xs ?r"
        using less.hyps[OF r(2) s3(1) ok(7) nc(1) ok(6) nc(2) r(1)] by blast
      have x2: "chain (cont s') n xs" "\<forall>m \<in> set (tl xs). \<not> blk_used (cont s3) m \<and> m < blk_count s3 \<and> \<not> is_bitmap_blk m"
        "\<forall>m. \<not> is_bitmap_blk m \<longrightarrow> m \<notin> set xs \<longrightarrow> cont s' m = cont s3 m"
        using x(2) by (simp_all add: stored_def)
      obtain ys where xs: "xs = n # ys" using x2(1) ok(7) by (cases xs) auto
      have new: "\<forall>m \<in> set xs. \<not> blk_used (cont s) m \<and> m < blk_count s \<and> \<not> is_bitmap_blk m"
        using x2(2) ok(4-6) u3 xs by (auto simp: fs_frameD[OF s3(3)])
      then have px: "pos \<notin> set xs" using less.prems(5) by blast
      then have cp: "cont s' pos = b" using x2(3) less.prems(4) s3(2) by simp
      have other: "cont s' m = cont s m" if "\<not> is_bitmap_blk m" "m \<notin> set (pos # xs)" for m
        using that x2(3) ok(8) s3(2) by simp
      have dat: "take (length data) (chain_data (cont s') (pos # xs)) = take (504 * length (pos # xs)) data"
      proof -
        have "take (length ?r) (chain_data (cont s') xs) = take (504 * length xs) ?r"
          using x(2) by (simp add: stored_def)
        then show ?thesis using len lb(4) cp by (simp add: take_add)
      qed
      have "stored s s' pos (pos # xs) data"
        unfolding stored_def
      proof (intro conjI)
        show "fs_frame s s'" using x(2) fs_frame_trans[OF s3(3)] by (simp add: stored_def)
        show "chain (cont s') pos (pos # xs)" using x2(1) less.prems(2) cp lb(2) by simp
        show "back_links (cont s') (blk_prev (blk_buf s)) (pos # xs)"
          using x(2) s3(6) cp lb(3) by (simp add: stored_def)
        show "\<forall>m. blk_used (cont s') m \<longleftrightarrow> blk_used (cont s) m \<or> m \<in> set (pos # xs)"
          using x(2) u3 xs less.prems(5) by (auto simp: stored_def)
        show "if length (pos # xs) = blocks_for (length data) then last_error s' = TFS_ERR_OK
          else length (pos # xs) < blocks_for (length data) \<and> last_error s' = TFS_ERR_DISK_FULL \<and>
            free_set (cont s') (blk_count s') = {}"
          using x(2) unfolding stored_def bf length_Cons nat.inject Suc_less_eq by blast
      qed (use x(2) new s3(4) other dat in \<open>auto simp: stored_def\<close>)
      with step x(1) show ?thesis by auto
    qed
  qed
qed


lemma read_loop_spec:
  assumes "ready s" and "chain (cont s) pos xs" and "xs \<noteq> []" and "\<forall>x \<in> set xs. x < blk_count s"
  shows "\<exists>s'. read_loop P pos n out s = Some (out @ take n (chain_data (cont s) xs), s')
    \<and> mounted s' \<and> fs_frame s s' \<and> cont s' = cont s
    \<and> last_error s' = (if n \<le> 504 * length xs then TFS_ERR_OK else TFS_ERR_UNEXP_EOF)"
  using assms
proof (induction xs arbitrary: pos n out s)
  case (Cons x xs)
  let ?s1 = "read_buf P x s" and ?n = "n - min n 504" and ?nx = "blk_next (cont s x)"
  let ?o = "out @ take (min n 504) (data_bytes (cont s x))"
  have x: "pos = x" "x < blk_count s" using Cons.prems by auto
  have s1: "ready ?s1" "cont ?s1 = cont s" "blk_buf ?s1 = cont s x" "fs_frame s ?s1"
    using Cons.prems(1) x by simp_all
  have step: "read_loop P pos n out s =
      (if ?nx = 0 then Some (?o, if ?n > 0 then set_error TFS_ERR_UNEXP_EOF ?s1 else ?s1)
       else read_loop P ?nx ?n ?o ?s1)"
    using x Cons.prems(1) s1 readyD(3)[OF s1(1)] by (subst read_loop.simps) (simp add: Let_def)
  have o: "?o = out @ take n (data_bytes (cont s x))" by (simp add: min_def)
  show ?case
  proof (cases "xs = []")
    case True
    then have "?nx = 0" using Cons.prems(2) by simp
    with step s1 True mounted_ready[OF s1(1)] mounted_set_error[OF s1(1)] show ?thesis
      by (auto simp: o readyD)
  next
    case False
    have nx: "?nx \<noteq> 0" "chain (cont ?s1) ?nx xs" using Cons.prems(2) False s1(2) by (cases xs; auto)+
    have r: "\<forall>y \<in> set xs. y < blk_count ?s1" using Cons.prems(4) by simp
    obtain s' where s': "read_loop P ?nx ?n ?o ?s1 = Some (?o @ take ?n (chain_data (cont ?s1) xs), s')"
      "mounted s'" "fs_frame ?s1 s'" "cont s' = cont ?s1"
      "last_error s' = (if ?n \<le> 504 * length xs then TFS_ERR_OK else TFS_ERR_UNEXP_EOF)"
      using Cons.IH[OF s1(1) nx(2) False r, of ?n ?o] by blast
    have "?n \<le> 504 * length xs \<longleftrightarrow> n \<le> 504 * length (x # xs)" by auto
    with s' step nx(1) s1 fs_frame_trans[OF s1(4) s'(3)] show ?thesis
      by (auto simp: o min_def)
  qed
qed simp

text \<open>The item \<open>it\<close> is a file whose blocks \<open>xs\<close> hold the bytes \<open>bs\<close>.\<close>

end

definition file_holds :: "(u32 \<Rightarrow> block) \<Rightarrow> dir_item \<Rightarrow> u32 list \<Rightarrow> byte list \<Rightarrow> bool" where
  "file_holds C it xs bs \<longleftrightarrow> it_type it = TFS_DIR_ITEM_FILE \<and> unat (it_size it) = length bs \<and>
     chain C (it_blk it) xs \<and> back_links C 0 xs \<and> length xs = blocks_for (length bs) \<and>
     take (length bs) (chain_data C xs) = bs"

lemma file_holds_cong:
  assumes "\<And>x. x \<in> set xs \<Longrightarrow> C' x = C x"
  shows "file_holds C' it xs bs = file_holds C it xs bs"
  using assms chain_cong[of xs C' C] chain_data_cong[of xs C' C] back_links_cong[of xs C' C]
  by (simp add: file_holds_def)

lemma blocks_for_enough: "n \<le> 504 * blocks_for n"
proof -
  have "n + 503 = (n + 503) div 504 * 504 + (n + 503) mod 504" by (rule div_mult_mod_eq[symmetric])
  moreover have "(n + 503) mod 504 < 504" by (rule mod_less_divisor) simp
  ultimately show ?thesis by linarith
qed

end
