(* ===== verification/File_Ops.thy ===== *)
theory File_Ops
  imports Files
begin

text \<open>
  What the whole-file functions of the public interface do on a working drive:
  \<open>tfs_write_file\<close> for a new name and for an existing file, and \<open>tfs_read_file\<close>.
\<close>

context block_device
begin

section \<open>A new file\<close>

lemma entered_last_error: "last_error (entered s) = TFS_ERR_OK"
  by simp

text \<open>Everything from the free slot on: the entry is in place, and its chain holds the data or as
  much of it as there was room for.\<close>

lemma store_item_new:
  assumes f: "free_slot s s1 ds ds' d i A" and len: "length data = unat len"
    and A: "if len = 0 then pos = 0 \<and> A = {} else pos \<noteq> 0 \<and> A = {pos}"
  shows "\<exists>xs s2. store_item P i name data len pos s1 = Some s2 \<and>
    entry_added s s2 ds ds' \<lparr>it_blk = pos, it_size = len, it_type = TFS_DIR_ITEM_FILE,
      it_name = strncpy TFS_NAME_LEN name\<rparr> (set xs) \<and> written s2 pos xs data"
proof -
  let ?it = "\<lparr>it_blk = pos, it_size = len, it_type = TFS_DIR_ITEM_FILE, it_name = strncpy TFS_NAME_LEN name\<rparr>"
  define s2 where "s2 = write_buf P d (s1\<lparr>blk_buf := fill_item i TFS_DIR_ITEM_FILE pos len name (blk_buf s1)\<rparr>)"
  have t: "TFS_DIR_ITEM_FILE \<noteq> TFS_DIR_ITEM_FREE" by simp
  note f2 = free_slot_fill[OF f t s2_def]
  define s3 where "s3 = s2\<lparr>blk_buf := set_prev (blk_buf s2) 0\<rparr>"
  have s1: "ready s1" "loaded_dir_blk s1 = d" using f by (simp_all add: free_slot_def)
  have s3: "ready s3" "cont s3 = cont s2" "fs_frame s2 s3" "blk_prev (blk_buf s3) = 0"
    using f2(1) by (simp_all add: s3_def)
  have step: "store_item P i name data len pos s1 = write_loop P pos data (length data) s3"
    using s1 readyD(3)[OF f2(1)] len by (simp add: store_item_def Let_def flip: s2_def) (simp add: s3_def)
  have g2: "dir_grown s s2 ds ds' A" using f2(4) by (simp add: entry_added_def)
  show ?thesis
  proof (cases "len = 0")
    case True
    then have p: "pos = 0" "A = {}" "data = []" using A len by simp_all
    have "entry_added s s3 ds ds' ?it (A \<union> {})"
      by (rule entry_added_step[OF f2(4) s3(3)]) (simp_all add: s3(2))
    moreover have "store_item P i name data len pos s1 = Some s3"
      using step p by (simp add: write_loop.simps[of P 0])
    ultimately show ?thesis using p written_empty[OF s3(1)]
      by (intro exI[of _ "[]"] exI[of _ s3]) simp
  next
    case False
    then have p: "pos \<noteq> 0" "A = {pos}" "data \<noteq> []" using A len by (auto simp: unat_eq_0)
    have pn: "pos < blk_count s" "\<not> is_bitmap_blk pos" "blk_used (cont s2) pos" "\<not> blk_used (cont s) pos"
      using g2 p(2) by (simp_all add: dir_grown_def)
    have cnt: "blk_count s3 = blk_count s"
      using g2 fs_frameD(1)[OF s3(3)] by (simp add: dir_grown_def fs_frame_def)
    have "\<exists>xs s'. write_loop P pos data (length data) s3 = Some s' \<and> stored s3 s' pos xs data"
      by (rule write_loop_spec[OF s3(1) p(1) _ pn(2) _ p(3)]) (use pn cnt s3(2) in simp_all)
    then obtain xs s4 where w: "write_loop P pos data (length data) s3 = Some s4" and st: "stored s3 s4 pos xs data"
      by blast
    have ch: "chain (cont s4) pos xs" using st by (simp add: stored_def)
    obtain ys where xs: "xs = pos # ys" using ch p(1) by (cases xs) auto
    have new: "\<forall>n \<in> set ys. \<not> blk_used (cont s2) n \<and> n < blk_count s \<and> \<not> is_bitmap_blk n"
      using st xs cnt s3(2) by (simp add: stored_def)
    have e: "entry_added s s4 ds ds' ?it ({pos} \<union> set ys)"
    proof (rule entry_added_step[OF f2(4)[unfolded p(2)]])
      show "fs_frame s2 s4" using st fs_frame_trans[OF s3(3)] by (simp add: stored_def)
      show "cont s4 n = cont s2 n" if "\<not> is_bitmap_blk n" "n \<notin> {pos} \<union> set ys" for n
        using st that s3(2) xs by (simp add: stored_def)
      show "blk_used (cont s4) n \<longleftrightarrow> blk_used (cont s2) n \<or> n \<in> set ys" for n
        using st s3(2) xs pn(3) by (auto simp: stored_def)
      show "\<not> blk_used (cont s2) n \<and> n < blk_count s \<and> \<not> is_bitmap_blk n \<and> n \<noteq> 0" if "n \<in> set ys" for n
        using new that chain_nonzero[OF ch] xs by simp
    qed
    have "{pos} \<union> set ys = set xs" by (simp add: xs)
    then show ?thesis using e w step written_stored[OF st s3(4)]
      by (intro exI[of _ xs] exI[of _ s4]) simp
  qed
qed

lemma write_new_cases:
  assumes "mounted s" and "dir_ok s ds" and "c_at name 0 \<noteq> 0" and "length data = unat len"
    and "dir_lookup (cont s) (pf_filename_cmp P name) ds = None"
  obtains (full) ds' s' where "tfs_write_file P name data len ov s = Some s'" "mounted s'"
      "last_error s' = TFS_ERR_DISK_FULL" "free_set (cont s') (blk_count s') = {}" "dir_grown s s' ds ds' {}"
      "\<And>cmp. dir_find (cont s') cmp ds' = dir_find (cont s) cmp ds"
  | (stored) ds' pos xs s' where "tfs_write_file P name data len ov s = Some s'"
      "entry_added s s' ds ds' \<lparr>it_blk = pos, it_size = len, it_type = TFS_DIR_ITEM_FILE,
         it_name = strncpy TFS_NAME_LEN name\<rparr> (set xs)"
      "written s' pos xs data"
proof -
  note [simp] = assms(1) mounted_select[OF assms(1)]
  let ?body = "write_file_body P name data len ov"
  have r: "ready (entered s)" and dk: "dir_ok (entered s) ds"
    and lk: "dir_lookup (cont (entered s)) (pf_filename_cmp P name) ds = None"
    using assms by (simp_all add: ready_entered)
  show thesis using r dk assms(3) lk
  proof (cases rule: find_free_slot)
    case (full s1)
    then have "?body (entered s) = Some s1" by (simp add: write_file_body_def)
    note e = api_void_mounted[where body = ?body, OF assms(1) this]
    have "dir_grown s s1 ds ds {}" using full assms(2) by (intro dir_grown_refl) simp_all
    with full e show thesis
      by (intro that(1)[of "drive_deselect P s1" ds])
        (simp_all add: tfs_write_file_def mounted_def fs_frameD[OF full(5)])
  next
    case (slot ds' d i s1)
    have s1: "ready s1" "dir_grown s s1 ds ds' {}" "blk_buf s1 = cont s1 d"
        "item_type (cont s1 d) i = TFS_DIR_ITEM_FREE"
      using slot(2) by (simp_all add: free_slot_def)
    have fd: "dir_find (cont s1) cmp ds' = dir_find (cont s) cmp ds" for cmp
      using slot(2) by (simp add: free_slot_def)
    have body: "?body (entered s) = store_file P i name data len s1"
      using slot(1) s1 readyD(3)[OF s1(1)] by (simp add: write_file_body_def)
    have fin: thesis if f: "free_slot (entered s) s2 ds ds' d i A" and st: "?body (entered s) = store_item P i name data len pos s2"
      and A: "if len = 0 then pos = 0 \<and> A = {} else pos \<noteq> 0 \<and> A = {pos}" for pos s2 A
    proof -
      obtain xs s3 where x: "store_item P i name data len pos s2 = Some s3" "written s3 pos xs data"
        "entry_added s s3 ds ds' \<lparr>it_blk = pos, it_size = len, it_type = TFS_DIR_ITEM_FILE,
           it_name = strncpy TFS_NAME_LEN name\<rparr> (set xs)"
        using store_item_new[where name = name, OF f assms(4) A] by auto
      have "tfs_write_file P name data len ov s = Some (drive_deselect P s3)"
        using api_void_mounted[where body = ?body, OF assms(1)] st x(1) by (simp add: tfs_write_file_def)
      then show thesis using x by (intro stored[of "drive_deselect P s3" ds' pos xs]) simp_all
    qed
    show thesis
    proof (cases "len = 0")
      case True
      then show thesis using body slot(2) by (intro fin[where A = "{}" and pos = 0, OF slot(2)]) (simp_all add: store_file_def)
    next
      case False
      show thesis using s1(1)
      proof (cases rule: alloc_ready)
        case (full s2)
        then have "?body (entered s) = Some s2" using body False by (simp add: store_file_def)
        note e = api_void_mounted[where body = ?body, OF assms(1) this]
        have g2: "dir_grown s s2 ds ds' ({} \<union> {})"
          by (rule dir_grown_step(1)[OF s1(2) bitmap_fs_frame[OF full(5)]]) (use full in simp_all)
        show thesis using full e g2 fd
          by (intro that(1)[of "drive_deselect P s2" ds'])
            (simp_all add: tfs_write_file_def mounted_def bitmap_frameD[OF full(5)])
      next
        case (ok b s2)
        have f2: "free_slot (entered s) s2 ds ds' d i (insert b {})"
          by (rule free_slot_alloc[OF slot(2) ok(2,3,4,5,6,7)]) (use ok in simp_all)
        show thesis
          by (rule fin[OF f2]) (use ok body False readyD(3)[OF ok(2)] in \<open>simp_all add: store_file_def\<close>)
      qed
    qed
  qed
qed

section \<open>Reading\<close>

lemma read_file_cases:
  assumes "mounted s" and "dir_ok s ds" and "c_at name 0 \<noteq> 0"
    and isf: "\<And>it. dir_find (cont s) (pf_filename_cmp P name) ds = Some it \<Longrightarrow> it_type it = TFS_DIR_ITEM_FILE \<Longrightarrow>
      \<exists>xs. chain (cont s) (it_blk it) xs \<and> xs \<noteq> [] \<and> (\<forall>x \<in> set xs. x < blk_count s)"
  obtains (none) s' where "\<forall>it. dir_find (cont s) (pf_filename_cmp P name) ds = Some it \<longrightarrow> it_type it \<noteq> TFS_DIR_ITEM_FILE"
      "tfs_read_file P name max_len s = Some ((0, []), s')" "last_error s' = TFS_ERR_NOT_EXIST"
      "mounted s'" "fs_frame s s'" "cont s' = cont s"
  | (data) it xs s' where "dir_find (cont s) (pf_filename_cmp P name) ds = Some it"
      "it_type it = TFS_DIR_ITEM_FILE" "chain (cont s) (it_blk it) xs" "xs \<noteq> []"
      "tfs_read_file P name max_len s = Some ((min (it_size it) max_len,
         take (unat (min (it_size it) max_len)) (chain_data (cont s) xs)), s')"
      "last_error s' = (if unat (min (it_size it) max_len) \<le> 504 * length xs then TFS_ERR_OK else TFS_ERR_UNEXP_EOF)"
      "mounted s'" "fs_frame s s'" "cont s' = cont s"
proof -
  note [simp] = assms(1) mounted_select[OF assms(1)]
  let ?body = "read_file_body P name max_len"
  have r: "ready (entered s)" and dk: "dir_ok (entered s) ds"
    using assms by (simp_all add: ready_entered)
  have miss: thesis if n: "\<forall>it. dir_find (cont s) (pf_filename_cmp P name) ds = Some it \<longrightarrow> it_type it \<noteq> TFS_DIR_ITEM_FILE"
    and b: "?body (entered s) = Some ((0, []), set_error TFS_ERR_NOT_EXIST s1)"
    and s1: "ready s1" "fs_frame s s1" "cont s1 = cont s" for s1
    using api_call_mounted[where body = ?body, OF assms(1) b, of "(0, [])"] n s1 mounted_set_error[OF s1(1)]
    by (intro none[of "drive_deselect P (set_error TFS_ERR_NOT_EXIST s1)"]) (simp_all add: tfs_read_file_def)
  show thesis using r dk assms(3)
  proof (cases rule: find_file_cases[where want = False])
    case (found d i s1)
    let ?it = "get_item (cont s d) i"
    have df: "dir_find (cont s) (pf_filename_cmp P name) ds = Some ?it"
      using found(1) by (simp add: dir_find_def slot_item_def)
    show thesis
    proof (cases "item_type (cont s d) i = TFS_DIR_ITEM_FILE")
      case True
      obtain xs where xs: "chain (cont s) (it_blk ?it) xs" "xs \<noteq> []" "\<forall>x \<in> set xs. x < blk_count s"
        using isf[OF df] True by auto
      let ?len = "min (it_size ?it) max_len"
      have "chain (cont s1) (it_blk ?it) xs" "\<forall>x \<in> set xs. x < blk_count s1"
        using xs found(5) fs_frameD(1)[OF found(4)] by simp_all
      from read_loop_spec[OF found(3) this(1) xs(2) this(2), of "unat ?len" "[]"]
      obtain s2 where s2: "read_loop P (it_blk ?it) (unat ?len) [] s1 = Some (take (unat ?len) (chain_data (cont s) xs), s2)"
        "mounted s2" "fs_frame s1 s2" "cont s2 = cont s"
        "last_error s2 = (if unat ?len \<le> 504 * length xs then TFS_ERR_OK else TFS_ERR_UNEXP_EOF)"
        using found(5) by auto
      have "?body (entered s) = Some ((?len, take (unat ?len) (chain_data (cont s) xs)), s2)"
        using found True readyD(3)[OF found(3)] s2(1)
        by (simp add: read_file_body_def Let_def min_def not_le[symmetric] split: if_splits)
      note e = api_call_mounted[where body = ?body, OF assms(1) this, of "(0, [])"]
      show thesis using df True xs e s2 fs_frame_trans[OF found(4) s2(3)]
        by (intro that(2)[of ?it xs "drive_deselect P s2"]) (simp_all add: tfs_read_file_def)
    next
      case False
      with df found readyD(3)[OF found(3)] show thesis
        by (intro miss[of s1]) (simp_all add: read_file_body_def)
    qed
  next
    case (absent s1)
    with readyD(3)[OF absent(4)] show thesis
      by (intro miss[of s1]) (simp_all add: read_file_body_def dir_find_def)
  qed simp_all
qed

end

end
