(* ===== verification/Overwrite.thy ===== *)
theory Overwrite
  imports File_Ops
begin

text \<open>
  \<open>tfs_write_file\<close> on a name that exists: refused unless overwriting is asked for and the item is
  a file that nobody has open; otherwise the old blocks are freed and the item is rewritten in
  its slot.
\<close>

text \<open>How often the item in slot \<open>i\<close> of block \<open>d\<close> is open, by the first handle on it.\<close>

definition usage_at :: "filehandle list \<Rightarrow> u32 \<Rightarrow> nat \<Rightarrow> byte" where
  "usage_at hs d i =
     (case find (\<lambda>h. dir_blk h = d \<and> dir_item h = Some i) hs of Some h \<Rightarrow> usage_count h | None \<Rightarrow> 0)"

lemma item_usage_count_at: "item_usage_count i s = usage_at (handles s) (loaded_dir_blk s) i"
  by (simp add: item_usage_count_def usage_at_def)

context block_device
begin

text \<open>
  \<open>replaced s s' ds d i it zs xs\<close>: slot \<open>(d, i)\<close> of the directory now holds \<open>it\<close>, the blocks \<open>zs\<close>
  were given back and \<open>xs\<close> taken, and nothing else outside the bitmap changed.
\<close>

definition replaced :: "'d fs \<Rightarrow> 'd fs \<Rightarrow> u32 list \<Rightarrow> u32 \<Rightarrow> nat \<Rightarrow> dir_item \<Rightarrow> u32 set \<Rightarrow> u32 set \<Rightarrow> bool" where
  "replaced s s' ds d i it zs xs \<longleftrightarrow> fs_frame s s' \<and> dir_ok s' ds \<and>
     (\<forall>n. \<not> is_bitmap_blk n \<longrightarrow> n \<noteq> d \<longrightarrow> n \<notin> xs \<longrightarrow> cont s' n = cont s n) \<and>
     get_item (cont s' d) i = it \<and>
     (\<forall>e \<in> set ds. \<forall>j < TFS_DIR_BLK_ITEMS. (e, j) \<noteq> (d, i) \<longrightarrow> get_item (cont s' e) j = get_item (cont s e) j) \<and>
     (\<forall>n. blk_used (cont s') n \<longleftrightarrow> blk_used (cont s) n \<and> n \<notin> zs \<or> n \<in> xs) \<and>
     (\<forall>n \<in> xs. (\<not> blk_used (cont s) n \<or> n \<in> zs) \<and> n < blk_count s \<and> \<not> is_bitmap_blk n \<and> n \<notin> set ds)"

lemma replaced_entered [simp]:
  "mounted s \<Longrightarrow> replaced (entered s) s' ds d i it zs xs = replaced s s' ds d i it zs xs"
  "replaced s (drive_deselect P s') ds d i it zs xs = replaced s s' ds d i it zs xs"
  by (simp_all add: replaced_def)

text \<open>The rewritten slot, before the data is written.\<close>

lemma replaced_fill:
  assumes "ready s1" and fr: "fs_frame s s1" and "dir_ok s1 ds" and d: "d \<in> set ds" "i < TFS_DIR_BLK_ITEMS"
    and buf: "blk_buf s1 = cont s1 d" "loaded_dir_blk s1 = d"
    and s2: "s2 = write_buf P d (s1\<lparr>blk_buf := fill_item i t n sz name (blk_buf s1)\<rparr>)"
    and c: "\<And>m. \<not> is_bitmap_blk m \<Longrightarrow> cont s1 m = cont s m"
    and u: "\<And>m. blk_used (cont s1) m \<longleftrightarrow> blk_used (cont s) m \<and> m \<notin> zs \<or> m \<in> A"
    and A: "\<And>m. m \<in> A \<Longrightarrow> (\<not> blk_used (cont s) m \<or> m \<in> zs) \<and> m < blk_count s \<and> \<not> is_bitmap_blk m \<and> m \<notin> set ds"
  shows "ready s2" "loaded_dir_blk s2 = d"
    "replaced s s2 ds d i \<lparr>it_blk = n, it_size = sz, it_type = t, it_name = strncpy TFS_NAME_LEN name\<rparr> zs A"
proof -
  let ?b = "fill_item i t n sz name (cont s1 d)"
  note dd = dir_okD[OF assms(3) d(1)]
  have c2: "cont s2 = (cont s1)(d := ?b)" using assms(1) dd d by (simp add: s2 buf)
  have f12: "fs_frame s1 s2" by (simp add: s2 fs_frame_def)
  show "ready s2" "loaded_dir_blk s2 = d" using assms(1) dd d by (simp_all add: s2 buf)
  have ds: "cont s1 e = cont s e" if "e \<in> set ds" for e
    using dir_okD(2)[OF assms(3) that] by (rule c)
  have u2: "blk_used (cont s2) m = blk_used (cont s1) m" for m using dd(2) by (simp add: c2 blk_used_upd)
  show "replaced s s2 ds d i \<lparr>it_blk = n, it_size = sz, it_type = t, it_name = strncpy TFS_NAME_LEN name\<rparr> zs A"
    unfolding replaced_def
  proof (intro conjI)
    show "fs_frame s s2" by (rule fs_frame_trans[OF fr f12])
    show "dir_ok s2 ds" by (rule dir_ok_cong[OF assms(3) f12]) (use d u2 in \<open>simp_all add: c2\<close>)
    show "\<forall>m. blk_used (cont s2) m \<longleftrightarrow> blk_used (cont s) m \<and> m \<notin> zs \<or> m \<in> A" using u u2 by simp
  qed (use d ds A in \<open>auto simp: c2 c\<close>)
qed

text \<open>Writing blocks outside the directory keeps the replacement.\<close>

lemma replaced_step:
  assumes r: "replaced s s1 ds d i it zs A" and d: "d \<in> set ds" and f: "fs_frame s1 s2"
    and c: "\<And>n. \<not> is_bitmap_blk n \<Longrightarrow> n \<notin> A \<union> B \<Longrightarrow> cont s2 n = cont s1 n"
    and u: "\<And>n. blk_used (cont s2) n \<longleftrightarrow> blk_used (cont s1) n \<or> n \<in> B"
    and B: "\<And>n. n \<in> B \<Longrightarrow> \<not> blk_used (cont s1) n \<and> n < blk_count s \<and> \<not> is_bitmap_blk n"
  shows "replaced s s2 ds d i it zs (A \<union> B)"
proof -
  have ok: "dir_ok s1 ds" and A: "\<forall>n \<in> A. n \<notin> set ds" using r by (auto simp: replaced_def)
  have nB: "n \<notin> B" if "n \<in> set ds" for n using dir_okD(3)[OF ok that] B by blast
  have same: "cont s2 n = cont s1 n" if "n \<in> set ds" for n
    using A nB[OF that] that dir_okD(2)[OF ok that] by (intro c) auto
  have u1: "blk_used (cont s1) n \<longleftrightarrow> blk_used (cont s) n \<and> n \<notin> zs \<or> n \<in> A" for n
    using r by (simp add: replaced_def)
  show ?thesis
    unfolding replaced_def
  proof (intro conjI)
    show "fs_frame s s2" using r fs_frame_trans[OF _ f] by (simp add: replaced_def)
    show "dir_ok s2 ds" by (rule dir_ok_cong[OF ok f]) (simp_all add: same u)
    show "\<forall>n. \<not> is_bitmap_blk n \<longrightarrow> n \<noteq> d \<longrightarrow> n \<notin> A \<union> B \<longrightarrow> cont s2 n = cont s n"
      using r c by (simp add: replaced_def)
    show "get_item (cont s2 d) i = it" using r d same by (simp add: replaced_def)
    show "\<forall>e \<in> set ds. \<forall>j < TFS_DIR_BLK_ITEMS. (e, j) \<noteq> (d, i) \<longrightarrow> get_item (cont s2 e) j = get_item (cont s e) j"
      using r same by (simp add: replaced_def)
    show "\<forall>n. blk_used (cont s2) n \<longleftrightarrow> blk_used (cont s) n \<and> n \<notin> zs \<or> n \<in> A \<union> B"
      using u u1 by blast
    show "\<forall>n \<in> A \<union> B. (\<not> blk_used (cont s) n \<or> n \<in> zs) \<and> n < blk_count s \<and> \<not> is_bitmap_blk n \<and> n \<notin> set ds"
    proof
      fix n assume "n \<in> A \<union> B"
      then show "(\<not> blk_used (cont s) n \<or> n \<in> zs) \<and> n < blk_count s \<and> \<not> is_bitmap_blk n \<and> n \<notin> set ds"
      proof
        assume "n \<in> B"
        then show ?thesis using B u1 nB by blast
      qed (use r in \<open>simp add: replaced_def\<close>)
    qed
  qed
qed

lemma store_item_over:
  assumes "ready s1" and fr: "fs_frame s s1" and "dir_ok s1 ds" and d: "d \<in> set ds" "i < TFS_DIR_BLK_ITEMS"
    and buf: "blk_buf s1 = cont s1 d" "loaded_dir_blk s1 = d"
    and c: "\<And>m. \<not> is_bitmap_blk m \<Longrightarrow> cont s1 m = cont s m"
    and u: "\<And>m. blk_used (cont s1) m \<longleftrightarrow> blk_used (cont s) m \<and> m \<notin> zs \<or> m \<in> A"
    and A: "\<And>m. m \<in> A \<Longrightarrow> (\<not> blk_used (cont s) m \<or> m \<in> zs) \<and> m < blk_count s \<and> \<not> is_bitmap_blk m \<and> m \<notin> set ds"
    and len: "length data = unat len" and pos: "if len = 0 then pos = 0 \<and> A = {} else pos \<noteq> 0 \<and> A = {pos}"
  shows "\<exists>xs s2. store_item P i name data len pos s1 = Some s2 \<and>
    replaced s s2 ds d i \<lparr>it_blk = pos, it_size = len, it_type = TFS_DIR_ITEM_FILE,
      it_name = strncpy TFS_NAME_LEN name\<rparr> zs (set xs) \<and> written s2 pos xs data"
proof -
  let ?it = "\<lparr>it_blk = pos, it_size = len, it_type = TFS_DIR_ITEM_FILE, it_name = strncpy TFS_NAME_LEN name\<rparr>"
  define s2 where "s2 = write_buf P d (s1\<lparr>blk_buf := fill_item i TFS_DIR_ITEM_FILE pos len name (blk_buf s1)\<rparr>)"
  have f2: "ready s2" "loaded_dir_blk s2 = d" "replaced s s2 ds d i ?it zs A"
    using replaced_fill[OF assms(1-3) d buf s2_def c u A] by simp_all
  define s3 where "s3 = s2\<lparr>blk_buf := set_prev (blk_buf s2) 0\<rparr>"
  have s3: "ready s3" "cont s3 = cont s2" "fs_frame s2 s3" "blk_prev (blk_buf s3) = 0"
    using f2(1) by (simp_all add: s3_def)
  have step: "store_item P i name data len pos s1 = write_loop P pos data (length data) s3"
    using buf(2) readyD(3)[OF f2(1)] len by (simp add: store_item_def Let_def s2_def s3_def)
  have r3: "replaced s s3 ds d i ?it zs (A \<union> {})"
    by (rule replaced_step[OF f2(3) d(1) s3(3)]) (simp_all add: s3(2))
  show ?thesis
  proof (cases "len = 0")
    case True
    then have p: "pos = 0" "A = {}" "data = []" using pos len by simp_all
    have "store_item P i name data len pos s1 = Some s3"
      using step p by (simp add: write_loop.simps[of P 0])
    then show ?thesis using p r3 written_empty[OF s3(1)]
      by (intro exI[of _ "[]"] exI[of _ s3]) simp
  next
    case False
    then have p: "pos \<noteq> 0" "A = {pos}" "data \<noteq> []" using pos len by (auto simp: unat_eq_0)
    have pn: "pos < blk_count s" "\<not> is_bitmap_blk pos" "blk_used (cont s2) pos"
      using f2(3) p(2) by (simp_all add: replaced_def)
    have cnt: "blk_count s3 = blk_count s"
      using r3 by (simp add: replaced_def fs_frame_def)
    have "\<exists>xs s'. write_loop P pos data (length data) s3 = Some s' \<and> stored s3 s' pos xs data"
      by (rule write_loop_spec[OF s3(1) p(1) _ pn(2) _ p(3)]) (use pn cnt s3(2) in simp_all)
    then obtain xs s4 where w: "write_loop P pos data (length data) s3 = Some s4" and st: "stored s3 s4 pos xs data"
      by blast
    have ch: "chain (cont s4) pos xs" using st by (simp add: stored_def)
    obtain ys where xs: "xs = pos # ys" using ch p(1) by (cases xs) auto
    have "replaced s s4 ds d i ?it zs ({pos} \<union> set ys)"
    proof (rule replaced_step[OF f2(3)[unfolded p(2)] d(1)])
      show "fs_frame s2 s4" using st fs_frame_trans[OF s3(3)] by (simp add: stored_def)
      show "cont s4 n = cont s2 n" if "\<not> is_bitmap_blk n" "n \<notin> {pos} \<union> set ys" for n
        using st that s3(2) xs by (simp add: stored_def)
      show "blk_used (cont s4) n \<longleftrightarrow> blk_used (cont s2) n \<or> n \<in> set ys" for n
        using st s3(2) xs pn(3) by (auto simp: stored_def)
      show "\<not> blk_used (cont s2) n \<and> n < blk_count s \<and> \<not> is_bitmap_blk n" if "n \<in> set ys" for n
        using st xs cnt s3(2) that by (simp add: stored_def)
    qed
    moreover have "{pos} \<union> set ys = set xs" by (simp add: xs)
    ultimately show ?thesis using w step written_stored[OF st s3(4)]
      by (intro exI[of _ xs] exI[of _ s4]) simp
  qed
qed


lemma store_file_over:
  assumes "ready s3" and fr3: "fs_frame s s3" and "dir_ok s3 ds" and d: "d \<in> set ds" "i < TFS_DIR_BLK_ITEMS"
    and buf: "blk_buf s3 = cont s3 d" "loaded_dir_blk s3 = d"
    and c3: "\<And>m. \<not> is_bitmap_blk m \<Longrightarrow> cont s3 m = cont s m"
    and u3: "\<And>m. blk_used (cont s3) m \<longleftrightarrow> blk_used (cont s) m \<and> m \<notin> zs"
    and len: "length data = unat len"
  obtains (no_room) s4 where "store_file P i name data len s3 = Some s4" "len \<noteq> 0" "free_set (cont s3) (blk_count s) = {}"
      "last_error s4 = TFS_ERR_DISK_FULL" "mounted s4" "fs_frame s s4" "cont s4 = cont s3"
  | (over) pos xs s4 where "store_file P i name data len s3 = Some s4" "written s4 pos xs data"
      "replaced s s4 ds d i \<lparr>it_blk = pos, it_size = len, it_type = TFS_DIR_ITEM_FILE,
         it_name = strncpy TFS_NAME_LEN name\<rparr> zs (set xs)"
proof (cases "len = 0")
  case True
  have "\<exists>xs s4. store_item P i name data len 0 s3 = Some s4 \<and>
    replaced s s4 ds d i \<lparr>it_blk = 0, it_size = len, it_type = TFS_DIR_ITEM_FILE,
      it_name = strncpy TFS_NAME_LEN name\<rparr> zs (set xs) \<and> written s4 0 xs data"
    by (rule store_item_over[where A = "{}", OF assms(1-7) c3 _ _ len]) (use True u3 in simp_all)
  with True show thesis by (auto simp: store_file_def intro: over)
next
  case False
  show thesis using assms(1)
  proof (cases rule: alloc_ready)
    case (full s4)
    with False fs_frame_trans[OF fr3 bitmap_fs_frame[OF full(5)]] show thesis
      by (intro no_room[of s4]) (simp_all add: store_file_def mounted_def fs_frameD[OF fr3])
  next
    case (ok b s4)
    have fr: "fs_frame s3 s4" by (rule bitmap_fs_frame[OF ok(3)])
    have dk4: "dir_ok s4 ds"
      by (rule dir_ok_cong[OF assms(3) fr]) (use ok(8,9) dir_okD(2)[OF assms(3)] in simp_all)
    have b: "b \<notin> set ds" "\<not> blk_used (cont s) b \<or> b \<in> zs" "b < blk_count s"
      using ok(4,5) dir_okD(3)[OF assms(3)] u3 by (auto simp: fs_frameD[OF fr3])
    have buf4: "blk_buf s4 = cont s4 d" "loaded_dir_blk s4 = d"
      using bitmap_frameD[OF ok(3)] buf ok(8) dir_okD(2)[OF assms(3) d(1)] by simp_all
    have "\<exists>xs s5. store_item P i name data len b s4 = Some s5 \<and>
      replaced s s5 ds d i \<lparr>it_blk = b, it_size = len, it_type = TFS_DIR_ITEM_FILE,
        it_name = strncpy TFS_NAME_LEN name\<rparr> zs (set xs) \<and> written s5 b xs data"
      by (rule store_item_over[where A = "{b}", OF ok(2) fs_frame_trans[OF fr3 fr] dk4 d buf4 _ _ _ len])
        (use ok(6-9) c3 u3 b False in auto)
    moreover have "store_file P i name data len s3 = store_item P i name data len b s4"
      using False ok(1) readyD(3)[OF ok(2)] by (simp add: store_file_def)
    ultimately show thesis by (auto intro: over)
  qed
qed

text \<open>The old blocks are freed and the directory block is read again.\<close>

lemma reload_after_free:
  assumes s1: "ready s1" "fs_frame s s1" "cont s1 = cont s" "loaded_dir_blk s1 = d" and dk: "dir_ok s ds" and d: "d \<in> set ds"
    and zs: "chain (cont s) pos zs" "owned (cont s) (blk_count s) zs" "set zs \<inter> set ds = {}"
  obtains s2 s3 where "free_file_blocks P pos s1 = Some s2" "last_error s2 = TFS_ERR_OK" "loaded_dir_blk s2 = d"
    "s3 = read_buf P d s2" "ready s3" "fs_frame s s3" "dir_ok s3 ds" "blk_buf s3 = cont s3 d" "loaded_dir_blk s3 = d"
    "\<And>n. \<not> is_bitmap_blk n \<Longrightarrow> cont s3 n = cont s n"
    "\<And>n. blk_used (cont s3) n \<longleftrightarrow> blk_used (cont s) n \<and> n \<notin> set zs"
proof -
  have ch: "chain (cont s1) pos zs" using zs(1) s1(3) by simp
  have zr: "\<forall>x \<in> set zs. x < blk_count s1 \<and> \<not> is_bitmap_blk x"
    using zs(2) by (auto simp: owned_def fs_frameD[OF s1(2)])
  obtain s2 where s2: "free_file_blocks P pos s1 = Some s2" "ready s2" "fs_frame s1 s2"
    "loaded_dir_blk s2 = d" "\<forall>n. \<not> is_bitmap_blk n \<longrightarrow> cont s2 n = cont s n"
    "\<forall>n. blk_used (cont s2) n \<longleftrightarrow> blk_used (cont s) n \<and> n \<notin> set zs"
    using free_file_blocks_spec[OF s1(1) ch zr] s1(3,4) by auto
  have fr2: "fs_frame s s2" by (rule fs_frame_trans[OF s1(2) s2(3)])
  have dk2: "dir_ok s2 ds"
    by (rule dir_ok_cong[OF dk fr2]) (use s2(5,6) dir_okD[OF dk] zs(3) in auto)
  note dd = dir_okD[OF dk2 d]
  have "dir_ok (read_buf P d s2) ds" using dk2 s2(2) dd by (simp add: dir_ok_def)
  with s2 dd fr2 readyD(3)[OF s2(2)] show thesis by (intro that[of s2 "read_buf P d s2"]) simp_all
qed

lemma write_over_cases:
  assumes "mounted s" and "dir_ok s ds" and "c_at name 0 \<noteq> 0" and len: "length data = unat len"
    and lk: "dir_lookup (cont s) (pf_filename_cmp P name) ds = Some (d, i)"
    and zs: "item_type (cont s d) i = TFS_DIR_ITEM_FILE \<Longrightarrow> chain (cont s) (item_blk (cont s d) i) zs"
      "owned (cont s) (blk_count s) zs" "set zs \<inter> set ds = {}"
  obtains (refused) s' where "\<not> ov \<or> item_type (cont s d) i \<noteq> TFS_DIR_ITEM_FILE"
      "tfs_write_file P name data len ov s = Some s'" "last_error s' = TFS_ERR_FILE_EXIST"
      "mounted s'" "fs_frame s s'" "cont s' = cont s"
  | (busy) s' where "ov" "item_type (cont s d) i = TFS_DIR_ITEM_FILE" "pf_extended_api P" "usage_at (handles s) d i > 0"
      "tfs_write_file P name data len ov s = Some s'" "last_error s' = TFS_FILE_BUSY"
      "mounted s'" "fs_frame s s'" "cont s' = cont s"
  | (no_room) s' where "ov" "item_type (cont s d) i = TFS_DIR_ITEM_FILE" "\<not> (pf_extended_api P \<and> usage_at (handles s) d i > 0)"
      "zs = []" "len \<noteq> 0" "free_set (cont s) (blk_count s) = {}"
      "tfs_write_file P name data len ov s = Some s'" "last_error s' = TFS_ERR_DISK_FULL" "mounted s'" "fs_frame s s'"
      "\<And>n. \<not> is_bitmap_blk n \<Longrightarrow> cont s' n = cont s n"
  | (over) pos xs s' where "ov" "item_type (cont s d) i = TFS_DIR_ITEM_FILE" "\<not> (pf_extended_api P \<and> usage_at (handles s) d i > 0)"
      "tfs_write_file P name data len ov s = Some s'" "written s' pos xs data"
      "replaced s s' ds d i \<lparr>it_blk = pos, it_size = len, it_type = TFS_DIR_ITEM_FILE,
         it_name = strncpy TFS_NAME_LEN name\<rparr> (set zs) (set xs)"
proof -
  note [simp] = assms(1) mounted_select[OF assms(1)]
  let ?body = "write_file_body P name data len ov"
  let ?file = "ov \<and> item_type (cont s d) i = TFS_DIR_ITEM_FILE"
  let ?open = "pf_extended_api P \<and> usage_at (handles s) d i > 0"
  have r: "ready (entered s)" and dk: "dir_ok (entered s) ds"
    and lk0: "dir_lookup (cont (entered s)) (pf_filename_cmp P name) ds = Some (d, i)"
    using assms by (simp_all add: ready_entered)
  obtain s1 where s1: "find_file P name True (entered s) = Some (Some i, s1)" "ready s1" "fs_frame s s1"
      "cont s1 = cont s" "loaded_dir_blk s1 = d" "blk_buf s1 = cont s d"
    using r dk assms(3) by (cases rule: find_file_cases[where want = True]) (use lk0 in auto)
  note slot = dir_lookup_SomeD[OF lk]
  have usg: "item_usage_count i s1 = usage_at (handles s) d i"
    by (simp add: item_usage_count_at s1(5) fs_frameD[OF s1(3)])
  have err: "tfs_write_file P name data len ov s = Some (drive_deselect P s')" if "?body (entered s) = Some s'" for s'
    using api_void_mounted[where body = ?body, OF assms(1) that] by (simp add: tfs_write_file_def)
  consider "\<not> ?file" | "?file" "?open" | "?file" "\<not> ?open" by blast
  then show thesis
  proof cases
    case 1
    then have "?body (entered s) = Some (set_error TFS_ERR_FILE_EXIST s1)"
      using s1 slot readyD(3)[OF s1(2)] by (simp add: write_file_body_def)
    from err[OF this] 1 s1 mounted_set_error[OF s1(2), of TFS_ERR_FILE_EXIST] show thesis
      by (intro refused[of "drive_deselect P (set_error TFS_ERR_FILE_EXIST s1)"]) simp_all
  next
    case 2
    then have "?body (entered s) = Some (set_error TFS_FILE_BUSY s1)"
      using s1 slot readyD(3)[OF s1(2)] by (simp add: write_file_body_def usg)
    from err[OF this] 2 s1 mounted_set_error[OF s1(2), of TFS_FILE_BUSY] show thesis
      by (intro busy[of "drive_deselect P (set_error TFS_FILE_BUSY s1)"]) simp_all
  next
    case 3
    then have ch: "chain (cont s) (item_blk (cont s d) i) zs" using zs(1) by simp
    obtain s2 s3 where s2: "free_file_blocks P (item_blk (cont s d) i) s1 = Some s2" "last_error s2 = TFS_ERR_OK"
      "loaded_dir_blk s2 = d" "s3 = read_buf P d s2"
      and s3: "ready s3" "fs_frame s s3" "dir_ok s3 ds" "blk_buf s3 = cont s3 d" "loaded_dir_blk s3 = d"
        "\<And>n. \<not> is_bitmap_blk n \<Longrightarrow> cont s3 n = cont s n"
        "\<And>n. blk_used (cont s3) n \<longleftrightarrow> blk_used (cont s) n \<and> n \<notin> set zs"
      using reload_after_free[OF s1(2-5) assms(2) slot(1) ch zs(2,3)] by blast
    have body: "?body (entered s) = store_file P i name data len s3"
      using s1 slot 3 s2 readyD(3)[OF s1(2)] readyD(3)[OF s3(1)] by (auto simp add: write_file_body_def usg Let_def)
    show thesis
    proof (rule store_file_over[OF s3(1-3) slot(1,2) s3(4-7) len, of name])
      fix s4 assume n: "store_file P i name data len s3 = Some s4" "len \<noteq> 0" "free_set (cont s3) (blk_count s) = {}"
        "last_error s4 = TFS_ERR_DISK_FULL" "mounted s4" "fs_frame s s4" "cont s4 = cont s3"
      have "z \<notin> set zs" for z
        using n(3) s3(7)[of z] zs(2) by (auto simp: free_set_def owned_def)
      then have z: "zs = []" by (cases zs) auto
      then have "free_set (cont s) (blk_count s) = {}" using n(3) s3(7) by (simp add: free_set_def)
      with z n 3 s3(6) err[of s4] body show thesis by (intro no_room[of "drive_deselect P s4"]) simp_all
    next
      fix pos xs s4 assume "store_file P i name data len s3 = Some s4" "written s4 pos xs data"
        "replaced s s4 ds d i \<lparr>it_blk = pos, it_size = len, it_type = TFS_DIR_ITEM_FILE,
           it_name = strncpy TFS_NAME_LEN name\<rparr> (set zs) (set xs)"
      with 3 err[of s4] body show thesis by (intro over[of "drive_deselect P s4" pos xs]) simp_all
    qed
  qed
qed

end

end
