(* ===== verification/Cleanup.thy ===== *)
theory Cleanup
  imports Overwrite
begin

text \<open>
  Removing directory entries: \<open>write_dir_cleanup\<close>, which unlinks a directory block that has become
  empty, and \<open>tfs_delete\<close> and \<open>tfs_rename\<close>.  The abstract directory is the list of the items in
  use, in the order of the slots; unlinking an empty block does not change it.
\<close>

section \<open>The items in use\<close>

definition block_items :: "block \<Rightarrow> dir_item list" where
  "block_items b = filter (\<lambda>it. it_type it \<noteq> TFS_DIR_ITEM_FREE) (map (get_item b) [0..<TFS_DIR_BLK_ITEMS])"

definition dir_items :: "(u32 \<Rightarrow> block) \<Rightarrow> u32 list \<Rightarrow> dir_item list" where
  "dir_items C ds = concat (map (\<lambda>d. block_items (C d)) ds)"

lemma dir_items_simps [simp]:
  "dir_items C [] = []" "dir_items C (d # ds) = block_items (C d) @ dir_items C ds"
  "dir_items C (ds @ es) = dir_items C ds @ dir_items C es"
  by (simp_all add: dir_items_def)

lemma find_filter: "find Q (filter R xs) = find (\<lambda>x. R x \<and> Q x) xs"
  by (induction xs) auto

lemma find_in_block:
  "find (\<lambda>it. cmp (it_name it)) (block_items (C d)) =
     map_option (slot_item C) (find (slot_match C cmp) (map (Pair d) [0..<TFS_DIR_BLK_ITEMS]))"
  unfolding block_items_def find_filter find_map option.map_comp
  by (rule arg_cong2[where f = map_option] find_cong refl ext)+
    (auto simp: slot_item_def slot_match_def slot_free_def comp_def intro!: find_cong)

text \<open>A name denotes the first item in use that it matches.\<close>

lemma dir_find_items: "dir_find C cmp ds = find (\<lambda>it. cmp (it_name it)) (dir_items C ds)"
proof (induction ds)
  case (Cons d ds)
  have "dir_find C cmp (d # ds) = (case find (\<lambda>it. cmp (it_name it)) (block_items (C d)) of
      None \<Rightarrow> dir_find C cmp ds | Some it \<Rightarrow> Some it)"
    unfolding find_in_block by (simp add: dir_find_def dir_lookup_def find_append split: option.splits)
  with Cons.IH show ?case by (simp add: find_append cong: option.case_cong)
qed (simp add: dir_find_def dir_lookup_def)

lemma dir_items_cong:
  "(\<And>d i. d \<in> set ds \<Longrightarrow> i < TFS_DIR_BLK_ITEMS \<Longrightarrow> get_item (C' d) i = get_item (C d) i) \<Longrightarrow>
   dir_items C' ds = dir_items C ds"
  unfolding dir_items_def block_items_def
  by (intro arg_cong[where f = concat] map_cong arg_cong2[where f = filter] refl) auto

lemma dir_block_empty_items: "dir_block_empty b \<longleftrightarrow> block_items b = []"
  by (auto simp: dir_block_empty_def block_items_def filter_empty_conv list_all_iff)

lemma block_items_headers [simp]:
  assumes "length b = TFS_BLOCKSIZE"
  shows "block_items (set_prev b v) = block_items b" "block_items (set_next b v) = block_items b"
  using assms by (auto simp: block_items_def intro!: arg_cong2[where f = filter])

lemma dir_items_slots: "dir_items C ds = filter (\<lambda>it. it_type it \<noteq> TFS_DIR_ITEM_FREE) (map (slot_item C) (dir_slots ds))"
  by (induction ds) (simp_all add: block_items_def slot_item_def comp_def)

text \<open>A slot that is changed, or freed, changes or removes the first item that matches its name.\<close>

lemma dir_items_change:
  assumes lk: "dir_lookup C cmp ds = Some (d, i)" and "distinct ds"
    and other: "\<And>e j. e \<in> set ds \<Longrightarrow> j < TFS_DIR_BLK_ITEMS \<Longrightarrow> (e, j) \<noteq> (d, i) \<Longrightarrow> get_item (C' e) j = get_item (C e) j"
  obtains A B where "dir_items C ds = A @ get_item (C d) i # B"
    "\<forall>a \<in> set A. \<not> cmp (it_name a)" "cmp (it_name (get_item (C d) i))"
    "dir_items C' ds = A @ (if item_type (C' d) i = TFS_DIR_ITEM_FREE then B else get_item (C' d) i # B)"
proof -
  let ?used = "\<lambda>it. it_type it \<noteq> TFS_DIR_ITEM_FREE"
  have "\<exists>p \<in> set (dir_slots ds). slot_match C cmp p"
    using lk find_SomeD unfolding dir_lookup_def by metis
  then obtain S1 p S2 where S: "dir_slots ds = S1 @ p # S2" "slot_match C cmp p" "\<forall>q \<in> set S1. \<not> slot_match C cmp q"
    using split_list_first_prop by metis
  then have "find (slot_match C cmp) (dir_slots ds) = Some p"
    using find_None_iff[of "slot_match C cmp" S1] by (simp add: find_append)
  with lk have p: "p = (d, i)" by (simp add: dir_lookup_def)
  have "distinct (dir_slots ds)" using assms(2) by (simp add: dir_slots_def distinct_product)
  then have ns: "(d, i) \<notin> set S1 \<union> set S2" using S(1) p by auto
  let ?A = "filter ?used (map (slot_item C) S1)" and ?B = "filter ?used (map (slot_item C) S2)"
  show thesis
  proof (rule that)
    show "dir_items C ds = ?A @ get_item (C d) i # ?B"
      using S(1,2) by (simp add: dir_items_slots p slot_item_def slot_match_def slot_free_def)
    show "\<forall>a \<in> set ?A. \<not> cmp (it_name a)"
      using S(3) by (auto simp: slot_item_def slot_match_def slot_free_def)
    show "cmp (it_name (get_item (C d) i))" using S(2) p by (simp add: slot_match_def)
  next
    have "slot_item C' q = slot_item C q" if "q \<in> set S1 \<union> set S2" for q
    proof -
      obtain e j where q: "q = (e, j)" by fastforce
      have "q \<in> set (dir_slots ds)" using that S(1) by auto
      then have "e \<in> set ds" "j < TFS_DIR_BLK_ITEMS" using q by simp_all
      moreover have "(e, j) \<noteq> (d, i)" using that ns q by auto
      ultimately show ?thesis using other q by (simp add: slot_item_def)
    qed
    then have m: "map (slot_item C') S1 = map (slot_item C) S1" "map (slot_item C') S2 = map (slot_item C) S2"
      by auto
    show "dir_items C' ds = ?A @ (if item_type (C' d) i = TFS_DIR_ITEM_FREE then ?B else get_item (C' d) i # ?B)"
      using S(1) by (simp add: dir_items_slots p m) (simp add: slot_item_def)
  qed
qed

section \<open>Taking a block out of a doubly linked chain\<close>

lemma chain_remove:
  assumes "chain C q (as @ p # d # rest)" and "\<And>x. x \<in> set as \<union> set rest \<Longrightarrow> blk_next (C' x) = blk_next (C x)"
    and "blk_next (C' p) = blk_next (C d)"
  shows "chain C' q (as @ p # rest)"
  using assms
proof (induction as arbitrary: q)
  case Nil
  have "chain C' (blk_next (C d)) rest = chain C (blk_next (C d)) rest" by (rule chain_cong) (simp add: Nil)
  with Nil show ?case by simp
qed simp

lemma back_links_remove:
  assumes "back_links C q (as @ p # d # rest)" and "\<And>x. x \<in> set as \<union> {p} \<union> set (tl rest) \<Longrightarrow> blk_prev (C' x) = blk_prev (C x)"
    and "rest \<noteq> [] \<Longrightarrow> blk_prev (C' (hd rest)) = p"
  shows "back_links C' q (as @ p # rest)"
  using assms
proof (induction as arbitrary: q)
  case Nil
  show ?case
  proof (cases rest)
    case (Cons r rs)
    have "back_links C' r rs = back_links C r rs" by (rule back_links_cong) (simp add: Nil Cons)
    with Nil Cons show ?thesis by simp
  qed (use Nil in simp)
next
  case (Cons x as)
  have "back_links C' x (as @ p # rest)" by (rule Cons.IH) (use Cons.prems in auto)
  with Cons.prems show ?case by simp
qed

lemma back_links_prev:
  "back_links C q (as @ p # d # rest) \<Longrightarrow> blk_prev (C d) = p"
  by (induction as arbitrary: q) auto

lemma chain_next_of:
  "chain C q (as @ d # rest) \<Longrightarrow> blk_next (C d) = (if rest = [] then 0 else hd rest)"
proof (induction as arbitrary: q)
  case Nil
  then show ?case by (cases rest) auto
qed auto

text \<open>When the first of several blocks becomes empty, the second one is moved into its place.\<close>

definition head_moved :: "u32 \<Rightarrow> u32 list \<Rightarrow> u32 list \<Rightarrow> bool" where
  "head_moved d ds ds' \<longleftrightarrow> (\<forall>e rest. ds = d # e # rest \<longrightarrow> ds' = d # rest)"

context block_device
begin

section \<open>write_dir_cleanup\<close>

lemma cleanup_links_spec:
  assumes r: "ready s" and p: "p < blk_count s" "\<not> is_bitmap_blk p"
    and n: "nxt \<noteq> 0 \<longrightarrow> nxt < blk_count s \<and> \<not> is_bitmap_blk nxt \<and> nxt \<noteq> p"
    and f: "loaded_dir_blk s = f" "f < blk_count s" "\<not> is_bitmap_blk f"
  defines "s' \<equiv> cleanup_links P p nxt s"
  shows "ready s'" "fs_frame s s'"
    "\<not> is_bitmap_blk m \<Longrightarrow> cont s' m = (if m = p then blk_buf s
       else if m = nxt \<and> nxt \<noteq> 0 then set_prev (cont s nxt) p else cont s m)"
    "blk_used (cont s') m \<longleftrightarrow> blk_used (cont s) m \<and> m \<noteq> f"
proof -
  define s1 where "s1 = write_buf P p s"
  have s1: "ready s1" "cont s1 = (cont s)(p := blk_buf s)" "fs_frame s s1" "loaded_dir_blk s1 = f" "blk_count s1 = blk_count s"
    using r p f(1) by (simp_all add: s1_def)
  define s2 where "s2 = (if nxt = 0 then s1 else write_buf P nxt ((read_buf P nxt s1)\<lparr>blk_buf := set_prev (cont s1 nxt) p\<rparr>))"
  have s2: "ready s2" "fs_frame s s2" "loaded_dir_blk s2 = f" "blk_count s2 = blk_count s"
    "cont s2 = (if nxt = 0 then cont s1 else (cont s1)(nxt := set_prev (cont s nxt) p))"
    using s1 n by (simp_all add: s2_def)
  have e: "s' = free_block P f s2"
    using s1 s2 n readyD(3)[OF s1(1)] readyD(3)[OF s2(1)] r p f
    by (auto simp: s'_def cleanup_links_def Let_def s2_def simp flip: s1_def)
  have f2: "f < blk_count s2" using f s2 by simp
  note fr = free_ready[OF s2(1) f2 f(3), folded e]
  show "ready s'" by (rule fr(1))
  show "fs_frame s s'" by (rule fs_frame_trans[OF s2(2) bitmap_fs_frame[OF fr(2)]])
  show "\<not> is_bitmap_blk m \<Longrightarrow> cont s' m = (if m = p then blk_buf s
       else if m = nxt \<and> nxt \<noteq> 0 then set_prev (cont s nxt) p else cont s m)"
    using n by (auto simp: fr(4) s2(5) s1(2))
  show "blk_used (cont s') m \<longleftrightarrow> blk_used (cont s) m \<and> m \<noteq> f"
    using p n by (auto simp: fr(5) s2(5) s1(2) blk_used_upd)
qed

text \<open>
  \<open>tidied s s' ds ds' C1\<close>: the directory \<open>ds\<close>, read as \<open>C1\<close>, is now stored in the blocks \<open>ds'\<close>;
  the blocks no longer needed are free and nothing outside the directory changed.
\<close>

definition tidied :: "'d fs \<Rightarrow> 'd fs \<Rightarrow> u32 list \<Rightarrow> u32 list \<Rightarrow> (u32 \<Rightarrow> block) \<Rightarrow> bool" where
  "tidied s s' ds ds' C1 \<longleftrightarrow> ready s' \<and> fs_frame s s' \<and> dir_ok s' ds' \<and> set ds' \<subseteq> set ds \<and>
     dir_items (cont s') ds' = dir_items C1 ds \<and>
     (\<forall>n. \<not> is_bitmap_blk n \<longrightarrow> n \<notin> set ds \<longrightarrow> cont s' n = cont s n) \<and>
     (\<forall>n. blk_used (cont s') n \<longleftrightarrow> blk_used (cont s) n \<and> (n \<in> set ds \<longrightarrow> n \<in> set ds'))"

text \<open>Block \<open>f\<close> behind \<open>p\<close> is taken out; \<open>b\<close> is what \<open>p\<close> holds afterwards.\<close>

lemma unlink_tidied:
  assumes r: "ready s" and ok: "dir_ok s ds" and ds: "ds = as @ p # f # rest"
    and t: "ready t" "cont t = cont s" "fs_frame s t" "loaded_dir_blk t = f" "blk_buf t = b"
    and b: "length b = TFS_BLOCKSIZE" "blk_next b = blk_next (cont s f)" "blk_prev b = blk_prev (cont s p)"
    and it: "block_items b = block_items (C1 p) @ block_items (C1 f)"
    and C1: "\<And>e. e \<in> set as \<union> set rest \<Longrightarrow> C1 e = cont s e"
  shows "tidied s (cleanup_links P p (blk_next (cont s f)) t) ds (as @ p # rest) C1"
proof -
  let ?nx = "blk_next (cont s f)" and ?s' = "cleanup_links P p (blk_next (cont s f)) t"
  note m = dir_okD[OF ok]
  have dist: "distinct ds" and ch: "chain (cont s) (current_dir_blk s) ds" and bl: "back_links (cont s) 0 ds"
    using ok chain_distinct by (auto simp: dir_ok_def)
  have nx: "?nx = (if rest = [] then 0 else hd rest)"
    using chain_next_of[of "cont s" _ "as @ [p]" f rest] ch ds by simp
  have hd: "hd rest \<in> set rest" if "rest \<noteq> []" using that by simp
  have n: "?nx \<noteq> 0 \<longrightarrow> ?nx < blk_count t \<and> \<not> is_bitmap_blk ?nx \<and> ?nx \<noteq> p"
    using m[of "hd rest"] hd nx dist ds fs_frameD(1)[OF t(3)] by (auto split: if_splits)
  have pf: "p < blk_count t" "\<not> is_bitmap_blk p" "f < blk_count t" "\<not> is_bitmap_blk f"
    using m[of p] m[of f] ds fs_frameD(1)[OF t(3)] by auto
  note c = cleanup_links_spec[OF t(1) pf(1,2) n t(4) pf(3,4)]
  have cont': "cont ?s' e = (if e = p then b else if rest \<noteq> [] \<and> e = hd rest then set_prev (cont s e) p else cont s e)"
    if "\<not> is_bitmap_blk e" for e
    using c(3)[OF that] t(2,5) nx m(4)[of "hd rest"] hd ds by (auto split: if_splits)
  have nb: "\<not> is_bitmap_blk e" if "e \<in> set ds" for e using m(2)[OF that] .
  have u: "blk_used (cont ?s') e \<longleftrightarrow> blk_used (cont s) e \<and> e \<noteq> f" for e using c(4) t(2) by simp
  have fr: "fs_frame s ?s'" by (rule fs_frame_trans[OF t(3) c(2)])
  have mem: "e \<in> set ds" "e \<noteq> p" if "e \<in> set as \<union> set rest" for e using that ds dist by auto
  have nxt: "blk_next (cont ?s' e) = blk_next (cont s e)" if "e \<in> set as \<union> set rest" for e
    using cont'[OF nb[OF mem(1)[OF that]]] mem(2)[OF that] by simp
  have "chain (cont ?s') (current_dir_blk s) (as @ p # rest)"
    by (rule chain_remove[OF ch[unfolded ds] nxt]) (use cont'[of p] pf(2) b in simp_all)
  moreover have "back_links (cont ?s') 0 (as @ p # rest)"
  proof (rule back_links_remove[OF bl[unfolded ds]])
    fix x assume x: "x \<in> set as \<union> {p} \<union> set (tl rest)"
    then have "x \<in> set ds" using ds by (cases rest) auto
    moreover have "rest \<noteq> [] \<and> x = hd rest \<Longrightarrow> x = p" using x ds dist by (cases rest) auto
    ultimately show "blk_prev (cont ?s' x) = blk_prev (cont s x)" using cont' nb b(3) by auto
  next
    assume "rest \<noteq> []"
    then show "blk_prev (cont ?s' (hd rest)) = p"
      using cont'[of "hd rest"] nb[of "hd rest"] mem[of "hd rest"] hd by simp
  qed
  moreover have "owned (cont ?s') (blk_count s) (as @ p # rest)"
    using m ds dist u by (auto simp: owned_def)
  ultimately have dok: "dir_ok ?s' (as @ p # rest)" by (simp add: dir_ok_def fs_frameD[OF fr])
  have other: "block_items (cont ?s' e) = block_items (C1 e)" if "e \<in> set as \<union> set rest" for e
    using cont'[OF nb[OF mem(1)[OF that]]] mem(2)[OF that] C1[OF that] by simp
  have "dir_items (cont ?s') as = dir_items C1 as" "dir_items (cont ?s') rest = dir_items C1 rest"
    unfolding dir_items_def using other by (auto intro!: arg_cong[where f = concat])
  then have items: "dir_items (cont ?s') (as @ p # rest) = dir_items C1 ds"
    using cont'[of p] pf(2) it ds by simp
  show ?thesis
    unfolding tidied_def
  proof (intro conjI)
    show "\<forall>e. \<not> is_bitmap_blk e \<longrightarrow> e \<notin> set ds \<longrightarrow> cont ?s' e = cont s e"
      using cont' hd ds by auto
    show "\<forall>e. blk_used (cont ?s') e \<longleftrightarrow> blk_used (cont s) e \<and> (e \<in> set ds \<longrightarrow> e \<in> set (as @ p # rest))"
      using u ds dist by auto
  qed (use c(1) fr dok items ds in auto)
qed

lemma tidied_written:
  assumes "ready s" and "dir_ok s ds" and "d \<in> set ds" and "length b = TFS_BLOCKSIZE" and "blk_buf s = b"
    and "blk_next b = blk_next (cont s d)" and "blk_prev b = blk_prev (cont s d)"
  shows "tidied s (write_buf P d s) ds ds ((cont s)(d := b))"
proof -
  note m = dir_okD[OF assms(2,3)]
  have c: "cont (write_buf P d s) = (cont s)(d := b)" "ready (write_buf P d s)" "fs_frame s (write_buf P d s)"
    using assms m by simp_all
  have u: "blk_used (cont (write_buf P d s)) n = blk_used (cont s) n" for n
    using m by (simp add: c blk_used_upd)
  have "dir_ok (write_buf P d s) ds"
    by (rule dir_ok_cong[OF assms(2) c(3)]) (use u assms(6,7) in \<open>simp_all add: c(1)\<close>)
  then show ?thesis using c u assms(3) by (auto simp: tidied_def)
qed

lemma write_dir_cleanup_spec:
  assumes r: "ready s" and ok: "dir_ok s ds" and d: "loaded_dir_blk s = d" "d \<in> set ds"
    and b: "blk_buf s = b" "blk_next b = blk_next (cont s d)" "blk_prev b = blk_prev (cont s d)"
  obtains ds' where "tidied s (write_dir_cleanup P s) ds ds' ((cont s)(d := b))" "block_items b = [] \<longrightarrow> head_moved d ds ds'"
proof (cases "blk_prev b = 0 \<and> blk_next b = 0 \<or> block_items b \<noteq> []")
  case True
  have "length b = TFS_BLOCKSIZE" using r b(1) by auto
  moreover have "write_dir_cleanup P s = write_buf P d s"
    using True b(1) d(1) by (auto simp: write_dir_cleanup_def dir_block_empty_items)
  moreover have "block_items b = [] \<longrightarrow> head_moved d ds ds"
    using True b(2) ok by (auto simp: head_moved_def dir_ok_def)
  ultimately show thesis using tidied_written[OF r ok d(2) _ b] by (intro that[of ds]) simp
next
  case False
  then have e: "block_items b = []" "dir_block_empty b" by (simp_all add: dir_block_empty_items)
  let ?C1 = "(cont s)(d := b)"
  have dist: "distinct ds" and ch: "chain (cont s) (current_dir_blk s) ds" and bl: "back_links (cont s) 0 ds"
    using ok chain_distinct by (auto simp: dir_ok_def)
  obtain xs ys where ds: "ds = xs @ d # ys" using d(2) by (auto simp: in_set_conv_decomp)
  have nx: "blk_next b = (if ys = [] then 0 else hd ys)" using chain_next_of[of "cont s" _ xs d ys] ch ds b(2) by simp
  show thesis
  proof (cases "xs = []")
    case True
    then have "blk_prev b = 0" using bl ds b(3) by simp
    with False nx obtain n rest where ys: "ys = n # rest" "blk_next b = n" by (cases ys) auto
    then have ds': "ds = [] @ d # n # rest" using ds True by simp
    have n: "n < blk_count s" using dir_okD(1)[OF ok, of n] ds' by simp
    define t where "t = (read_buf P n s)\<lparr>blk_buf := set_prev (cont s n) 0, loaded_dir_blk := n\<rparr>"
    have t: "ready t" "cont t = cont s" "fs_frame s t" "loaded_dir_blk t = n" "blk_buf t = set_prev (cont s n) 0"
      using r n by (simp_all add: t_def)
    have "write_dir_cleanup P s = cleanup_links P d (blk_next (cont s n)) t"
      using False e(2) b(1) d(1) \<open>blk_prev b = 0\<close> ys(2) r n readyD(3)[OF r]
      by (simp add: write_dir_cleanup_def Let_def t_def)
    moreover have "tidied s (cleanup_links P d (blk_next (cont s n)) t) ds ([] @ d # rest) ?C1"
      by (rule unlink_tidied[OF r ok ds' t])
        (use \<open>blk_prev b = 0\<close> b(3) e(1) dist ds' in auto)
    moreover have "head_moved d ds (d # rest)" using ds' by (simp add: head_moved_def)
    ultimately show thesis by (intro that[of "d # rest"]) simp_all
  next
    case False': False
    then obtain as p where xs: "xs = as @ [p]" by (metis rev_exhaust)
    then have ds': "ds = as @ p # d # ys" using ds by simp
    have p: "p < blk_count s" "p \<noteq> 0" using dir_okD(1,4)[OF ok, of p] ds' by simp_all
    have pb: "blk_prev b = p" using back_links_prev[of "cont s" 0 as p d ys] bl ds' b(3) by simp
    define t where "t = (read_buf P p s)\<lparr>blk_buf := set_next (cont s p) (blk_next (cont s d))\<rparr>"
    have t: "ready t" "cont t = cont s" "fs_frame s t" "loaded_dir_blk t = d"
        "blk_buf t = set_next (cont s p) (blk_next (cont s d))"
      using r p d(1) by (simp_all add: t_def)
    have "write_dir_cleanup P s = cleanup_links P p (blk_next (cont s d)) t"
      using False e(2) b(1,2) pb p r readyD(3)[OF r]
      by (simp add: write_dir_cleanup_def Let_def t_def)
    moreover have "tidied s (cleanup_links P p (blk_next (cont s d)) t) ds (as @ p # ys) ?C1"
      by (rule unlink_tidied[OF r ok ds' t]) (use e(1) dist ds' in auto)
    moreover have "head_moved d ds (as @ p # ys)" using ds' dist by (cases as) (auto simp: head_moved_def)
    ultimately show thesis by (intro that[of "as @ p # ys"]) simp_all
  qed
qed

section \<open>tfs_delete\<close>

text \<open>The first item that \<open>cmp\<close> matches is gone, and the blocks \<open>zs\<close> are free.\<close>

definition removed :: "'d fs \<Rightarrow> 'd fs \<Rightarrow> u32 list \<Rightarrow> u32 list \<Rightarrow> (byte list \<Rightarrow> bool) \<Rightarrow> dir_item \<Rightarrow> u32 set \<Rightarrow> bool" where
  "removed s s' ds ds' cmp it zs \<longleftrightarrow> fs_frame s s' \<and> dir_ok s' ds' \<and> set ds' \<subseteq> set ds \<and>
     (\<exists>A B. dir_items (cont s) ds = A @ it # B \<and> dir_items (cont s') ds' = A @ B \<and>
       (\<forall>a \<in> set A. \<not> cmp (it_name a)) \<and> cmp (it_name it)) \<and>
     (\<forall>n. \<not> is_bitmap_blk n \<longrightarrow> n \<notin> set ds \<longrightarrow> cont s' n = cont s n) \<and>
     (\<forall>n. blk_used (cont s') n \<longleftrightarrow> blk_used (cont s) n \<and> n \<notin> zs \<and> (n \<in> set ds \<longrightarrow> n \<in> set ds'))"

lemma tidied_free:
  assumes t: "tidied s s1 ds ds' C1" and s2: "ready s2" "fs_frame s1 s2"
    and c: "\<And>n. \<not> is_bitmap_blk n \<Longrightarrow> cont s2 n = cont s1 n"
    and u: "\<And>n. blk_used (cont s2) n \<longleftrightarrow> blk_used (cont s1) n \<and> n \<notin> zs" and zs: "zs \<inter> set ds = {}"
    and it: "dir_items (cont s) ds = A @ it # B" "dir_items C1 ds = A @ B" "\<forall>a \<in> set A. \<not> cmp (it_name a)" "cmp (it_name it)"
  shows "removed s s2 ds ds' cmp it zs"
proof -
  have ok: "dir_ok s1 ds'" and sub: "set ds' \<subseteq> set ds" and f: "fs_frame s s1"
    and u1: "\<And>n. blk_used (cont s1) n \<longleftrightarrow> blk_used (cont s) n \<and> (n \<in> set ds \<longrightarrow> n \<in> set ds')"
    and i1: "dir_items (cont s1) ds' = A @ B"
    using t it(2) by (simp_all add: tidied_def)
  have same: "cont s2 d = cont s1 d" if "d \<in> set ds'" for d using dir_okD(2)[OF ok that] by (rule c)
  have "dir_items (cont s2) ds' = A @ B" using i1 dir_items_cong[of ds' "cont s2" "cont s1"] same by simp
  moreover have "dir_ok s2 ds'"
    by (rule dir_ok_cong[OF ok s2(2)]) (use same u zs sub in auto)
  moreover have "fs_frame s s2" by (rule fs_frame_trans[OF f s2(2)])
  moreover have "\<forall>n. \<not> is_bitmap_blk n \<longrightarrow> n \<notin> set ds \<longrightarrow> cont s2 n = cont s n"
    using t c by (simp add: tidied_def)
  moreover have "\<forall>n. blk_used (cont s2) n \<longleftrightarrow> blk_used (cont s) n \<and> n \<notin> zs \<and> (n \<in> set ds \<longrightarrow> n \<in> set ds')"
    using u u1 by blast
  ultimately show ?thesis using sub it by (auto simp: removed_def)
qed

lemma removed_entered [simp]:
  "removed s (drive_deselect P s') ds ds' cmp it zs = removed s s' ds ds' cmp it zs"
  by (simp add: removed_def)

text \<open>The slot is cleared in the buffer that holds its block, and the block written back.\<close>

lemma clear_slot:
  assumes r: "ready s1" and f: "fs_frame s s1" "cont s1 = cont s" "loaded_dir_blk s1 = d" "blk_buf s1 = cont s d"
    and ok: "dir_ok s ds" and lk: "dir_lookup (cont s) cmp ds = Some (d, i)"
  defines "s2 \<equiv> write_dir_cleanup P (s1\<lparr>blk_buf := set_item_type (blk_buf s1) i TFS_DIR_ITEM_FREE\<rparr>)"
  obtains ds' C1 A B where "tidied s s2 ds ds' C1" "ready s2"
    "dir_items (cont s) ds = A @ get_item (cont s d) i # B" "dir_items C1 ds = A @ B"
    "\<forall>a \<in> set A. \<not> cmp (it_name a)" "cmp (it_name (get_item (cont s d) i))"
    "block_items (set_item_type (cont s d) i TFS_DIR_ITEM_FREE) = [] \<longrightarrow> head_moved d ds ds'"
proof -
  note slot = dir_lookup_SomeD[OF lk]
  let ?b = "set_item_type (cont s d) i TFS_DIR_ITEM_FREE"
  let ?t = "s1\<lparr>blk_buf := ?b\<rparr>"
  have t: "ready ?t" "fs_frame s ?t" "cont ?t = cont s" using r f slot(2) by simp_all
  have okt: "dir_ok ?t ds" by (rule dir_ok_cong[OF ok t(2)]) (simp_all add: f(2))
  obtain ds' where td: "tidied ?t (write_dir_cleanup P ?t) ds ds' ((cont ?t)(d := ?b))"
    "block_items ?b = [] \<longrightarrow> head_moved d ds ds'"
    by (rule write_dir_cleanup_spec[OF t(1) okt, of d ?b]) (use f slot in simp_all)
  have s2: "s2 = write_dir_cleanup P ?t" by (simp add: s2_def f(4))
  have td': "tidied s s2 ds ds' ((cont s)(d := ?b))"
    using td(1) t(2,3) fs_frame_trans[OF t(2)] by (simp add: tidied_def s2)
  have dist: "distinct ds" using ok chain_distinct by (auto simp: dir_ok_def)
  have i20: "i < TFS_DIR_BLK_ITEMS" by (rule slot(2))
  have other: "get_item (((cont s)(d := ?b)) e) j = get_item (cont s e) j"
    if "e \<in> set ds" "j < TFS_DIR_BLK_ITEMS" "(e, j) \<noteq> (d, i)" for e j
    using that i20 by (auto intro!: get_item_eqI)
  have free: "item_type (((cont s)(d := ?b)) d) i = TFS_DIR_ITEM_FREE" using i20 by simp
  obtain A B where AB: "dir_items (cont s) ds = A @ get_item (cont s d) i # B"
    "\<forall>a \<in> set A. \<not> cmp (it_name a)" "cmp (it_name (get_item (cont s d) i))"
    "dir_items ((cont s)(d := ?b)) ds = A @ (if item_type (((cont s)(d := ?b)) d) i = TFS_DIR_ITEM_FREE then B
       else get_item (((cont s)(d := ?b)) d) i # B)"
    by (rule dir_items_change[where C' = "(cont s)(d := ?b)", OF lk dist other])
  have "ready s2" using td' by (simp add: tidied_def)
  moreover have "dir_items ((cont s)(d := ?b)) ds = A @ B" using AB(4) free by simp
  ultimately show thesis using that[OF td' _ AB(1) _ AB(2,3) td(2)] by blast
qed

lemma clear_and_free:
  assumes r: "ready s1" and f: "fs_frame s s1" "cont s1 = cont s" "loaded_dir_blk s1 = d" "blk_buf s1 = cont s d"
    and ok: "dir_ok s ds" and lk: "dir_lookup (cont s) cmp ds = Some (d, i)"
    and own: "owned (cont s) (blk_count s) zs" "set zs \<inter> set ds = {}"
  defines "s2 \<equiv> write_dir_cleanup P (s1\<lparr>blk_buf := set_item_type (blk_buf s1) i TFS_DIR_ITEM_FREE\<rparr>)"
  obtains ds' where "ready s2" "block_items (set_item_type (cont s d) i TFS_DIR_ITEM_FREE) = [] \<longrightarrow> head_moved d ds ds'"
    "\<And>pos. chain (cont s) pos zs \<Longrightarrow> \<exists>s3. free_file_blocks P pos s2 = Some s3 \<and> ready s3 \<and>
       removed s s3 ds ds' cmp (get_item (cont s d) i) (set zs)"
    "\<And>pos. zs = [pos] \<Longrightarrow> ready (free_block P pos s2) \<and>
       removed s (free_block P pos s2) ds ds' cmp (get_item (cont s d) i) (set zs)"
proof -
  obtain ds' C1 A B where td: "tidied s s2 ds ds' C1" "ready s2" and AB: "dir_items (cont s) ds = A @ get_item (cont s d) i # B"
    "dir_items C1 ds = A @ B" "\<forall>a \<in> set A. \<not> cmp (it_name a)" "cmp (it_name (get_item (cont s d) i))"
    and hm: "block_items (set_item_type (cont s d) i TFS_DIR_ITEM_FREE) = [] \<longrightarrow> head_moved d ds ds'"
    using clear_slot[OF r f ok lk, folded s2_def] by metis
  have fr: "fs_frame s s2" and c: "\<And>n. \<not> is_bitmap_blk n \<Longrightarrow> n \<notin> set ds \<Longrightarrow> cont s2 n = cont s n"
    using td(1) by (simp_all add: tidied_def)
  have zr: "x < blk_count s2 \<and> \<not> is_bitmap_blk x \<and> cont s2 x = cont s x" if "x \<in> set zs" for x
    using own that c[of x] fs_frameD(1)[OF fr] by (auto simp: owned_def)
  have 1: "\<exists>s3. free_file_blocks P pos s2 = Some s3 \<and> ready s3 \<and>
      removed s s3 ds ds' cmp (get_item (cont s d) i) (set zs)" if ch: "chain (cont s) pos zs" for pos
  proof -
    have "chain (cont s2) pos zs" using ch zr chain_cong[of zs "cont s2" "cont s"] by simp
    then obtain s3 where s3: "free_file_blocks P pos s2 = Some s3" "ready s3" "fs_frame s2 s3"
      "\<forall>n. \<not> is_bitmap_blk n \<longrightarrow> cont s3 n = cont s2 n"
      "\<forall>n. blk_used (cont s3) n \<longleftrightarrow> blk_used (cont s2) n \<and> n \<notin> set zs"
      using free_file_blocks_spec[OF td(2)] zr by blast
    have "removed s s3 ds ds' cmp (get_item (cont s d) i) (set zs)"
      by (rule tidied_free[OF td(1) s3(2,3) _ _ own(2) AB]) (use s3 in simp_all)
    with s3 show ?thesis by blast
  qed
  have 2: "ready (free_block P pos s2) \<and> removed s (free_block P pos s2) ds ds' cmp (get_item (cont s d) i) (set zs)"
    if z: "zs = [pos]" for pos
  proof -
    have p: "pos < blk_count s2" "\<not> is_bitmap_blk pos" using zr z by simp_all
    note fb = free_ready[OF td(2) p]
    have "removed s (free_block P pos s2) ds ds' cmp (get_item (cont s d) i) (set zs)"
      by (rule tidied_free[OF td(1) fb(1) bitmap_fs_frame[OF fb(2)] fb(4) _ own(2) AB]) (use fb(5) z in auto)
    with fb(1) show ?thesis by blast
  qed
  show thesis by (rule that[OF td(2) hm 1 2])
qed

lemma delete_cases:
  assumes "mounted s" and "dir_ok s ds" and "c_at name 0 \<noteq> 0"
    and zs: "\<And>d i. dir_lookup (cont s) (pf_filename_cmp P name) ds = Some (d, i) \<Longrightarrow>
      chain (cont s) (item_blk (cont s d) i) zs \<and> zs \<noteq> [] \<or>
      item_type (cont s d) i = TFS_DIR_ITEM_FILE \<and> item_blk (cont s d) i = 0 \<and> zs = []"
    and own: "owned (cont s) (blk_count s) zs" "set zs \<inter> set ds = {}"
  obtains (missing) s' where "dir_find (cont s) (pf_filename_cmp P name) ds = None"
      "tfs_delete P name type s = Some s'" "last_error s' = TFS_ERR_NOT_EXIST" "mounted s'" "fs_frame s s'" "cont s' = cont s"
  | (wrong_type) it s' where "dir_find (cont s) (pf_filename_cmp P name) ds = Some it"
      "pf_extended_api P \<and> type \<noteq> 0 \<and> it_type it \<noteq> type \<or> it_type it \<noteq> TFS_DIR_ITEM_FILE \<and> it_type it \<noteq> TFS_DIR_ITEM_DIR"
      "tfs_delete P name type s = Some s'" "last_error s' = TFS_ERR_NOT_EXIST" "mounted s'" "fs_frame s s'" "cont s' = cont s"
  | (busy) d i s' where "dir_lookup (cont s) (pf_filename_cmp P name) ds = Some (d, i)"
      "pf_extended_api P" "usage_at (handles s) d i > 0"
      "tfs_delete P name type s = Some s'" "last_error s' = TFS_FILE_BUSY" "mounted s'" "fs_frame s s'" "cont s' = cont s"
  | (not_empty) it s' where "dir_find (cont s) (pf_filename_cmp P name) ds = Some it" "it_type it = TFS_DIR_ITEM_DIR"
      "tl zs \<noteq> [] \<or> dir_items (cont s) zs \<noteq> []"
      "tfs_delete P name type s = Some s'" "last_error s' = TFS_ERR_NOT_EMPTY" "mounted s'" "fs_frame s s'" "cont s' = cont s"
  | (gone) it ds' s' where "dir_find (cont s) (pf_filename_cmp P name) ds = Some it"
      "it_type it = TFS_DIR_ITEM_FILE \<or> it_type it = TFS_DIR_ITEM_DIR \<and> tl zs = [] \<and> dir_items (cont s) zs = []"
      "tfs_delete P name type s = Some s'" "last_error s' = TFS_ERR_OK" "mounted s'"
      "removed s s' ds ds' (pf_filename_cmp P name) it (set zs)"
      "\<exists>d i. dir_lookup (cont s) (pf_filename_cmp P name) ds = Some (d, i) \<and> (pf_extended_api P \<longrightarrow> usage_at (handles s) d i = 0) \<and>
        (block_items (set_item_type (cont s d) i TFS_DIR_ITEM_FREE) = [] \<longrightarrow> head_moved d ds ds')"
proof -
  note [simp] = assms(1) mounted_select[OF assms(1)]
  let ?body = "delete_body P name type" and ?cmp = "pf_filename_cmp P name"
  have r: "ready (entered s)" and dk: "dir_ok (entered s) ds" using assms by (simp_all add: ready_entered)
  have err: "tfs_delete P name type s = Some (drive_deselect P s')" if "?body (entered s) = Some s'" for s'
    using api_void_mounted[where body = ?body, OF assms(1) that] by (simp add: tfs_delete_def)
  show thesis using r dk assms(3)
  proof (cases rule: find_file_cases[where want = False])
    case (absent s1)
    then have "?body (entered s) = Some (set_error TFS_ERR_NOT_EXIST s1)"
      using readyD(3)[OF absent(4)] by (simp add: delete_body_def)
    from err[OF this] absent mounted_set_error[OF absent(4), of TFS_ERR_NOT_EXIST] show thesis
      by (intro missing[of "drive_deselect P (set_error TFS_ERR_NOT_EXIST s1)"]) (simp_all add: dir_find_def)
  next
    case (found d i s1)
    have s1: "find_file P name False (entered s) = Some (Some i, s1)" "ready s1" "fs_frame s s1" "cont s1 = cont s"
      "loaded_dir_blk s1 = d" "blk_buf s1 = cont s d" using found by simp_all
    have lk: "dir_lookup (cont s) ?cmp ds = Some (d, i)" using found(1) by simp
    note slot = dir_lookup_SomeD[OF lk]
    let ?it = "get_item (cont s d) i"
    have df: "dir_find (cont s) ?cmp ds = Some ?it" using lk by (simp add: dir_find_def slot_item_def)
    have ch: "chain (cont s) (item_blk (cont s d) i) zs" using zs[OF lk] by auto
    have usg: "item_usage_count i s1 = usage_at (handles s) d i"
      using found(4,6) by (simp add: item_usage_count_at fs_frameD)
    have e: "?body (entered s) = Some (set_error c s1) \<Longrightarrow> c \<noteq> TFS_ERR_NO_DEV \<Longrightarrow>
        \<exists>s'. tfs_delete P name type s = Some s' \<and> last_error s' = c \<and> mounted s' \<and> fs_frame s s' \<and> cont s' = cont s" for c
      using err[of "set_error c s1"] found mounted_set_error[OF found(3)] by auto
    let ?wrong = "pf_extended_api P \<and> type \<noteq> 0 \<and> item_type (cont s d) i \<noteq> type"
    let ?busy = "pf_extended_api P \<and> usage_at (handles s) d i > 0"
    consider "?wrong" | "\<not> ?wrong" "?busy" | "\<not> ?wrong" "\<not> ?busy" "item_type (cont s d) i = TFS_DIR_ITEM_FILE"
      | "\<not> ?wrong" "\<not> ?busy" "item_type (cont s d) i = TFS_DIR_ITEM_DIR"
      | "\<not> ?wrong" "\<not> ?busy" "item_type (cont s d) i \<noteq> TFS_DIR_ITEM_FILE" "item_type (cont s d) i \<noteq> TFS_DIR_ITEM_DIR"
      by blast
    then show thesis
    proof cases
      case 1
      then have "?body (entered s) = Some (set_error TFS_ERR_NOT_EXIST s1)"
        using s1 readyD(3)[OF s1(2)] by (simp add: delete_body_def)
      from e[OF this] df 1 show thesis by (auto intro: wrong_type)
    next
      case 2
      then have "?body (entered s) = Some (set_error TFS_FILE_BUSY s1)"
        using s1 readyD(3)[OF s1(2)] usg by (auto simp add: delete_body_def)
      from e[OF this] lk 2 show thesis by (auto intro: busy)
    next
      case 3
      show thesis
      proof (rule clear_and_free[OF s1(2-6) assms(2) lk own])
        fix ds' let ?s2 = "write_dir_cleanup P (s1\<lparr>blk_buf := set_item_type (blk_buf s1) i TFS_DIR_ITEM_FREE\<rparr>)"
        assume s2: "ready ?s2" and hm: "block_items (set_item_type (cont s d) i TFS_DIR_ITEM_FREE) = [] \<longrightarrow> head_moved d ds ds'"
          and fr: "\<And>pos. chain (cont s) pos zs \<Longrightarrow> \<exists>s3. free_file_blocks P pos ?s2 = Some s3 \<and> ready s3 \<and>
          removed s s3 ds ds' ?cmp ?it (set zs)"
        obtain s3 where s3: "free_file_blocks P (item_blk (cont s d) i) ?s2 = Some s3" "ready s3"
          "removed s s3 ds ds' ?cmp ?it (set zs)" using fr[OF ch] by blast
        have "?body (entered s) = Some s3"
          using 3 s1(1,6) readyD(3)[OF s1(2)] usg readyD(3)[OF s2] s3(1) by (auto simp add: delete_body_def Let_def)
        from err[OF this] 3 df s3 mounted_ready[OF s3(2)] readyD(3)[OF s3(2)] hm lk show thesis
          by (intro gone[of ?it "drive_deselect P s3" ds']) (auto simp: word_gt_0)
      qed
    next
      case 4
      then obtain pos ps where z: "zs = pos # ps" "item_blk (cont s d) i = pos"
        using zs[OF lk] by (cases zs) auto
      have pos: "pos < blk_count s1" using own(1) z(1) fs_frameD(1)[OF s1(3)] by (simp add: owned_def)
      have nx: "blk_next (cont s pos) = 0 \<longleftrightarrow> ps = []" using ch z by (cases ps) auto
      define s2 where "s2 = read_buf P pos s1"
      have s2: "ready s2" "fs_frame s s2" "cont s2 = cont s" "loaded_dir_blk s2 = d" "blk_buf s2 = cont s pos"
        using s1 pos by (simp_all add: s2_def)
      have start: "?body (entered s) =
          (if blk_next (cont s pos) \<noteq> 0 \<or> \<not> dir_block_empty (cont s pos) then Some (set_error TFS_ERR_NOT_EMPTY s2)
           else let s = read_buf P d s2
                in if last_error s \<noteq> TFS_ERR_OK then Some s
                   else let s = write_dir_cleanup P (s\<lparr>blk_buf := set_item_type (blk_buf s) i TFS_DIR_ITEM_FREE\<rparr>)
                        in if last_error s \<noteq> TFS_ERR_OK then Some s else Some (free_block P pos s))"
        using 4 s1(1,6) readyD(3)[OF s1(2)] usg readyD(3)[OF s2(1)] s2(4,5) z(2)
        by (auto simp add: delete_body_def Let_def simp flip: s2_def)
      show thesis
      proof (cases "blk_next (cont s pos) \<noteq> 0 \<or> \<not> dir_block_empty (cont s pos)")
        case True
        then have full: "tl zs \<noteq> [] \<or> dir_items (cont s) zs \<noteq> []" using nx z(1) by (auto simp: dir_block_empty_items)
        from True have b: "?body (entered s) = Some (set_error TFS_ERR_NOT_EMPTY s2)" using start by simp
        show thesis using err[OF b] df 4 full s2 mounted_set_error[OF s2(1), of TFS_ERR_NOT_EMPTY]
          by (intro not_empty[of ?it "drive_deselect P (set_error TFS_ERR_NOT_EMPTY s2)"]) simp_all
      next
        case False
        then have z1: "zs = [pos]" "dir_items (cont s) zs = []" using nx z(1) by (auto simp: dir_block_empty_items)
        have db: "d < blk_count s2" using dir_okD(1)[OF assms(2) slot(1)] fs_frameD(1)[OF s2(2)] by simp
        define s3 where "s3 = read_buf P d s2"
        have s3: "ready s3" "fs_frame s s3" "cont s3 = cont s" "loaded_dir_blk s3 = d" "blk_buf s3 = cont s d"
          using s2 db by (simp_all add: s3_def)
        show thesis
        proof (rule clear_and_free[OF s3 assms(2) lk own])
          fix ds' let ?s4 = "write_dir_cleanup P (s3\<lparr>blk_buf := set_item_type (blk_buf s3) i TFS_DIR_ITEM_FREE\<rparr>)"
          assume s4: "ready ?s4" and hm: "block_items (set_item_type (cont s d) i TFS_DIR_ITEM_FREE) = [] \<longrightarrow> head_moved d ds ds'"
            and fr: "\<And>pos. zs = [pos] \<Longrightarrow> ready (free_block P pos ?s4) \<and>
            removed s (free_block P pos ?s4) ds ds' ?cmp ?it (set zs)"
          have "?body (entered s) = Some (free_block P pos ?s4)"
            using start False readyD(3)[OF s3(1)] readyD(3)[OF s4] by (simp add: Let_def flip: s3_def)
          from err[OF this] 4 df fr[OF z1(1)] z1 mounted_ready readyD(3) hm lk show thesis
            by (intro gone[of ?it "drive_deselect P (free_block P pos ?s4)" ds']) (auto simp: word_gt_0)
        qed
      qed
    next
      case 5
      then have "?body (entered s) = Some (set_error TFS_ERR_NOT_EXIST s1)"
        using s1 readyD(3)[OF s1(2)] usg by (auto simp add: delete_body_def Let_def)
      from e[OF this] df 5 show thesis by (auto intro: wrong_type)
    qed
  qed simp_all
qed

section \<open>tfs_rename\<close>

lemma rename_cases:
  assumes "mounted s" and "dir_ok s ds" and "c_at from 0 \<noteq> 0" and "c_at to 0 \<noteq> 0"
  obtains (taken) it s' where "dir_find (cont s) (pf_filename_cmp P to) ds = Some it"
      "tfs_rename P from to s = Some s'" "last_error s' = TFS_ERR_FILE_EXIST" "mounted s'" "fs_frame s s'" "cont s' = cont s"
  | (missing) s' where "dir_find (cont s) (pf_filename_cmp P to) ds = None" "dir_find (cont s) (pf_filename_cmp P from) ds = None"
      "tfs_rename P from to s = Some s'" "last_error s' = TFS_ERR_NOT_EXIST" "mounted s'" "fs_frame s s'" "cont s' = cont s"
  | (renamed) A it B s' where "dir_find (cont s) (pf_filename_cmp P to) ds = None"
      "dir_items (cont s) ds = A @ it # B" "\<forall>a \<in> set A. \<not> pf_filename_cmp P from (it_name a)" "pf_filename_cmp P from (it_name it)"
      "tfs_rename P from to s = Some s'" "last_error s' = TFS_ERR_OK" "mounted s'" "fs_frame s s'" "dir_ok s' ds"
      "dir_items (cont s') ds = A @ it\<lparr>it_name := strncpy TFS_NAME_LEN to\<rparr> # B"
      "\<And>n. n \<notin> set ds \<Longrightarrow> cont s' n = cont s n"
proof -
  note [simp] = assms(1) mounted_select[OF assms(1)]
  let ?body = "rename_body P from to"
  have r: "ready (entered s)" and dk: "dir_ok (entered s) ds" using assms by (simp_all add: ready_entered)
  have err: "tfs_rename P from to s = Some (drive_deselect P s')" if "?body (entered s) = Some s'" for s'
    using api_void_mounted[where body = ?body, OF assms(1) that] by (simp add: tfs_rename_def)
  show thesis using r dk assms(4)
  proof (cases rule: find_file_cases[where want = False])
    case (found d i s1)
    then have "?body (entered s) = Some (set_error TFS_ERR_FILE_EXIST s1)"
      using readyD(3)[OF found(3)] by (simp add: rename_body_def)
    from err[OF this] found mounted_set_error[OF found(3), of TFS_ERR_FILE_EXIST] show thesis
      by (intro taken[of _ "drive_deselect P (set_error TFS_ERR_FILE_EXIST s1)"]) (simp_all add: dir_find_def)
  next
    case to: (absent s1)
    have nto: "dir_find (cont s) (pf_filename_cmp P to) ds = None" using to(1) by (simp add: dir_find_def)
    have dk1: "dir_ok s1 ds" by (rule dir_ok_cong[OF dk]) (use to in simp_all)
    show thesis using to(4) dk1 assms(3)
    proof (cases rule: find_file_cases[where want = False])
      case (absent s2)
      then have "?body (entered s) = Some (set_error TFS_ERR_NOT_EXIST s2)"
        using to readyD(3)[OF to(4)] readyD(3)[OF absent(4)] by (simp add: rename_body_def)
      from err[OF this] nto to absent fs_frame_trans[OF to(5) absent(5)] mounted_set_error[OF absent(4), of TFS_ERR_NOT_EXIST]
      show thesis
        by (intro missing[of "drive_deselect P (set_error TFS_ERR_NOT_EXIST s2)"]) (simp_all add: dir_find_def)
    next
      case (found d i s2)
      let ?b = "set_item_name (cont s d) i to"
      have lk: "dir_lookup (cont s) (pf_filename_cmp P from) ds = Some (d, i)" using found(1) to(6) by simp
      note slot = dir_lookup_SomeD[OF lk]
      have f2: "fs_frame s s2" using fs_frame_trans[OF to(5) found(4)] by simp
      have d: "d < blk_count s2" "\<not> is_bitmap_blk d"
        using dir_okD[OF assms(2) slot(1)] fs_frameD(1)[OF f2] by simp_all
      define s3 where "s3 = write_buf P d (s2\<lparr>blk_buf := ?b\<rparr>)"
      have s3: "ready s3" "fs_frame s s3" "cont s3 = (cont s)(d := ?b)"
        using found(3,5) to(6) f2 slot(2) d by (simp_all add: s3_def)
      have "?body (entered s) = Some s3"
        using to found readyD(3)[OF to(4)] readyD(3)[OF found(3)] by (simp add: rename_body_def Let_def s3_def)
      note e = err[OF this]
      have u: "blk_used (cont s3) n = blk_used (cont s) n" for n using d by (simp add: s3(3) blk_used_upd)
      have dk3: "dir_ok s3 ds"
        by (rule dir_ok_cong[OF assms(2) s3(2)]) (use slot(2) u in \<open>simp_all add: s3(3)\<close>)
      have dist: "distinct ds" using assms(2) chain_distinct by (auto simp: dir_ok_def)
      have other: "get_item (cont s3 e) j = get_item (cont s e) j"
        if "e \<in> set ds" "j < TFS_DIR_BLK_ITEMS" "(e, j) \<noteq> (d, i)" for e j
        using that slot(2) by (auto simp: s3(3) intro!: get_item_eqI)
      have new: "item_type (cont s3 d) i \<noteq> TFS_DIR_ITEM_FREE"
        "get_item (cont s3 d) i = (get_item (cont s d) i)\<lparr>it_name := strncpy TFS_NAME_LEN to\<rparr>"
        using slot by (simp_all add: s3(3) get_item_def)
      obtain A B where AB: "dir_items (cont s) ds = A @ get_item (cont s d) i # B"
        "\<forall>a \<in> set A. \<not> pf_filename_cmp P from (it_name a)" "pf_filename_cmp P from (it_name (get_item (cont s d) i))"
        "dir_items (cont s3) ds = A @ (if item_type (cont s3 d) i = TFS_DIR_ITEM_FREE then B else get_item (cont s3 d) i # B)"
        by (rule dir_items_change[where C' = "cont s3", OF lk dist other])
      show thesis
        using nto AB e s3 dk3 mounted_ready[OF s3(1)] readyD(3)[OF s3(1)] new slot(1)
        by (intro renamed[of A "get_item (cont s d) i" B "drive_deselect P s3"]) auto
    qed simp_all
  qed simp_all
qed

end

end
