(* ===== verification/Handles.thy ===== *)
theory Handles
  imports Cleanup Format
begin

text \<open>
  The extended interface of \<open>filesys.c\<close>: file handles, \<open>seek\<close>, and the functions that work
  through a handle.  \<open>hnd\<close> is the handle's index in \<open>handles\<close>; the user's buffers are lists.
  \<open>None\<close> is returned where the code would follow a null \<open>dir_item\<close>.
\<close>

section \<open>The handle table\<close>

definition hnd :: "nat \<Rightarrow> 'd fs \<Rightarrow> filehandle" where
  "hnd fd s = handles s ! fd"

definition upd_hnd :: "nat \<Rightarrow> (filehandle \<Rightarrow> filehandle) \<Rightarrow> 'd fs \<Rightarrow> 'd fs" where
  "upd_hnd fd f s = s\<lparr>handles := (handles s)[fd := f (handles s ! fd)]\<rparr>"

definition init_pos :: "filehandle \<Rightarrow> filehandle" where
  "init_pos h = h\<lparr>curr_blk := first_blk h, curr_pos := 0\<rparr>"

definition update_dir_item :: "'d platform \<Rightarrow> nat \<Rightarrow> 'd fs \<Rightarrow> 'd fs option" where
  "update_dir_item P fd s =
     (let s = read_buf P (dir_blk (hnd fd s)) s
      in if last_error s \<noteq> TFS_ERR_OK then Some s
         else do {
           i \<leftarrow> dir_item (hnd fd s);
           let s = s\<lparr>blk_buf := set_item_blk (blk_buf s) i (first_blk (hnd fd s))\<rparr>;
               s = s\<lparr>blk_buf := set_item_size (blk_buf s) i (fh_size (hnd fd s))\<rparr>
           in Some (write_buf P (dir_blk (hnd fd s)) s)
         })"

section \<open>seek\<close>

datatype seek_result = SEEK_ERROR | SEEK_OK | SEEK_EOF | SEEK_APPEND

text \<open>The two loops: the first component is \<open>False\<close> when the loop returns \<open>SEEK_ERROR\<close>.\<close>

partial_function (option) seek_backward :: "'d platform \<Rightarrow> nat \<Rightarrow> u32 \<Rightarrow> 'd fs \<Rightarrow> (bool \<times> 'd fs) option" where
  "seek_backward P fd pos s =
     (if curr_blk (hnd fd s) \<noteq> 0 \<and> curr_pos (hnd fd s) > pos
      then let s = read_buf P (curr_blk (hnd fd s)) s
           in if last_error s \<noteq> TFS_ERR_OK then Some (False, s)
              else if blk_prev (blk_buf s) = 0 then Some (False, set_error TFS_ERR_UNEXP_EOF s)
              else seek_backward P fd pos
                (upd_hnd fd (\<lambda>h. h\<lparr>curr_blk := blk_prev (blk_buf s), curr_pos := curr_pos h - 504\<rparr>) s)
      else Some (True, s))"

partial_function (option) seek_forward :: "'d platform \<Rightarrow> nat \<Rightarrow> u32 \<Rightarrow> u32 \<Rightarrow> u32 \<Rightarrow> 'd fs
    \<Rightarrow> (bool \<times> u32 \<times> u32 \<times> 'd fs) option" where
  "seek_forward P fd pos last_blk last_pos s =
     (if curr_blk (hnd fd s) \<noteq> 0 \<and> unat (curr_pos (hnd fd s)) + TFS_DATA_LEN \<le> unat pos
      then let s = read_buf P (curr_blk (hnd fd s)) s
           in if last_error s \<noteq> TFS_ERR_OK then Some (False, last_blk, last_pos, s)
              else seek_forward P fd pos (curr_blk (hnd fd s)) (curr_pos (hnd fd s))
                (upd_hnd fd (\<lambda>h. h\<lparr>curr_blk := blk_next (blk_buf s), curr_pos := curr_pos h + 504\<rparr>) s)
      else Some (True, last_blk, last_pos, s))"

text \<open>The loop that appends empty blocks up to the requested one.\<close>

partial_function (option) seek_append :: "'d platform \<Rightarrow> nat \<Rightarrow> u32 \<Rightarrow> 'd fs \<Rightarrow> (seek_result \<times> 'd fs) option" where
  "seek_append P fd pos s =
     (if unat (curr_pos (hnd fd s)) + TFS_DATA_LEN \<le> unat pos
      then do {
        (n, s) \<leftarrow> alloc_block P s;
        let s = s\<lparr>blk_buf := set_next (blk_buf s) n\<rparr>;
            s = write_buf P (curr_blk (hnd fd s)) s
        in if last_error s \<noteq> TFS_ERR_OK then Some (SEEK_ERROR, s)
           else let s = s\<lparr>blk_buf := mem_set (blk_buf s) 8 0 TFS_DATA_LEN\<rparr>;
                    s = s\<lparr>blk_buf := set_prev (blk_buf s) (curr_blk (hnd fd s))\<rparr>;
                    s = upd_hnd fd (\<lambda>h. h\<lparr>curr_blk := blk_next (blk_buf s)\<rparr>) s;
                    s = s\<lparr>blk_buf := set_next (blk_buf s) 0\<rparr>;
                    s = upd_hnd fd (\<lambda>h. h\<lparr>curr_pos := curr_pos h + 504\<rparr>) s
                in seek_append P fd pos s
      }
      else Some (SEEK_APPEND, s))"

definition seek :: "'d platform \<Rightarrow> nat \<Rightarrow> u32 \<Rightarrow> bool \<Rightarrow> 'd fs \<Rightarrow> (seek_result \<times> 'd fs) option" where
  "seek P fd pos app s =
     (let s = (if pos = 0 \<or> curr_blk (hnd fd s) = 0 then upd_hnd fd init_pos s else s)
      in do {
        (ok, s) \<leftarrow> seek_backward P fd pos s;
        if \<not> ok then Some (SEEK_ERROR, s)
        else do {
          (ok, last_blk, last_pos, s) \<leftarrow> seek_forward P fd pos 0 0 s;
          if \<not> ok then Some (SEEK_ERROR, s)
          else if curr_blk (hnd fd s) \<noteq> 0
          then let s = read_buf P (curr_blk (hnd fd s)) s
               in if last_error s \<noteq> TFS_ERR_OK then Some (SEEK_ERROR, s) else Some (SEEK_OK, s)
          else if \<not> app then Some (SEEK_EOF, s)
          else if first_blk (hnd fd s) = 0
          then do {
            (n, s) \<leftarrow> alloc_block P s;
            let s = upd_hnd fd (\<lambda>h. h\<lparr>first_blk := n\<rparr>) s
            in if last_error s \<noteq> TFS_ERR_OK then Some (SEEK_ERROR, s)
               else let s = upd_hnd fd init_pos (s\<lparr>blk_buf := replicate TFS_BLOCKSIZE 0\<rparr>)
                    in seek_append P fd pos s
          }
          else seek_append P fd pos (upd_hnd fd (\<lambda>h. h\<lparr>curr_blk := last_blk, curr_pos := last_pos\<rparr>) s)
        }
      })"

section \<open>tfs_stat, tfs_touch, tfs_open, tfs_close\<close>

text \<open>The pointer that \<open>tfs_stat\<close> returns is the index of the item in \<open>blk_buf\<close>.\<close>

definition tfs_stat :: "'d platform \<Rightarrow> byte list \<Rightarrow> 'd fs \<Rightarrow> (nat option \<times> 'd fs) option" where
  "tfs_stat P name s = api_call P None (find_file P name False) s"

definition touch_body :: "'d platform \<Rightarrow> byte list \<Rightarrow> 'd fs \<Rightarrow> 'd fs option" where
  "touch_body P name s = do {
     (item, s) \<leftarrow> find_file P name True s;
     if last_error s \<noteq> TFS_ERR_OK then Some s
     else do {
       i \<leftarrow> item;
       if item_type (blk_buf s) i \<noteq> TFS_DIR_ITEM_FREE then Some s
       else Some (write_buf P (loaded_dir_blk s)
         (s\<lparr>blk_buf := fill_item i TFS_DIR_ITEM_FILE 0 0 name (blk_buf s)\<rparr>))
     }
   }"

definition tfs_touch :: "'d platform \<Rightarrow> byte list \<Rightarrow> 'd fs \<Rightarrow> 'd fs option" where
  "tfs_touch P name s = api_void P (touch_body P name) s"

text \<open>The first index at which the handles satisfy \<open>Q\<close>.\<close>

fun find_fd :: "(filehandle \<Rightarrow> bool) \<Rightarrow> filehandle list \<Rightarrow> nat option" where
  "find_fd Q [] = None"
| "find_fd Q (h # hs) = (if Q h then Some 0 else map_option Suc (find_fd Q hs))"

text \<open>
  The loop for an empty handle tests \<open>hnd->usage_count\<close> before it tests the index, so that with
  all handles in use it reads the handle behind the table, and takes it if its count is 0.
\<close>

definition empty_fd :: "'d fs \<Rightarrow> nat option" where
  "empty_fd s =
     (case find_fd (\<lambda>h. \<not> usage_count h > 0) (handles s) of
        Some fd \<Rightarrow> Some fd
      | None \<Rightarrow> if usage_count (after_handles s) > 0 then None else Some (length (handles s)))"

definition store_hnd :: "nat \<Rightarrow> filehandle \<Rightarrow> 'd fs \<Rightarrow> 'd fs" where
  "store_hnd fd h s =
     (if fd < length (handles s) then s\<lparr>handles := (handles s)[fd := h]\<rparr> else s\<lparr>after_handles := h\<rparr>)"

definition open_body :: "'d platform \<Rightarrow> byte list \<Rightarrow> 'd fs \<Rightarrow> (int \<times> 'd fs) option" where
  "open_body P name s = do {
     (item, s) \<leftarrow> find_file P name False s;
     if last_error s \<noteq> TFS_ERR_OK then Some (-1, s)
     else case item of
            None \<Rightarrow> Some (-1, set_error TFS_ERR_NOT_EXIST s)
          | Some i \<Rightarrow>
              if item_type (blk_buf s) i \<noteq> TFS_DIR_ITEM_FILE then Some (-1, set_error TFS_ERR_NOT_EXIST s)
              else case find_fd (\<lambda>h. dir_blk h = loaded_dir_blk s \<and> dir_item h = Some i \<and> usage_count h > 0) (handles s) of
                     Some fd \<Rightarrow> Some (int fd, upd_hnd fd (\<lambda>h. h\<lparr>usage_count := usage_count h + 1\<rparr>) s)
                   | None \<Rightarrow>
                       (case empty_fd s of
                          None \<Rightarrow> Some (-1, set_error TFS_ERR_NO_FREE_FD s)
                        | Some fd \<Rightarrow>
                            let h = \<lparr>usage_count = 1, dir_blk = loaded_dir_blk s, dir_item = Some i,
                                     fh_size = item_size (blk_buf s) i, first_blk = item_blk (blk_buf s) i,
                                     curr_blk = 0, curr_pos = 0\<rparr>
                            in Some (int fd, store_hnd fd (init_pos h) s))
   }"

definition tfs_open :: "'d platform \<Rightarrow> byte list \<Rightarrow> 'd fs \<Rightarrow> (int \<times> 'd fs) option" where
  "tfs_open P name s = api_call P (-1) (open_body P name) s"

text \<open>The two checks at the head of every function that takes a descriptor.\<close>

definition valid_fd :: "int \<Rightarrow> 'd fs \<Rightarrow> bool" where
  "valid_fd fd s \<longleftrightarrow> \<not> (fd < 0 \<or> int TFS_MAX_FDS \<le> fd) \<and> \<not> usage_count (hnd (nat fd) s) \<le> 0"

definition tfs_close :: "int \<Rightarrow> 'd fs \<Rightarrow> 'd fs" where
  "tfs_close fd s =
     (if last_error s = TFS_ERR_NO_DEV then s
      else let s = set_error TFS_ERR_OK s
           in if \<not> valid_fd fd s then set_error TFS_ERR_INVAL_FD s
              else upd_hnd (nat fd) (\<lambda>h. h\<lparr>usage_count := usage_count h - 1\<rparr>) s)"

section \<open>tfs_trunc\<close>

text \<open>\<open>save\<close> says whether the current block has to be written.\<close>

definition trunc_tail :: "'d platform \<Rightarrow> nat \<Rightarrow> bool \<Rightarrow> u32 \<Rightarrow> 'd fs \<Rightarrow> 'd fs option" where
  "trunc_tail P fd save free_from s =
     (let s = (if save then write_buf P (curr_blk (hnd fd s)) s else s)
      in if save \<and> last_error s \<noteq> TFS_ERR_OK then Some s
         else do {
           s \<leftarrow> free_file_blocks P free_from s;
           if last_error s \<noteq> TFS_ERR_OK then Some s else update_dir_item P fd s
         })"

definition trunc_body :: "'d platform \<Rightarrow> int \<Rightarrow> u32 \<Rightarrow> 'd fs \<Rightarrow> 'd fs option" where
  "trunc_body P fd sz s =
     (if \<not> valid_fd fd s then Some (set_error TFS_ERR_INVAL_FD s)
      else if sz = 0
      then do {
        s \<leftarrow> free_file_blocks P (first_blk (hnd (nat fd) s)) s;
        if last_error s \<noteq> TFS_ERR_OK then Some s
        else let s = upd_hnd (nat fd) (\<lambda>h. h\<lparr>first_blk := 0\<rparr>) s
             in update_dir_item P (nat fd) (upd_hnd (nat fd) init_pos s)
      }
      else do {
        (seek_res, s) \<leftarrow> seek P (nat fd) sz True s;
        if last_error s \<noteq> TFS_ERR_OK then Some s
        else if seek_res = SEEK_OK
        then let free_from = blk_next (blk_buf s);
                 s = s\<lparr>blk_buf := set_next (blk_buf s) 0\<rparr>
             in trunc_tail P (nat fd) (free_from \<noteq> 0) free_from s
        else trunc_tail P (nat fd) (seek_res = SEEK_APPEND) 0 s
      })"

definition tfs_trunc :: "'d platform \<Rightarrow> int \<Rightarrow> u32 \<Rightarrow> 'd fs \<Rightarrow> 'd fs option" where
  "tfs_trunc P fd sz s = api_void P (trunc_body P fd sz) s"

section \<open>tfs_write and tfs_read\<close>

text \<open>How the data loops end: at the end of the data, by \<open>goto out\<close>, or by the \<open>return\<close> that leaves
  the drive selected.\<close>

datatype loop_exit = LoopDone | LoopOut | LoopReturn

text \<open>
  The variables of the loop of \<open>tfs_write\<close>; \<open>wr_data\<close> is what \<open>data\<close> points to, \<open>wr_blk_os\<close> and
  \<open>wr_blk_len\<close> are the offset and the length in the current block.
\<close>

record write_vars =
  wr_data :: "byte list"
  wr_len :: u32
  wr_offset :: u32
  wr_ret :: u32
  wr_append :: bool
  wr_update_item :: bool
  wr_blk_os :: u32
  wr_blk_len :: u32

text \<open>Up to the write of the block: the user's data is copied and the next block is allocated.\<close>

definition write_chunk :: "'d platform \<Rightarrow> nat \<Rightarrow> write_vars \<Rightarrow> 'd fs \<Rightarrow> (write_vars \<times> 'd fs) option" where
  "write_chunk P fd v s =
     (let blk_len = (if wr_blk_len v > wr_len v then wr_len v else wr_blk_len v);
          s = s\<lparr>blk_buf := put_data (blk_buf s) (unat (wr_blk_os v)) (take (unat blk_len) (wr_data v))\<rparr>;
          v = v\<lparr>wr_data := drop (unat blk_len) (wr_data v), wr_len := wr_len v - blk_len,
                wr_offset := wr_offset v + blk_len, wr_ret := wr_ret v + blk_len, wr_blk_len := blk_len\<rparr>
      in do {
        (v, s) \<leftarrow> (if wr_len v > 0 \<and> blk_next (blk_buf s) = 0
                   then do {
                     (n, s) \<leftarrow> alloc_block P s;
                     Some (v\<lparr>wr_append := True\<rparr>, s\<lparr>blk_buf := set_next (blk_buf s) n\<rparr>)
                   }
                   else Some (v, s));
        Some (v, write_buf P (curr_blk (hnd fd s)) s)
      })"

partial_function (option) write_data_loop :: "'d platform \<Rightarrow> nat \<Rightarrow> write_vars \<Rightarrow> 'd fs
    \<Rightarrow> (loop_exit \<times> write_vars \<times> 'd fs) option" where
  "write_data_loop P fd v s = do {
     (v, s) \<leftarrow> write_chunk P fd v s;
     if last_error s \<noteq> TFS_ERR_OK then Some (LoopOut, v, s)
     else let grow = wr_offset v > fh_size (hnd fd s);
              s = (if grow then upd_hnd fd (\<lambda>h. h\<lparr>fh_size := wr_offset v\<rparr>) s else s);
              v = (if grow then v\<lparr>wr_update_item := True\<rparr> else v)
          in if wr_len v = 0 then Some (LoopDone, v, s)
             else let v' = v\<lparr>wr_blk_os := 0, wr_blk_len := 504\<rparr>
                  in if wr_append v
                     then let s = s\<lparr>blk_buf := set_prev (blk_buf s) (curr_blk (hnd fd s))\<rparr>;
                              s = upd_hnd fd (\<lambda>h. h\<lparr>curr_blk := blk_next (blk_buf s)\<rparr>) s;
                              s = s\<lparr>blk_buf := set_next (blk_buf s) 0\<rparr>;
                              s = s\<lparr>blk_buf := mem_set (blk_buf s) 8 0 TFS_DATA_LEN\<rparr>
                          in write_data_loop P fd v' (upd_hnd fd (\<lambda>h. h\<lparr>curr_pos := curr_pos h + 504\<rparr>) s)
                     else let s = upd_hnd fd (\<lambda>h. h\<lparr>curr_blk := blk_next (blk_buf s)\<rparr>) s;
                              s = read_buf P (curr_blk (hnd fd s)) s
                          in if last_error s \<noteq> TFS_ERR_OK then Some (LoopReturn, v, s)
                             else write_data_loop P fd v' (upd_hnd fd (\<lambda>h. h\<lparr>curr_pos := curr_pos h + 504\<rparr>) s)
   }"

text \<open>From the label \<open>update\<close> on.\<close>

definition write_update :: "'d platform \<Rightarrow> nat \<Rightarrow> bool \<Rightarrow> u32 \<Rightarrow> 'd fs \<Rightarrow> (u32 \<times> 'd fs) option" where
  "write_update P fd upd ret s = do {
     s \<leftarrow> (if upd then update_dir_item P fd s else Some s);
     Some (ret, drive_deselect P s)
   }"

definition tfs_write :: "'d platform \<Rightarrow> int \<Rightarrow> byte list \<Rightarrow> u32 \<Rightarrow> u32 \<Rightarrow> 'd fs \<Rightarrow> (u32 \<times> 'd fs) option" where
  "tfs_write P fd data len offset s =
     (if last_error s = TFS_ERR_NO_DEV then Some (0, s)
      else let s = drive_select P (set_error TFS_ERR_OK s)
           in if \<not> valid_fd fd s then Some (0, drive_deselect P (set_error TFS_ERR_INVAL_FD s))
              else do {
                (r, s) \<leftarrow> seek P (nat fd) offset True s;
                if last_error s \<noteq> TFS_ERR_OK then Some (0, drive_deselect P s)
                else if len = 0 then write_update P (nat fd) (r = SEEK_APPEND) 0 s
                else let os = offset - curr_pos (hnd (nat fd) s)
                     in do {
                       (e, v, s) \<leftarrow> write_data_loop P (nat fd)
                         \<lparr>wr_data = data, wr_len = len, wr_offset = offset, wr_ret = 0,
                          wr_append = (r = SEEK_APPEND), wr_update_item = (r = SEEK_APPEND),
                          wr_blk_os = os, wr_blk_len = 504 - os\<rparr> s;
                       case e of
                         LoopDone \<Rightarrow> write_update P (nat fd) (wr_update_item v) (wr_ret v) s
                       | LoopOut \<Rightarrow> Some (wr_ret v, drive_deselect P s)
                       | LoopReturn \<Rightarrow> Some (0, s)
                     }
              })"

partial_function (option) read_data_loop :: "'d platform \<Rightarrow> nat \<Rightarrow> u32 \<Rightarrow> u32 \<Rightarrow> u32 \<Rightarrow> u32 \<Rightarrow> byte list \<Rightarrow> 'd fs
    \<Rightarrow> (loop_exit \<times> (u32 \<times> byte list) \<times> 'd fs) option" where
  "read_data_loop P fd len blk_os blk_len ret out s =
     (let blk_len = (if blk_len > len then len else blk_len);
          out = out @ take (unat blk_len) (drop (unat blk_os) (data_bytes (blk_buf s)));
          len = len - blk_len;
          ret = ret + blk_len
      in if len = 0 then Some (LoopOut, (ret, out), s)
         else let s = upd_hnd fd (\<lambda>h. h\<lparr>curr_blk := blk_next (blk_buf s), curr_pos := curr_pos h + 504\<rparr>) s
              in if curr_blk (hnd fd s) = 0 then Some (LoopOut, (ret, out), s)
                 else let s = read_buf P (curr_blk (hnd fd s)) s
                      in if last_error s \<noteq> TFS_ERR_OK then Some (LoopReturn, (0, out), s)
                         else read_data_loop P fd len 0 504 ret out s)"

definition tfs_read :: "'d platform \<Rightarrow> int \<Rightarrow> u32 \<Rightarrow> u32 \<Rightarrow> 'd fs \<Rightarrow> ((u32 \<times> byte list) \<times> 'd fs) option" where
  "tfs_read P fd len offset s =
     (if last_error s = TFS_ERR_NO_DEV then Some ((0, []), s)
      else let s = drive_select P (set_error TFS_ERR_OK s)
           in if \<not> valid_fd fd s then Some ((0, []), drive_deselect P (set_error TFS_ERR_INVAL_FD s))
              else if offset > fh_size (hnd (nat fd) s) then Some ((0, []), drive_deselect P s)
              else let rest = fh_size (hnd (nat fd) s) - offset;
                       len = (if len > rest then rest else len)
                   in do {
                     (r, s) \<leftarrow> seek P (nat fd) offset False s;
                     if r = SEEK_EOF then Some ((0, []), drive_deselect P s)
                     else if last_error s \<noteq> TFS_ERR_OK then Some ((0, []), drive_deselect P s)
                     else if len = 0 then Some ((0, []), drive_deselect P s)
                     else let os = offset - curr_pos (hnd (nat fd) s)
                          in do {
                            (e, res, s) \<leftarrow> read_data_loop P (nat fd) len os (504 - os) 0 [] s;
                            Some (res, if e = LoopReturn then s else drive_deselect P s)
                          }
                   })"

end
