(* ===== verification/Handle_Specs.thy ===== *)
theory Handle_Specs
  imports Handles
begin

text \<open>
  What the functions on handles do on a working drive: \<open>seek\<close> inside a file and to its end, and
  \<open>tfs_read\<close>, which returns the bytes of the file from the offset on.
\<close>

lemma hnd_upd [simp]:
  "fd < length (handles s) \<Longrightarrow> hnd fd (upd_hnd fd f s) = f (hnd fd s)"
  "hnd fd (s\<lparr>blk_buf := b\<rparr>) = hnd fd s" "hnd fd (read_buf P n s) = hnd fd s"
  "hnd fd (set_error e s) = hnd fd s" "hnd fd (drive_select P s) = hnd fd s" "hnd fd (drive_deselect P s) = hnd fd s"
  by (simp_all add: hnd_def upd_hnd_def)

lemma upd_hnd_simps [simp]:
  "last_error (upd_hnd fd f s) = last_error s" "dev (upd_hnd fd f s) = dev s"
  "drive_info (upd_hnd fd f s) = drive_info s" "last_bitmap_blk (upd_hnd fd f s) = last_bitmap_blk s"
  "last_bitmap_len (upd_hnd fd f s) = last_bitmap_len s" "loaded_bitmap_blk (upd_hnd fd f s) = loaded_bitmap_blk s"
  "bitmap_blk (upd_hnd fd f s) = bitmap_blk s" "current_dir_blk (upd_hnd fd f s) = current_dir_blk s"
  "loaded_dir_blk (upd_hnd fd f s) = loaded_dir_blk s" "blk_buf (upd_hnd fd f s) = blk_buf s"
  "length (handles (upd_hnd fd f s)) = length (handles s)" "after_bitmap (upd_hnd fd f s) = after_bitmap s"
  "after_handles (upd_hnd fd f s) = after_handles s" "callbacks (upd_hnd fd f s) = callbacks s"
  by (simp_all add: upd_hnd_def)

text \<open>The block with index \<open>k\<close> of a chain and its neighbours.\<close>

lemma chain_nth_next:
  "chain C p xs \<Longrightarrow> k < length xs \<Longrightarrow> blk_next (C (xs ! k)) = (if Suc k < length xs then xs ! Suc k else 0)"
proof (induction xs arbitrary: p k)
  case (Cons x xs)
  show ?case
  proof (cases k)
    case 0
    with Cons.prems show ?thesis by (cases xs) auto
  next
    case (Suc j)
    with Cons show ?thesis by auto
  qed
qed simp

lemma back_links_nth: "back_links C p xs \<Longrightarrow> k < length xs \<Longrightarrow> blk_prev (C (xs ! k)) = (if k = 0 then p else xs ! (k - 1))"
proof (induction xs arbitrary: p k)
  case (Cons x xs)
  then show ?case by (cases k) (auto simp: nth_Cons split: nat.splits)
qed simp

lemma chain_data_drop: "k < length xs \<Longrightarrow> chain_data C (drop k xs) = data_bytes (C (xs ! k)) @ chain_data C (drop (Suc k) xs)"
  by (simp add: Cons_nth_drop_Suc[symmetric])

context block_device
begin

lemma chain_data_from: "k \<le> length xs \<Longrightarrow> chain_data (cont s) (drop k xs) = drop (504 * k) (chain_data (cont s) xs)"
proof (induction xs arbitrary: k)
  case (Cons x xs)
  then show ?case by (cases k) simp_all
qed simp

lemma ready_upd_hnd [simp]: "ready (upd_hnd fd f s) = ready s"
  by (simp add: ready_def io_ok_def bitmap_ok_def upd_hnd_def del: io_ok_lengths)

text \<open>
  Handle \<open>fd\<close> is on the file with blocks \<open>xs\<close>, and its position, when it has one, is the start of
  one of them.
\<close>

definition handle_on :: "'d fs \<Rightarrow> nat \<Rightarrow> u32 list \<Rightarrow> bool" where
  "handle_on s fd xs \<longleftrightarrow> fd < length (handles s) \<and> chain (cont s) (first_blk (hnd fd s)) xs \<and>
     back_links (cont s) 0 xs \<and> (\<forall>x \<in> set xs. x < blk_count s) \<and> 504 * length xs < 2 ^ 32 \<and>
     (curr_blk (hnd fd s) \<noteq> 0 \<longrightarrow>
       (\<exists>k < length xs. curr_blk (hnd fd s) = xs ! k \<and> unat (curr_pos (hnd fd s)) = 504 * k))"

definition at_block :: "'d fs \<Rightarrow> nat \<Rightarrow> u32 list \<Rightarrow> nat \<Rightarrow> bool" where
  "at_block s fd xs k \<longleftrightarrow> k < length xs \<and> curr_blk (hnd fd s) = xs ! k \<and> unat (curr_pos (hnd fd s)) = 504 * k"

text \<open>Only the position of the handle and the block buffer changed.\<close>

definition moved :: "'d fs \<Rightarrow> 'd fs \<Rightarrow> nat \<Rightarrow> bool" where
  "moved s s' fd \<longleftrightarrow> ready s' \<and> cont s' = cont s \<and> (\<exists>b p. fs_frame (upd_hnd fd (\<lambda>h. h\<lparr>curr_blk := b, curr_pos := p\<rparr>) s) s')"

lemma moved_trans:
  assumes "moved s t fd" and "moved t u fd" shows "moved s u fd"
proof -
  obtain b p b' p' where f: "fs_frame (upd_hnd fd (\<lambda>h. h\<lparr>curr_blk := b, curr_pos := p\<rparr>) s) t"
    "fs_frame (upd_hnd fd (\<lambda>h. h\<lparr>curr_blk := b', curr_pos := p'\<rparr>) t) u"
    using assms by (auto simp: moved_def)
  have "(handles t)[fd := (handles t ! fd)\<lparr>curr_blk := b', curr_pos := p'\<rparr>] =
      (handles s)[fd := (handles s ! fd)\<lparr>curr_blk := b', curr_pos := p'\<rparr>]"
    using f(1) by (cases "fd < length (handles s)") (simp_all add: fs_frame_def upd_hnd_def list_update_beyond)
  then have "fs_frame (upd_hnd fd (\<lambda>h. h\<lparr>curr_blk := b', curr_pos := p'\<rparr>) s) u"
    using f by (simp add: fs_frame_def upd_hnd_def)
  then show ?thesis using assms by (auto simp: moved_def)
qed

lemma moved_frame:
  assumes "ready s'" and "cont s' = cont s" and "fs_frame s s'"
  shows "moved s s' fd"
proof -
  have "upd_hnd fd (\<lambda>h. h\<lparr>curr_blk := curr_blk (handles s ! fd), curr_pos := curr_pos (handles s ! fd)\<rparr>) s = s"
    by (simp add: upd_hnd_def)
  with assms show ?thesis unfolding moved_def by metis
qed

lemma moved_refl [simp]: "ready s \<Longrightarrow> moved s s fd"
  by (rule moved_frame) simp_all

lemma moved_upd:
  "ready s \<Longrightarrow> moved s (upd_hnd fd (\<lambda>h. h\<lparr>curr_blk := b, curr_pos := p\<rparr>) s) fd"
  unfolding moved_def by (intro conjI exI[of _ b] exI[of _ p]) simp_all

lemma moved_read: "ready s \<Longrightarrow> n < blk_count s \<Longrightarrow> moved s (read_buf P n s) fd"
  by (rule moved_frame) simp_all

lemma movedD:
  assumes "moved s s' fd"
  shows "ready s'" "cont s' = cont s" "blk_count s' = blk_count s" "length (handles s') = length (handles s)"
    "fd < length (handles s) \<Longrightarrow> first_blk (hnd fd s') = first_blk (hnd fd s)"
    "fd < length (handles s) \<Longrightarrow> fh_size (hnd fd s') = fh_size (hnd fd s)"
    "fd < length (handles s) \<Longrightarrow> usage_count (hnd fd s') = usage_count (hnd fd s)"
  using assms by (auto simp: moved_def fs_frame_def upd_hnd_def hnd_def)

lemma handle_on_moved:
  assumes "handle_on s fd xs" and "moved s s' fd" and "curr_blk (hnd fd s') \<noteq> 0 \<Longrightarrow> \<exists>k. at_block s' fd xs k"
  shows "handle_on s' fd xs"
  using assms(1,3) movedD[OF assms(2)] by (auto simp: handle_on_def at_block_def)

lemma seek_backward_spec:
  assumes "ready s" and "handle_on s fd xs" and "at_block s fd xs k"
  shows "\<exists>s'. seek_backward P fd pos s = Some (True, s') \<and> moved s s' fd \<and> at_block s' fd xs (min k (unat pos div 504))"
  using assms
proof (induction k arbitrary: s)
  case 0
  then have "\<not> curr_pos (hnd fd s) > pos" by (simp add: at_block_def word_less_nat_alt)
  with 0 show ?case by (intro exI[of _ s]) (simp add: seek_backward.simps[of P fd pos s])
next
  case (Suc k)
  have h: "fd < length (handles s)" "chain (cont s) (first_blk (hnd fd s)) xs" "back_links (cont s) 0 xs" "\<forall>x \<in> set xs. x < blk_count s"
    using Suc.prems(2) by (simp_all add: handle_on_def)
  have a: "Suc k < length xs" "curr_blk (hnd fd s) = xs ! Suc k" "unat (curr_pos (hnd fd s)) = 504 * Suc k"
    using Suc.prems(3) by (simp_all add: at_block_def)
  have nz: "xs ! j \<noteq> 0" if "j < length xs" for j using chain_nonzero[OF h(2)] that by simp
  show ?case
  proof (cases "curr_pos (hnd fd s) > pos")
    case False
    then have "504 * Suc k \<le> unat pos" using a(3) by (simp add: word_less_nat_alt)
    then have "Suc k \<le> unat pos div 504" by (simp add: less_eq_div_iff_mult_less_eq)
    with False Suc.prems show ?thesis
      by (intro exI[of _ s]) (simp add: seek_backward.simps[of P fd pos s] min_def)
  next
    case True
    let ?s1 = "read_buf P (xs ! Suc k) s"
    let ?s2 = "upd_hnd fd (\<lambda>h. h\<lparr>curr_blk := xs ! k, curr_pos := curr_pos h - 504\<rparr>) ?s1"
    have rd: "xs ! Suc k < blk_count s" using h(4) a(1) by simp
    have s1: "ready ?s1" "cont ?s1 = cont s" "blk_buf ?s1 = cont s (xs ! Suc k)" "last_error ?s1 = TFS_ERR_OK"
      using Suc.prems(1) rd by simp_all
    have pv: "blk_prev (cont s (xs ! Suc k)) = xs ! k" using back_links_nth[OF h(3) a(1)] by simp
    have "unat (curr_pos (hnd fd s) - 504) = 504 * k" using a(3) by (simp add: unat_sub word_le_nat_alt)
    then have at: "at_block ?s2 fd xs k" using a(1) h(1) by (simp add: at_block_def)
    have e2: "?s2 = upd_hnd fd (\<lambda>h. h\<lparr>curr_blk := xs ! k, curr_pos := curr_pos (hnd fd s) - 504\<rparr>) ?s1"
      by (simp add: upd_hnd_def hnd_def)
    have m: "moved s ?s2 fd"
      by (rule moved_trans[OF moved_read[OF Suc.prems(1) rd]]) (simp only: e2 moved_upd[OF s1(1)])
    have "handle_on ?s2 fd xs" by (rule handle_on_moved[OF Suc.prems(2) m]) (use at in blast)
    then obtain s' where s': "seek_backward P fd pos ?s2 = Some (True, s')" "moved ?s2 s' fd"
      "at_block s' fd xs (min k (unat pos div 504))"
      using Suc.IH[of ?s2] s1(1) at by auto
    have "seek_backward P fd pos s = seek_backward P fd pos ?s2"
      using True a nz[OF a(1)] nz[of k] s1 pv by (subst seek_backward.simps) (simp add: Let_def)
    moreover have "min (Suc k) (unat pos div 504) = min k (unat pos div 504)"
    proof -
      have "unat pos < 504 * Suc k" using True a(3) by (simp add: word_less_nat_alt)
      then have "unat pos div 504 < Suc k" by (simp add: less_mult_imp_div_less mult.commute)
      then show ?thesis by simp
    qed
    ultimately show ?thesis using s' moved_trans[OF m s'(2)] by auto
  qed
qed

text \<open>One step forward: to the next block, or off the end of the file.\<close>

lemma seek_forward_step:
  assumes r: "ready s" and on: "handle_on s fd xs" and at: "at_block s fd xs k" and far: "504 * Suc k \<le> unat pos"
  obtains s' where "seek_forward P fd pos lb lp s = seek_forward P fd pos (xs ! k) (curr_pos (hnd fd s)) s'" "moved s s' fd"
    "if Suc k < length xs then at_block s' fd xs (Suc k)
     else curr_blk (hnd fd s') = 0 \<and> unat (curr_pos (hnd fd s')) = 504 * length xs"
    "blk_buf s' = cont s (xs ! k)"
proof -
  have h: "fd < length (handles s)" "chain (cont s) (first_blk (hnd fd s)) xs" "\<forall>x \<in> set xs. x < blk_count s"
    "504 * length xs < 2 ^ 32"
    using on by (simp_all add: handle_on_def)
  have a: "k < length xs" "curr_blk (hnd fd s) = xs ! k" "unat (curr_pos (hnd fd s)) = 504 * k"
    using at by (simp_all add: at_block_def)
  let ?s1 = "read_buf P (xs ! k) s"
  let ?n = "blk_next (cont s (xs ! k))" and ?p = "curr_pos (hnd fd s) + 504"
  let ?s2 = "upd_hnd fd (\<lambda>h. h\<lparr>curr_blk := ?n, curr_pos := ?p\<rparr>) ?s1"
  have rd: "xs ! k < blk_count s" "xs ! k \<noteq> 0" using h(3) a(1) chain_nonzero[OF h(2)] by simp_all
  have s1: "ready ?s1" "cont ?s1 = cont s" "blk_buf ?s1 = cont s (xs ! k)" "last_error ?s1 = TFS_ERR_OK"
    using r rd by simp_all
  have nx: "?n = (if Suc k < length xs then xs ! Suc k else 0)" by (rule chain_nth_next[OF h(2) a(1)])
  have "504 * Suc k \<le> 504 * length xs" using a(1) by simp
  then have p: "unat ?p = 504 * Suc k" using a(3) h(4) by (simp add: unat_word_ariths)
  have m: "moved s ?s2 fd"
    by (rule moved_trans[OF moved_read[OF r rd(1)]]) (rule moved_upd[OF s1(1)])
  have e: "upd_hnd fd (\<lambda>h. h\<lparr>curr_blk := ?n, curr_pos := curr_pos h + 504\<rparr>) ?s1 = ?s2"
    by (simp add: upd_hnd_def hnd_def)
  have "unat (curr_pos (hnd fd s)) + TFS_DATA_LEN \<le> unat pos" using far a(3) by simp
  then have "seek_forward P fd pos lb lp s = seek_forward P fd pos (xs ! k) (curr_pos (hnd fd s)) ?s2"
    using a(2) rd s1 e by (subst seek_forward.simps) (simp add: Let_def)
  then show thesis
  proof (rule that[OF _ m])
    show "if Suc k < length xs then at_block ?s2 fd xs (Suc k)
      else curr_blk (hnd fd ?s2) = 0 \<and> unat (curr_pos (hnd fd ?s2)) = 504 * length xs"
    proof (cases "Suc k < length xs")
      case True
      then show ?thesis using nx p h(1) by (simp add: at_block_def)
    next
      case False
      then have "length xs = Suc k" using a(1) by simp
      then show ?thesis using nx p h(1) by simp
    qed
    show "blk_buf ?s2 = cont s (xs ! k)" using s1(3) by simp
  qed
qed

lemma seek_forward_spec:
  assumes "ready s" and "handle_on s fd xs" and "at_block s fd xs k" and "k \<le> unat pos div 504"
  shows "\<exists>lb lp s'. seek_forward P fd pos lb0 lp0 s = Some (True, lb, lp, s') \<and> moved s s' fd \<and>
    (if unat pos div 504 < length xs then at_block s' fd xs (unat pos div 504)
     else curr_blk (hnd fd s') = 0 \<and> unat (curr_pos (hnd fd s')) = 504 * length xs \<and> lb = last xs \<and>
          unat lp = 504 * (length xs - 1) \<and> blk_buf s' = cont s (last xs))"
  using assms
proof (induction "unat pos div 504 - k" arbitrary: k s lb0 lp0)
  case 0
  then have k: "k = unat pos div 504" by simp
  then have "\<not> unat (curr_pos (hnd fd s)) + TFS_DATA_LEN \<le> unat pos"
    using 0(4) dividend_less_times_div[of 504 "unat pos"] by (simp add: at_block_def)
  with k 0 show ?case
    by (intro exI[of _ lb0] exI[of _ lp0] exI[of _ s]) (simp add: seek_forward.simps[of P fd pos lb0 lp0 s] at_block_def)
next
  case (Suc d)
  have kt: "Suc k \<le> unat pos div 504" using Suc.hyps(2) by simp
  then have far: "504 * Suc k \<le> unat pos" by (simp add: less_eq_div_iff_mult_less_eq)
  have at: "k < length xs" "unat (curr_pos (hnd fd s)) = 504 * k" using Suc.prems(3) by (simp_all add: at_block_def)
  obtain s1 where s1: "seek_forward P fd pos lb0 lp0 s = seek_forward P fd pos (xs ! k) (curr_pos (hnd fd s)) s1" "moved s s1 fd"
    "if Suc k < length xs then at_block s1 fd xs (Suc k)
     else curr_blk (hnd fd s1) = 0 \<and> unat (curr_pos (hnd fd s1)) = 504 * length xs"
    "blk_buf s1 = cont s (xs ! k)"
    by (rule seek_forward_step[OF Suc.prems(1-3) far])
  note m1 = movedD[OF s1(2)]
  show ?case
  proof (cases "Suc k < length xs")
    case True
    then have a1: "at_block s1 fd xs (Suc k)" using s1(3) by simp
    have on1: "handle_on s1 fd xs" by (rule handle_on_moved[OF Suc.prems(2) s1(2)]) (use a1 in blast)
    have d: "d = unat pos div 504 - Suc k" using Suc.hyps(2) by simp
    obtain lb lp s' where s': "seek_forward P fd pos (xs ! k) (curr_pos (hnd fd s)) s1 = Some (True, lb, lp, s')" "moved s1 s' fd"
      "if unat pos div 504 < length xs then at_block s' fd xs (unat pos div 504)
       else curr_blk (hnd fd s') = 0 \<and> unat (curr_pos (hnd fd s')) = 504 * length xs \<and> lb = last xs \<and>
            unat lp = 504 * (length xs - 1) \<and> blk_buf s' = cont s1 (last xs)"
      using Suc.hyps(1)[OF d m1(1) on1 a1 kt] by blast
    then show ?thesis using s1(1) moved_trans[OF s1(2) s'(2)] m1(2) by auto
  next
    case False
    then have n: "length xs = Suc k" using at(1) by simp
    then have "last xs = xs ! k" by (metis diff_Suc_1 last_conv_nth list.size(3) nat.distinct(1))
    moreover have "curr_blk (hnd fd s1) = 0" "unat (curr_pos (hnd fd s1)) = 504 * length xs" using s1(3) False by simp_all
    ultimately show ?thesis
      using s1 n kt at(2)
      by (intro exI[of _ "xs ! k"] exI[of _ "curr_pos (hnd fd s)"] exI[of _ s1])
        (simp add: seek_forward.simps[of P fd pos _ _ s1])
  qed
qed

lemma init_pos_moved:
  assumes "ready s" and "handle_on s fd xs"
  shows "moved s (upd_hnd fd init_pos s) fd" "handle_on (upd_hnd fd init_pos s) fd xs"
    "xs \<noteq> [] \<Longrightarrow> at_block (upd_hnd fd init_pos s) fd xs 0" "xs = [] \<Longrightarrow> curr_blk (hnd fd (upd_hnd fd init_pos s)) = 0"
    "curr_pos (hnd fd (upd_hnd fd init_pos s)) = 0"
proof -
  have h: "fd < length (handles s)" "chain (cont s) (first_blk (hnd fd s)) xs" using assms(2) by (simp_all add: handle_on_def)
  have "upd_hnd fd init_pos s = upd_hnd fd (\<lambda>h. h\<lparr>curr_blk := first_blk (handles s ! fd), curr_pos := 0\<rparr>) s"
    by (simp add: upd_hnd_def init_pos_def)
  then show m: "moved s (upd_hnd fd init_pos s) fd" using moved_upd[OF assms(1)] by simp
  show at: "at_block (upd_hnd fd init_pos s) fd xs 0" if "xs \<noteq> []"
    using that h by (cases xs) (auto simp: at_block_def init_pos_def)
  show e: "curr_blk (hnd fd (upd_hnd fd init_pos s)) = 0" if "xs = []"
    using that h by (simp add: init_pos_def)
  show "curr_pos (hnd fd (upd_hnd fd init_pos s)) = 0" using h by (simp add: init_pos_def)
  show "handle_on (upd_hnd fd init_pos s) fd xs"
    by (rule handle_on_moved[OF assms(2) m]) (use at e in \<open>cases "xs = []"; auto\<close>)
qed

text \<open>\<open>seek\<close> finds the block of a position inside the file, and says so when there is none.\<close>

theorem seek_spec:
  assumes "ready s" and "handle_on s fd xs"
  shows "unat pos div 504 < length xs \<Longrightarrow> \<exists>s'. seek P fd pos app s = Some (SEEK_OK, s') \<and> moved s s' fd \<and>
      handle_on s' fd xs \<and> at_block s' fd xs (unat pos div 504) \<and> blk_buf s' = cont s (xs ! (unat pos div 504))"
    and "length xs \<le> unat pos div 504 \<Longrightarrow> \<exists>s'. seek P fd pos False s = Some (SEEK_EOF, s') \<and> moved s s' fd \<and> handle_on s' fd xs"
proof -
  let ?t = "unat pos div 504"
  define s0 where "s0 = (if pos = 0 \<or> curr_blk (hnd fd s) = 0 then upd_hnd fd init_pos s else s)"
  have s0: "ready s0" "moved s s0 fd" "handle_on s0 fd xs"
    using init_pos_moved[OF assms] assms by (simp_all add: s0_def)
  note m0 = movedD[OF s0(2)]
  have sk: "seek P fd pos app s = (do {
        (ok, s) \<leftarrow> seek_backward P fd pos s0;
        if \<not> ok then Some (SEEK_ERROR, s)
        else do {
          (ok, last_blk, last_pos, s) \<leftarrow> seek_forward P fd pos 0 0 s;
          if \<not> ok then Some (SEEK_ERROR, s)
          else if curr_blk (hnd fd s) \<noteq> 0
          then let s = read_buf P (curr_blk (hnd fd s)) s
               in if last_error s \<noteq> TFS_ERR_OK then Some (SEEK_ERROR, s) else Some (SEEK_OK, s)
          else if \<not> app then Some (SEEK_EOF, s)
          else if first_blk (hnd fd s) = 0
          then do {
            (n, s) \<leftarrow> alloc_block P s;
            let s = upd_hnd fd (\<lambda>h. h\<lparr>first_blk := n\<rparr>) s
            in if last_error s \<noteq> TFS_ERR_OK then Some (SEEK_ERROR, s)
               else let s = upd_hnd fd init_pos (s\<lparr>blk_buf := replicate TFS_BLOCKSIZE 0\<rparr>)
                    in seek_append P fd pos s
          }
          else seek_append P fd pos (upd_hnd fd (\<lambda>h. h\<lparr>curr_blk := last_blk, curr_pos := last_pos\<rparr>) s)
        }
      })" for app
    by (simp add: seek_def s0_def Let_def)
  show "\<exists>s'. seek P fd pos app s = Some (SEEK_OK, s') \<and> moved s s' fd \<and>
      handle_on s' fd xs \<and> at_block s' fd xs ?t \<and> blk_buf s' = cont s (xs ! ?t)" if t: "?t < length xs"
  proof -
    have "\<exists>k. at_block s0 fd xs k"
    proof (cases "pos = 0 \<or> curr_blk (hnd fd s) = 0")
      case True
      have "at_block (upd_hnd fd init_pos s) fd xs 0" by (rule init_pos_moved(3)[OF assms]) (use t in auto)
      with True show ?thesis by (auto simp: s0_def)
    next
      case False
      with assms(2) show ?thesis by (auto simp: s0_def handle_on_def at_block_def)
    qed
    then obtain k where k: "at_block s0 fd xs k" ..
    obtain s1 where s1: "seek_backward P fd pos s0 = Some (True, s1)" "moved s0 s1 fd" "at_block s1 fd xs (min k ?t)"
      using seek_backward_spec[OF s0(1,3) k] by blast
    have on1: "handle_on s1 fd xs" by (rule handle_on_moved[OF s0(3) s1(2)]) (use s1(3) in blast)
    obtain lb lp s2 where s2: "seek_forward P fd pos 0 0 s1 = Some (True, lb, lp, s2)" "moved s1 s2 fd" "at_block s2 fd xs ?t"
      using seek_forward_spec[OF movedD(1)[OF s1(2)] on1 s1(3), of pos 0 0] t by auto
    note m2 = movedD[OF s2(2)]
    have on2: "handle_on s2 fd xs" by (rule handle_on_moved[OF on1 s2(2)]) (use s2(3) in blast)
    have c: "curr_blk (hnd fd s2) = xs ! ?t" "xs ! ?t \<noteq> 0" "xs ! ?t < blk_count s2"
      using s2(3) on2 chain_nonzero[of "cont s2" _ xs "xs ! ?t"] t by (auto simp: at_block_def handle_on_def)
    let ?s3 = "read_buf P (xs ! ?t) s2"
    have s3: "ready ?s3" "blk_buf ?s3 = cont s2 (xs ! ?t)" "last_error ?s3 = TFS_ERR_OK" "moved s2 ?s3 fd"
      using m2(1) c(3) moved_read by simp_all
    have at3: "at_block ?s3 fd xs ?t" using s2(3) by (simp add: at_block_def)
    have on3: "handle_on ?s3 fd xs" by (rule handle_on_moved[OF on2 s3(4)]) (use at3 in blast)
    have mv: "moved s ?s3 fd"
      by (rule moved_trans[OF s0(2) moved_trans[OF s1(2) moved_trans[OF s2(2) s3(4)]]])
    have "seek P fd pos app s = Some (SEEK_OK, ?s3)"
      unfolding sk using s1(1) s2(1) c s3 by (simp add: Let_def)
    then show ?thesis using mv on3 at3 s3(2) m2(2) movedD(2)[OF s1(2)] m0(2) by auto
  qed
  show "\<exists>s'. seek P fd pos False s = Some (SEEK_EOF, s') \<and> moved s s' fd \<and> handle_on s' fd xs" if t: "length xs \<le> ?t"
  proof (cases "xs = []")
    case True
    have z: "curr_blk (hnd fd s0) = 0"
      using True init_pos_moved(4)[OF assms] assms(2) by (auto simp: s0_def handle_on_def)
    then have "seek P fd pos False s = Some (SEEK_EOF, s0)"
      unfolding sk by (simp add: seek_backward.simps[of P fd pos s0] seek_forward.simps[of P fd pos 0 0 s0])
    with s0 show ?thesis by blast
  next
    case False
    have "pos \<noteq> 0" using t False by auto
    have "\<exists>k. at_block s0 fd xs k"
    proof (cases "curr_blk (hnd fd s) = 0")
      case True
      have "at_block (upd_hnd fd init_pos s) fd xs 0" by (rule init_pos_moved(3)[OF assms False])
      with True show ?thesis by (auto simp: s0_def)
    next
      case nz: False
      with assms(2) \<open>pos \<noteq> 0\<close> show ?thesis by (auto simp: s0_def handle_on_def at_block_def)
    qed
    then obtain k where k: "at_block s0 fd xs k" ..
    obtain s1 where s1: "seek_backward P fd pos s0 = Some (True, s1)" "moved s0 s1 fd" "at_block s1 fd xs (min k ?t)"
      using seek_backward_spec[OF s0(1,3) k] by blast
    have on1: "handle_on s1 fd xs" by (rule handle_on_moved[OF s0(3) s1(2)]) (use s1(3) in blast)
    obtain lb lp s2 where s2: "seek_forward P fd pos 0 0 s1 = Some (True, lb, lp, s2)" "moved s1 s2 fd"
      "curr_blk (hnd fd s2) = 0"
      using seek_forward_spec[OF movedD(1)[OF s1(2)] on1 s1(3), of pos 0 0] t by auto
    have on2: "handle_on s2 fd xs" by (rule handle_on_moved[OF on1 s2(2)]) (use s2(3) in blast)
    have "seek P fd pos False s = Some (SEEK_EOF, s2)"
      unfolding sk using s1(1) s2 by simp
    with on2 moved_trans[OF s0(2) moved_trans[OF s1(2) s2(2)]] show ?thesis by blast
  qed
qed

section \<open>tfs_read\<close>

lemma read_data_loop_spec:
  assumes "ready s" and "handle_on s fd xs" and "at_block s fd xs k" and "blk_buf s = cont s (xs ! k)"
    and os: "unat os < 504" and n: "0 < len" "unat os + unat len \<le> 504 * (length xs - k)" and ret: "unat ret + unat len < 2 ^ 32"
  shows "\<exists>s'. read_data_loop P fd len os (504 - os) ret out s =
      Some (LoopOut, (ret + len, out @ take (unat len) (drop (unat os) (chain_data (cont s) (drop k xs)))), s')
    \<and> moved s s' fd \<and> handle_on s' fd xs"
  using assms
proof (induction "length xs - k" arbitrary: s k os len ret out)
  case 0
  then show ?case by (simp add: at_block_def)
next
  case (Suc d)
  have h: "fd < length (handles s)" "chain (cont s) (first_blk (hnd fd s)) xs" "\<forall>x \<in> set xs. x < blk_count s" "504 * length xs < 2 ^ 32"
    using Suc.prems(2) by (simp_all add: handle_on_def)
  have a: "k < length xs" "curr_blk (hnd fd s) = xs ! k" "unat (curr_pos (hnd fd s)) = 504 * k"
    using Suc.prems(3) by (simp_all add: at_block_def)
  have sub: "unat (504 - os) = 504 - unat os" using Suc.prems(5) by (simp add: unat_sub word_le_nat_alt)
  have db: "length (data_bytes (cont s (xs ! k))) = 504" by simp
  have cd: "chain_data (cont s) (drop k xs) = data_bytes (cont s (xs ! k)) @ chain_data (cont s) (drop (Suc k) xs)"
    by (rule chain_data_drop[OF a(1)])
  show ?case
  proof (cases "504 - os > len")
    case True
    then have l: "unat len < 504 - unat os" using sub by (simp add: word_less_nat_alt)
    have "take (unat len) (drop (unat os) (chain_data (cont s) (drop k xs))) =
        take (unat len) (drop (unat os) (data_bytes (cont s (xs ! k))))"
      using l Suc.prems(5) db by (simp add: cd)
    then have "read_data_loop P fd len os (504 - os) ret out s =
        Some (LoopOut, (ret + len, out @ take (unat len) (drop (unat os) (chain_data (cont s) (drop k xs)))), s)"
      using True Suc.prems(4) by (subst read_data_loop.simps) (simp add: Let_def)
    with Suc.prems(1,2) show ?thesis by (intro exI[of _ s]) simp
  next
    case False
    then have ge: "504 - unat os \<le> unat len" using sub by (simp add: word_less_nat_alt not_less)
    let ?len = "len - (504 - os)" and ?ret = "ret + (504 - os)" and ?out = "out @ drop (unat os) (data_bytes (cont s (xs ! k)))"
    have ul: "unat ?len = unat len - (504 - unat os)" using ge sub by (simp add: unat_sub word_le_nat_alt)
    have chunk: "take (504 - unat os) (drop (unat os) (data_bytes (cont s (xs ! k)))) = drop (unat os) (data_bytes (cont s (xs ! k)))"
      using db by simp
    have split: "take (unat len) (drop (unat os) (chain_data (cont s) (drop k xs))) =
        drop (unat os) (data_bytes (cont s (xs ! k))) @ take (unat ?len) (chain_data (cont s) (drop (Suc k) xs))"
      using ge Suc.prems(5) db by (simp add: cd ul)
    show ?thesis
    proof (cases "?len = 0")
      case True
      then have "len = 504 - os" by simp
      then have "read_data_loop P fd len os (504 - os) ret out s = Some (LoopOut, (ret + len, ?out), s)"
        using Suc.prems(4) chunk sub by (subst read_data_loop.simps) (simp add: Let_def)
      with Suc.prems(1,2) split True show ?thesis by (intro exI[of _ s]) simp
    next
      case nz: False
      then have "0 < unat ?len" by (simp add: unat_gt_0)
      then have "504 < 504 * (length xs - k)" using Suc.prems(7) ul by linarith
      then have k1: "Suc k < length xs" by auto
      let ?n = "xs ! Suc k"
      have nx: "blk_next (cont s (xs ! k)) = ?n" using chain_nth_next[OF h(2) a(1)] k1 by simp
      have n: "?n \<noteq> 0" "?n < blk_count s" using chain_nonzero[OF h(2)] h(3) k1 by simp_all
      let ?s1 = "upd_hnd fd (\<lambda>h. h\<lparr>curr_blk := ?n, curr_pos := curr_pos (hnd fd s) + 504\<rparr>) s"
      let ?s2 = "read_buf P ?n ?s1"
      have e1: "upd_hnd fd (\<lambda>h. h\<lparr>curr_blk := ?n, curr_pos := curr_pos h + 504\<rparr>) s = ?s1" by (simp add: upd_hnd_def hnd_def)
      have s2: "ready ?s2" "cont ?s2 = cont s" "blk_buf ?s2 = cont s ?n" "last_error ?s2 = TFS_ERR_OK"
        using Suc.prems(1) n by simp_all
      have m: "moved s ?s2 fd"
        by (rule moved_trans[OF moved_upd[OF Suc.prems(1)]]) (rule moved_read, use Suc.prems(1) n in simp_all)
      have "504 * Suc k \<le> 504 * length xs" using k1 by simp
      then have "unat (curr_pos (hnd fd s) + 504) = 504 * Suc k" using a(3) h(4) by (simp add: unat_word_ariths)
      then have at2: "at_block ?s2 fd xs (Suc k)" using h(1) k1 by (simp add: at_block_def)
      have on2: "handle_on ?s2 fd xs" by (rule handle_on_moved[OF Suc.prems(2) m]) (use at2 in blast)
      have step: "read_data_loop P fd len os (504 - os) ret out s = read_data_loop P fd ?len 0 (504 - 0) ?ret ?out ?s2"
        using nz Suc.prems(4) chunk sub nx n h(1) s2 e1
        by (subst read_data_loop.simps) (simp add: Let_def if_not_P[OF False])
      have d: "d = length xs - Suc k" using Suc.hyps(2) by simp
      have ur: "unat ?ret = unat ret + (504 - unat os)"
        using Suc.prems(8) ge sub by (simp add: unat_word_ariths)
      have pre: "unat (0 :: u32) < 504" "0 < ?len" "unat (0 :: u32) + unat ?len \<le> 504 * (length xs - Suc k)"
        "unat ?ret + unat ?len < 2 ^ 32"
        using nz Suc.prems(5,7,8) ul ur ge k1 by (simp_all add: word_greater_zero_iff diff_mult_distrib2)
      obtain s' where s': "read_data_loop P fd ?len 0 (504 - 0) ?ret ?out ?s2 =
          Some (LoopOut, (?ret + ?len, ?out @ take (unat ?len) (drop (unat (0 :: u32)) (chain_data (cont ?s2) (drop (Suc k) xs)))), s')"
        "moved ?s2 s' fd" "handle_on s' fd xs"
        using Suc.hyps(1)[OF d s2(1) on2 at2 _ pre, of ?out] s2(2,3) by auto
      show ?thesis using step s' s2(2) split moved_trans[OF m s'(2)] by (intro exI[of _ s']) simp
    qed
  qed
qed


text \<open>Between two calls of the interface.\<close>

lemma moved_entered: "mounted s \<Longrightarrow> moved (entered s) s' fd \<longleftrightarrow> moved s s' fd"
  by (simp add: moved_def upd_hnd_def fs_frame_def)

lemma handle_on_entered [simp]: "mounted s \<Longrightarrow> handle_on (entered s) fd xs = handle_on s fd xs"
  by (simp add: handle_on_def)

lemma handle_on_deselect [simp]: "handle_on (drive_deselect P s) fd xs = handle_on s fd xs"
  by (simp add: handle_on_def)

definition file_bytes :: "'d fs \<Rightarrow> nat \<Rightarrow> u32 list \<Rightarrow> byte list" where
  "file_bytes s fd xs = take (unat (fh_size (hnd fd s))) (chain_data (cont s) xs)"

theorem tfs_read_spec:
  fixes len offset :: u32
  assumes m: "mounted s" and v: "valid_fd (int fd) s" and on: "handle_on s fd xs"
    and sz: "unat (fh_size (hnd fd s)) \<le> 504 * length xs"
  defines "res \<equiv> take (unat len) (drop (unat offset) (file_bytes s fd xs))"
  shows "\<exists>s'. tfs_read P (int fd) len offset s = Some ((of_nat (length res), res), drive_deselect P s') \<and> moved s s' fd \<and> handle_on s' fd xs"
proof -
  note [simp] = assms(1) mounted_select[OF assms(1)]
  let ?s = "entered s" and ?size = "fh_size (hnd fd s)"
  have r: "ready ?s" and on0: "handle_on ?s fd xs" using m on by (simp_all add: ready_entered)
  have dev: "last_error s \<noteq> TFS_ERR_NO_DEV" using m by (simp add: mounted_def)
  have v0: "valid_fd (int fd) ?s" using v by (simp add: valid_fd_def)
  have h: "fd < length (handles s)" using on by (simp add: handle_on_def)
  have lc: "length (chain_data (cont s) xs) = 504 * length xs" by (induction xs) simp_all
  show ?thesis
  proof (cases "offset > ?size")
    case True
    then have "res = []" by (simp add: res_def file_bytes_def word_less_nat_alt)
    moreover have "tfs_read P (int fd) len offset s = Some ((0, []), drive_deselect P ?s)"
      using True dev v0 by (simp add: tfs_read_def)
    ultimately show ?thesis using r on0 moved_entered[OF m, of ?s fd] by (intro exI[of _ ?s]) simp
  next
    case False
    define n where "n = (if len > ?size - offset then ?size - offset else len)"
    have un: "unat n = min (unat len) (unat ?size - unat offset)"
      using False by (simp add: n_def unat_sub word_le_nat_alt word_less_nat_alt min_def not_less)
    have res: "res = take (unat n) (drop (unat offset) (chain_data (cont s) xs))"
      using sz lc by (simp add: res_def file_bytes_def un drop_take min.commute)
    have rd: "tfs_read P (int fd) len offset s = (do {
        (r, s) \<leftarrow> seek P fd offset False ?s;
        if r = SEEK_EOF then Some ((0, []), drive_deselect P s)
        else if last_error s \<noteq> TFS_ERR_OK then Some ((0, []), drive_deselect P s)
        else if n = 0 then Some ((0, []), drive_deselect P s)
        else let os = offset - curr_pos (hnd fd s)
             in do {
               (e, res, s) \<leftarrow> read_data_loop P fd n os (504 - os) 0 [] s;
               Some (res, if e = LoopReturn then s else drive_deselect P s)
             }
      })"
      using dev v0 by (simp add: tfs_read_def Let_def n_def[symmetric] if_not_P[OF False] cong: if_cong)
    show ?thesis
    proof (cases "unat offset div 504 < length xs")
      case False
      then have "n = 0" using sz un by (simp add: unat_eq_zero[symmetric])
      then have "res = []" by (simp add: res)
      then show ?thesis using seek_spec(2)[OF r on0, of offset] False moved_entered[OF m, of _ fd] unfolding rd by auto
    next
      case True
      then obtain s1 where s1: "seek P fd offset False ?s = Some (SEEK_OK, s1)" "moved ?s s1 fd" "handle_on s1 fd xs"
        "at_block s1 fd xs (unat offset div 504)" "blk_buf s1 = cont s (xs ! (unat offset div 504))"
        using seek_spec(1)[OF r on0, of offset False] by auto
      note m1 = movedD[OF s1(2)]
      show ?thesis
      proof (cases "n = 0")
        case True
        then have "res = []" by (simp add: res)
        with True s1 readyD(3)[OF m1(1)] moved_entered[OF m, of s1 fd] show ?thesis unfolding rd by auto
      next
        case n: False
        let ?k = "unat offset div 504" and ?os = "offset - curr_pos (hnd fd s1)"
        have cp: "unat (curr_pos (hnd fd s1)) = 504 * ?k" using s1(4) by (simp add: at_block_def)
        have os: "unat ?os = unat offset mod 504"
          using cp by (simp add: unat_sub word_le_nat_alt minus_mult_div_eq_mod)
        have up: "unat offset + unat n \<le> 504 * length xs"
          using un sz n unat_gt_0[of n] by (auto simp: min_def split: if_splits)
        have le: "unat ?os + unat n \<le> 504 * (length xs - ?k)"
          using up os mult_div_mod_eq[of 504 "unat offset"] unfolding diff_mult_distrib2 by linarith
        obtain s2 where s2: "read_data_loop P fd n ?os (504 - ?os) 0 [] s1 = Some (LoopOut,
            (n, take (unat n) (drop (unat ?os) (chain_data (cont s) (drop ?k xs)))), s2)" "moved s1 s2 fd" "handle_on s2 fd xs"
          using read_data_loop_spec[OF m1(1) s1(3,4), of ?os n 0 "[]"] s1(5) m1(2) os le n unsigned_less[of n, where 'a = nat]
          by (auto simp: word_gt_0)
        have "drop (unat ?os) (chain_data (cont s) (drop ?k xs)) = drop (unat offset) (chain_data (cont s) xs)"
          using chain_data_from[of ?k xs s] True os by (simp add: add.commute)
        moreover have "length res = unat n" using lc up by (simp add: res)
        ultimately show ?thesis
          unfolding rd using s1(1) s2 n readyD(3)[OF m1(1)] moved_trans[OF s1(2) s2(2)] moved_entered[OF m, of s2 fd] by (intro exI[of _ s2]) (simp add: res Let_def)
      qed
    qed
  qed
qed

end

end
