(* ===== verification/Whole_Files.thy ===== *)
theory Whole_Files
  imports Cleanup
begin

text \<open>
  The contract of whole files, put together from the cases of the functions: what was written is
  read back, a file that is not touched keeps its bytes, and a write of a new file succeeds when
  there is room.
\<close>

context block_device
begin

text \<open>The file \<open>it\<close> of the medium: its blocks are owned, lie outside the directory \<open>ds\<close>, and hold \<open>bs\<close>.\<close>

definition file_at :: "'d fs \<Rightarrow> u32 list \<Rightarrow> dir_item \<Rightarrow> u32 list \<Rightarrow> byte list \<Rightarrow> bool" where
  "file_at s ds it xs bs \<longleftrightarrow> file_holds (cont s) it xs bs \<and> owned (cont s) (blk_count s) xs \<and> set xs \<inter> set ds = {}"

lemma file_at_deselect [simp]:
  "file_at (drive_deselect P s) ds it xs bs = file_at s ds it xs bs"
  by (simp add: file_at_def)

lemma file_blocks:
  assumes "file_holds C it xs bs"
  shows "xs = [] \<longleftrightarrow> bs = []" "length bs \<le> 504 * length xs"
proof -
  have l: "length xs = blocks_for (length bs)" using assms by (simp add: file_holds_def)
  show "length bs \<le> 504 * length xs" unfolding l by (rule blocks_for_enough)
  then show "xs = [] \<longleftrightarrow> bs = []" using l by auto
qed

lemma read_file_at:
  assumes "mounted s" and "dir_ok s ds" and "c_at name 0 \<noteq> 0"
    and df: "dir_find (cont s) (pf_filename_cmp P name) ds = Some it" and f: "file_at s ds it xs bs" and "bs \<noteq> []"
  obtains s' where "tfs_read_file P name max_len s = Some ((min (it_size it) max_len, take (unat max_len) bs), s')"
    "last_error s' = TFS_ERR_OK" "mounted s'" "fs_frame s s'" "cont s' = cont s"
proof -
  have h: "it_type it = TFS_DIR_ITEM_FILE" "unat (it_size it) = length bs" "chain (cont s) (it_blk it) xs"
    "take (length bs) (chain_data (cont s) xs) = bs" "\<forall>x \<in> set xs. x < blk_count s"
    using f by (auto simp: file_at_def file_holds_def owned_def)
  have xs: "xs \<noteq> []" "length bs \<le> 504 * length xs" using f file_blocks assms(6) by (auto simp: file_at_def)
  have m: "unat (min (it_size it) max_len) = min (length bs) (unat max_len)"
    using h(2) by (simp add: min_def word_le_nat_alt)
  have tk: "take (unat (min (it_size it) max_len)) (chain_data (cont s) xs) = take (unat max_len) bs"
    using h(4) by (metis m take_take min.commute)
  show thesis
  proof (rule read_file_cases[OF assms(1-3), of max_len])
    show "\<exists>xs. chain (cont s) (it_blk it') xs \<and> xs \<noteq> [] \<and> (\<forall>x\<in>set xs. x < blk_count s)"
      if "dir_find (cont s) (pf_filename_cmp P name) ds = Some it'" for it'
      using that df h(3,5) xs(1) by auto
  next
    assume "\<forall>it. dir_find (cont s) (pf_filename_cmp P name) ds = Some it \<longrightarrow> it_type it \<noteq> TFS_DIR_ITEM_FILE"
    with df h(1) show thesis by blast
  next
    fix it' xs' s'
    assume a: "dir_find (cont s) (pf_filename_cmp P name) ds = Some it'" "chain (cont s) (it_blk it') xs'"
      "tfs_read_file P name max_len s = Some ((min (it_size it') max_len,
         take (unat (min (it_size it') max_len)) (chain_data (cont s) xs')), s')"
      "last_error s' = (if unat (min (it_size it') max_len) \<le> 504 * length xs' then TFS_ERR_OK else TFS_ERR_UNEXP_EOF)"
      "mounted s'" "fs_frame s s'" "cont s' = cont s"
    have "it' = it" "xs' = xs" using a(1,2) df h(3) chain_unique by auto
    with a tk m xs(2) show thesis by (intro that[of s']) simp_all
  qed
qed

text \<open>What an operation that only took free blocks leaves of a file.\<close>

lemma file_kept_grown:
  assumes f: "file_at s ds it xs bs" and g: "dir_grown s s' ds ds' A"
  shows "file_at s' ds' it xs bs"
proof -
  have ow: "x < blk_count s" "\<not> is_bitmap_blk x" "blk_used (cont s) x" "x \<notin> set ds" if "x \<in> set xs" for x
    using f that by (auto simp: file_at_def owned_def)
  have d: "x \<notin> set ds'" "x \<notin> A" if "x \<in> set xs" for x
    using g ow[OF that] by (auto simp: dir_grown_def)
  have c: "cont s' x = cont s x" if "x \<in> set xs" for x
    using g ow(2)[OF that] d[OF that] by (simp add: dir_grown_def)
  have "owned (cont s') (blk_count s') xs"
    using g ow by (auto simp: owned_def dir_grown_def fs_frame_def)
  then show ?thesis
    using f c d file_holds_cong[of xs "cont s'" "cont s"] by (auto simp: file_at_def)
qed

lemma file_kept_replaced:
  assumes f: "file_at s ds it xs bs" and g: "replaced s s' ds d i new zs A" and dis: "set xs \<inter> zs = {}" and "d \<in> set ds"
  shows "file_at s' ds it xs bs"
proof -
  have ow: "x < blk_count s" "\<not> is_bitmap_blk x" "blk_used (cont s) x" "x \<notin> set ds" "x \<notin> zs" if "x \<in> set xs" for x
    using f that dis by (auto simp: file_at_def owned_def)
  have d: "x \<noteq> d" "x \<notin> A" if "x \<in> set xs" for x
    using g ow[OF that] assms(4) by (auto simp: replaced_def)
  have c: "cont s' x = cont s x" if "x \<in> set xs" for x
    using g ow(2)[OF that] d[OF that] by (simp add: replaced_def)
  have "owned (cont s') (blk_count s') xs"
    using g ow by (auto simp: owned_def replaced_def fs_frame_def)
  then show ?thesis
    using f c file_holds_cong[of xs "cont s'" "cont s"] by (auto simp: file_at_def)
qed

lemma file_kept_removed:
  assumes f: "file_at s ds it xs bs" and g: "removed s s' ds ds' cmp old zs" and dis: "set xs \<inter> zs = {}"
  shows "file_at s' ds' it xs bs"
proof -
  have ow: "x < blk_count s" "\<not> is_bitmap_blk x" "blk_used (cont s) x" "x \<notin> set ds" "x \<notin> zs" if "x \<in> set xs" for x
    using f that dis by (auto simp: file_at_def owned_def)
  have c: "cont s' x = cont s x" if "x \<in> set xs" for x
    using g ow[OF that] by (simp add: removed_def)
  have "owned (cont s') (blk_count s') xs"
    using g ow by (auto simp: owned_def removed_def fs_frame_def)
  moreover have "set xs \<inter> set ds' = {}" using f g by (auto simp: removed_def file_at_def)
  ultimately show ?thesis
    using f c file_holds_cong[of xs "cont s'" "cont s"] by (auto simp: file_at_def)
qed

text \<open>A file is deleted, or refused when a handle is on its slot.\<close>

lemma delete_closed_file:
  assumes "mounted s" and "dir_ok s ds" and "c_at name 0 \<noteq> 0"
    and lk: "dir_lookup (cont s) (pf_filename_cmp P name) ds = Some (d, i)"
    and f: "file_at s ds (get_item (cont s d) i) zs old" and free: "usage_at (handles s) d i = 0" and ty: "ty = 0 \<or> ty = TFS_DIR_ITEM_FILE"
  obtains ds' s' where "tfs_delete P name ty s = Some s'" "last_error s' = TFS_ERR_OK" "mounted s'"
    "removed s s' ds ds' (pf_filename_cmp P name) (get_item (cont s d) i) (set zs)"
    "block_items (set_item_type (cont s d) i TFS_DIR_ITEM_FREE) = [] \<longrightarrow> head_moved d ds ds'"
proof -
  let ?it = "get_item (cont s d) i"
  have fh: "it_type ?it = TFS_DIR_ITEM_FILE" "chain (cont s) (it_blk ?it) zs" "owned (cont s) (blk_count s) zs" "set zs \<inter> set ds = {}"
    using f by (simp_all add: file_at_def file_holds_def)
  have df: "dir_find (cont s) (pf_filename_cmp P name) ds = Some ?it" using lk by (simp add: dir_find_def slot_item_def)
  have ch: "chain (cont s) (item_blk (cont s e) j) zs \<and> zs \<noteq> [] \<or> item_type (cont s e) j = TFS_DIR_ITEM_FILE \<and>
      item_blk (cont s e) j = 0 \<and> zs = []" if "dir_lookup (cont s) (pf_filename_cmp P name) ds = Some (e, j)" for e j
    using that lk fh(1,2) by (cases zs) (auto simp: get_item_def)
  show thesis
  proof (rule delete_cases[OF assms(1-3) ch fh(3,4), of ty])
    fix it ds' s'
    assume a: "dir_find (cont s) (pf_filename_cmp P name) ds = Some it" "tfs_delete P name ty s = Some s'" "last_error s' = TFS_ERR_OK"
      "mounted s'" "removed s s' ds ds' (pf_filename_cmp P name) it (set zs)"
      "\<exists>d i. dir_lookup (cont s) (pf_filename_cmp P name) ds = Some (d, i) \<and> (pf_extended_api P \<longrightarrow> usage_at (handles s) d i = 0) \<and>
        (block_items (set_item_type (cont s d) i TFS_DIR_ITEM_FREE) = [] \<longrightarrow> head_moved d ds ds')"
    with df lk show thesis by (intro that[of s' ds']) auto
  qed (use df lk fh free ty in auto)
qed

lemma delete_open_file:
  assumes "mounted s" and "dir_ok s ds" and "c_at name 0 \<noteq> 0" and "pf_extended_api P"
    and lk: "dir_lookup (cont s) (pf_filename_cmp P name) ds = Some (d, i)"
    and f: "file_at s ds (get_item (cont s d) i) zs old" and used: "usage_at (handles s) d i > 0" and ty: "ty = 0 \<or> ty = TFS_DIR_ITEM_FILE"
  obtains s' where "tfs_delete P name ty s = Some s'" "last_error s' = TFS_FILE_BUSY" "mounted s'" "fs_frame s s'" "cont s' = cont s"
proof -
  let ?it = "get_item (cont s d) i"
  have fh: "it_type ?it = TFS_DIR_ITEM_FILE" "chain (cont s) (it_blk ?it) zs" "owned (cont s) (blk_count s) zs" "set zs \<inter> set ds = {}"
    using f by (simp_all add: file_at_def file_holds_def)
  have df: "dir_find (cont s) (pf_filename_cmp P name) ds = Some ?it" using lk by (simp add: dir_find_def slot_item_def)
  have ch: "chain (cont s) (item_blk (cont s e) j) zs \<and> zs \<noteq> [] \<or> item_type (cont s e) j = TFS_DIR_ITEM_FILE \<and>
      item_blk (cont s e) j = 0 \<and> zs = []" if "dir_lookup (cont s) (pf_filename_cmp P name) ds = Some (e, j)" for e j
    using that lk fh(1,2) by (cases zs) (auto simp: get_item_def)
  show thesis
    by (rule delete_cases[OF assms(1-3) ch fh(3,4), of ty]) (use df lk fh used ty assms(4) that in auto)
qed

text \<open>The entries of a directory in which one slot was rewritten.\<close>

lemma replaced_items:
  assumes ok: "dir_ok s ds" and lk: "dir_lookup (cont s) cmp ds = Some (d, i)" and g: "replaced s s' ds d i it zs A"
    and t: "it_type it \<noteq> TFS_DIR_ITEM_FREE"
  obtains L R where "dir_items (cont s) ds = L @ get_item (cont s d) i # R" "dir_items (cont s') ds = L @ it # R"
    "\<forall>a \<in> set L. \<not> cmp (it_name a)" "cmp (it_name (get_item (cont s d) i))"
proof -
  have dist: "distinct ds" using ok chain_distinct by (auto simp: dir_ok_def)
  have new: "get_item (cont s' d) i = it" "item_type (cont s' d) i \<noteq> TFS_DIR_ITEM_FREE"
    using g t by (auto simp: replaced_def)
  show thesis
  proof (rule dir_items_change[where C' = "cont s'", OF lk dist])
    fix L R assume a: "dir_items (cont s) ds = L @ get_item (cont s d) i # R" "\<forall>a\<in>set L. \<not> cmp (it_name a)"
      "cmp (it_name (get_item (cont s d) i))"
      "dir_items (cont s') ds = L @ (if item_type (cont s' d) i = TFS_DIR_ITEM_FREE then R else get_item (cont s' d) i # R)"
    with new that[of L R] show thesis by simp
  qed (use g in \<open>simp add: replaced_def\<close>)
qed

lemma replaced_find:
  assumes ok: "dir_ok s ds" and lk: "dir_lookup (cont s) cmp ds = Some (d, i)" and g: "replaced s s' ds d i it zs A"
    and t: "it_type it \<noteq> TFS_DIR_ITEM_FREE"
  shows "cmp (it_name it) \<Longrightarrow> dir_find (cont s') cmp ds = Some it"
    "\<not> cmp' (it_name it) \<Longrightarrow> \<not> cmp' (it_name (get_item (cont s d) i)) \<Longrightarrow> dir_find (cont s') cmp' ds = dir_find (cont s) cmp' ds"
proof -
  obtain L R where "dir_items (cont s) ds = L @ get_item (cont s d) i # R" "dir_items (cont s') ds = L @ it # R"
    "\<forall>a \<in> set L. \<not> cmp (it_name a)" by (rule replaced_items[OF assms])
  moreover from this have "find (\<lambda>a. cmp (it_name a)) L = None" by (auto simp: find_None_iff)
  ultimately show "cmp (it_name it) \<Longrightarrow> dir_find (cont s') cmp ds = Some it"
    "\<not> cmp' (it_name it) \<Longrightarrow> \<not> cmp' (it_name (get_item (cont s d) i)) \<Longrightarrow> dir_find (cont s') cmp' ds = dir_find (cont s) cmp' ds"
    by (simp_all add: dir_find_items find_append split: option.split)
qed

text \<open>A disk that is full after the operation had few free blocks before it.\<close>

lemma grown_until_full:
  assumes g: "dir_grown s s' ds ds' A" and ok: "dir_ok s ds" and full: "free_set (cont s') (blk_count s') = {}"
    and fin: "finite A"
  shows "card (free_set (cont s) (blk_count s)) \<le> Suc (card A)"
proof -
  have cnt: "blk_count s' = blk_count s" using g by (simp add: dir_grown_def fs_frame_def)
  have "free_set (cont s) (blk_count s) \<subseteq> (set ds' - set ds) \<union> A"
  proof
    fix n assume n: "n \<in> free_set (cont s) (blk_count s)"
    then have "blk_used (cont s') n" using full cnt by (auto simp: free_set_def)
    then have "n \<in> set ds' \<or> n \<in> A" using n g by (auto simp: free_set_def dir_grown_def)
    then show "n \<in> (set ds' - set ds) \<union> A" using n dir_okD(3)[OF ok, of n] by (auto simp: free_set_def)
  qed
  moreover have "ds' = ds \<or> (\<exists>b. ds' = ds @ [b])" using g by (simp add: dir_grown_def)
  then obtain b where "set ds' - set ds \<subseteq> {b}" by fastforce
  ultimately have "free_set (cont s) (blk_count s) \<subseteq> insert b A" by blast
  then have "card (free_set (cont s) (blk_count s)) \<le> card (insert b A)" using fin by (intro card_mono) auto
  also have "\<dots> \<le> Suc (card A)" by (rule card_insert_le_m1) simp_all
  finally show ?thesis .
qed

end

context named_device
begin

theorem write_new_file:
  assumes "mounted s" and "dir_ok s ds" and "c_at name 0 \<noteq> 0" and "length data = unat len" and "data \<noteq> []"
    and lk: "dir_find (cont s) (pf_filename_cmp P name) ds = None"
    and room: "blocks_for (length data) < card (free_set (cont s) (blk_count s))"
  obtains pos xs ds' s' where "tfs_write_file P name data len ov s = Some s'" "last_error s' = TFS_ERR_OK" "mounted s'"
    "entry_added s s' ds ds' \<lparr>it_blk = pos, it_size = len, it_type = TFS_DIR_ITEM_FILE,
       it_name = strncpy TFS_NAME_LEN name\<rparr> (set xs)"
    "dir_find (cont s') (pf_filename_cmp P name) ds' = Some \<lparr>it_blk = pos, it_size = len, it_type = TFS_DIR_ITEM_FILE,
       it_name = strncpy TFS_NAME_LEN name\<rparr>"
    "file_at s' ds' \<lparr>it_blk = pos, it_size = len, it_type = TFS_DIR_ITEM_FILE, it_name = strncpy TFS_NAME_LEN name\<rparr> xs data"
proof -
  have nl: "dir_lookup (cont s) (pf_filename_cmp P name) ds = None" using lk by (simp add: dir_find_def)
  have b1: "1 \<le> blocks_for (length data)" using assms(5) blocks_for_enough[of "length data"] by (cases "blocks_for (length data)") auto
  show thesis
  proof (rule write_new_cases[OF assms(1-4) nl, of ov])
    fix ds' s' assume "free_set (cont s') (blk_count s') = {}" "dir_grown s s' ds ds' {}"
    from grown_until_full[OF this(2) assms(2) this(1)] room b1 show thesis by simp
  next
    fix ds' pos xs s'
    let ?it = "\<lparr>it_blk = pos, it_size = len, it_type = TFS_DIR_ITEM_FILE, it_name = strncpy TFS_NAME_LEN name\<rparr>"
    assume a: "tfs_write_file P name data len ov s = Some s'" "entry_added s s' ds ds' ?it (set xs)" "written s' pos xs data"
    have g: "dir_grown s s' ds ds' (set xs)" using a(2) by (simp add: entry_added_def)
    have ch: "chain (cont s') pos xs" using a(3) by (simp add: written_def)
    have ok: "length xs = blocks_for (length data)"
    proof (rule ccontr)
      assume n: "length xs \<noteq> blocks_for (length data)"
      then have "free_set (cont s') (blk_count s') = {}" "length xs < blocks_for (length data)"
        using a(3) by (simp_all add: written_def)
      with grown_until_full[OF g assms(2)] room card_length[of xs] show False by simp
    qed
    have h: "file_holds (cont s') ?it xs data"
      using a(3) ok assms(4) blocks_for_enough[of "length data"] by (simp add: file_holds_def written_def)
    have own: "owned (cont s') (blk_count s') xs"
      using g by (auto simp: owned_def dir_grown_def fs_frame_def)
    have dis: "set xs \<inter> set ds' = {}" using g by (auto simp: dir_grown_def)
    have "dir_find (cont s') (pf_filename_cmp P name) ds' = Some ?it"
      using a(2) nl cmp_self by (simp add: entry_added_def)
    with a ok h own dis g show thesis
      by (intro that[of s' ds' pos xs]) (simp_all add: file_at_def written_def)
  qed
qed

text \<open>A file that is not open is overwritten when the free blocks and its own are enough.\<close>

theorem overwrite_file:
  assumes "mounted s" and ok: "dir_ok s ds" and "c_at name 0 \<noteq> 0" and len: "length data = unat len"
    and lk: "dir_lookup (cont s) (pf_filename_cmp P name) ds = Some (d, i)" and f: "file_at s ds (get_item (cont s d) i) zs bs"
    and closed: "usage_at (handles s) d i = 0"
    and room: "blocks_for (length data) \<le> card (free_set (cont s) (blk_count s)) + length zs"
  obtains pos xs s' where "tfs_write_file P name data len True s = Some s'" "last_error s' = TFS_ERR_OK" "mounted s'"
    "replaced s s' ds d i \<lparr>it_blk = pos, it_size = len, it_type = TFS_DIR_ITEM_FILE, it_name = strncpy TFS_NAME_LEN name\<rparr> (set zs) (set xs)"
    "dir_find (cont s') (pf_filename_cmp P name) ds = Some \<lparr>it_blk = pos, it_size = len, it_type = TFS_DIR_ITEM_FILE,
       it_name = strncpy TFS_NAME_LEN name\<rparr>"
    "file_at s' ds \<lparr>it_blk = pos, it_size = len, it_type = TFS_DIR_ITEM_FILE, it_name = strncpy TFS_NAME_LEN name\<rparr> xs data"
proof -
  have fh: "item_type (cont s d) i = TFS_DIR_ITEM_FILE" "chain (cont s) (item_blk (cont s d) i) zs"
    "owned (cont s) (blk_count s) zs" "set zs \<inter> set ds = {}" "length zs = blocks_for (length bs)"
    using f by (simp_all add: file_at_def file_holds_def)
  have dz: "distinct zs" using fh(2) by (rule chain_distinct)
  show thesis
  proof (rule write_over_cases[OF assms(1-5) fh(2,3,4), of True])
    assume "zs = []" "len \<noteq> 0" "free_set (cont s) (blk_count s) = {}"
    moreover from this have "data \<noteq> []" using len by (auto simp: unat_eq_0)
    ultimately show thesis using room blocks_for_enough[of "length data"] by simp
  next
    fix pos xs s'
    let ?it = "\<lparr>it_blk = pos, it_size = len, it_type = TFS_DIR_ITEM_FILE, it_name = strncpy TFS_NAME_LEN name\<rparr>"
    assume a: "tfs_write_file P name data len True s = Some s'" "written s' pos xs data"
      "replaced s s' ds d i ?it (set zs) (set xs)"
    have cnt: "blk_count s' = blk_count s" using a(3) by (simp add: replaced_def fs_frame_def)
    have ch: "chain (cont s') pos xs" using a(2) by (simp add: written_def)
    have u: "\<And>n. blk_used (cont s') n \<longleftrightarrow> blk_used (cont s) n \<and> n \<notin> set zs \<or> n \<in> set xs" using a(3) by (simp add: replaced_def)
    have l: "length xs = blocks_for (length data)"
    proof (rule ccontr)
      assume "length xs \<noteq> blocks_for (length data)"
      then have w: "free_set (cont s') (blk_count s') = {}" "length xs < blocks_for (length data)"
        using a(2) by (simp_all add: written_def)
      have "free_set (cont s) (blk_count s) \<union> set zs \<subseteq> set xs"
      proof
        fix n assume n: "n \<in> free_set (cont s) (blk_count s) \<union> set zs"
        then have "n < blk_count s" using fh(3) by (auto simp: free_set_def owned_def)
        then have "blk_used (cont s') n" using w(1) cnt by (auto simp: free_set_def)
        then show "n \<in> set xs" using n u by (auto simp: free_set_def)
      qed
      then have "card (free_set (cont s) (blk_count s) \<union> set zs) \<le> length xs"
        using card_mono[of "set xs"] card_length[of xs] le_trans by blast
      moreover have "card (free_set (cont s) (blk_count s) \<union> set zs) = card (free_set (cont s) (blk_count s)) + length zs"
        using fh(3) dz by (subst card_Un_disjoint) (auto simp: free_set_def owned_def distinct_card)
      ultimately show False using room w(2) by simp
    qed
    have h: "file_holds (cont s') ?it xs data"
      using a(2) l len blocks_for_enough[of "length data"] by (simp add: file_holds_def written_def)
    have own: "owned (cont s') (blk_count s') xs" "set xs \<inter> set ds = {}"
      using a(3) cnt u by (auto simp: owned_def replaced_def)
    have "dir_find (cont s') (pf_filename_cmp P name) ds = Some ?it"
      using replaced_find(1)[OF ok lk a(3)] cmp_self by simp
    with a l h own show thesis
      by (intro that[of s' pos xs]) (simp_all add: file_at_def written_def)
  qed (use fh(1) closed in simp_all)
qed

text \<open>What was written is what a reader gets.\<close>

theorem write_read_new:
  assumes "mounted s" and "dir_ok s ds" and "c_at name 0 \<noteq> 0" and "length data = unat len" and "data \<noteq> []"
    and "dir_find (cont s) (pf_filename_cmp P name) ds = None"
    and "blocks_for (length data) < card (free_set (cont s) (blk_count s))"
  shows "\<exists>s1 s2. tfs_write_file P name data len ov s = Some s1 \<and> last_error s1 = TFS_ERR_OK \<and>
    tfs_read_file P name max_len s1 = Some ((min len max_len, take (unat max_len) data), s2) \<and> last_error s2 = TFS_ERR_OK"
proof (rule write_new_file[OF assms, of ov])
  fix pos xs ds' s1
  let ?it = "\<lparr>it_blk = pos, it_size = len, it_type = TFS_DIR_ITEM_FILE, it_name = strncpy TFS_NAME_LEN name\<rparr>"
  assume a: "tfs_write_file P name data len ov s = Some s1" "last_error s1 = TFS_ERR_OK" "mounted s1"
    "entry_added s s1 ds ds' ?it (set xs)" "dir_find (cont s1) (pf_filename_cmp P name) ds' = Some ?it"
    "file_at s1 ds' ?it xs data"
  have "dir_ok s1 ds'" using a(4) by (simp add: entry_added_def dir_grown_def)
  then obtain s2 where "tfs_read_file P name max_len s1 = Some ((min (it_size ?it) max_len, take (unat max_len) data), s2)"
    "last_error s2 = TFS_ERR_OK"
    by (rule read_file_at[OF a(3) _ assms(3) a(5,6) assms(5)])
  with a show ?thesis by auto
qed

end

end
