(* ===== verification/Open_Files.thy ===== *)
theory Open_Files
  imports Handle_Specs Whole_Files
begin

text \<open>
  Opening and closing files: the branches of \<open>tfs_open\<close>, \<open>tfs_close\<close>, \<open>tfs_stat\<close> and
  \<open>tfs_touch\<close> on a working drive, and the invariant of the handle table.
\<close>

section \<open>Searching the table\<close>

lemma find_fd_None: "find_fd Q hs = None \<longleftrightarrow> (\<forall>h \<in> set hs. \<not> Q h)"
  by (induction hs) auto

lemma find_fd_SomeD:
  "find_fd Q hs = Some k \<Longrightarrow> k < length hs \<and> Q (hs ! k) \<and> (\<forall>j < k. \<not> Q (hs ! j))"
proof (induction hs arbitrary: k)
  case (Cons h hs)
  then show ?case by (auto simp: nth_Cons' less_Suc_eq_0_disj split: if_splits)
qed simp

section \<open>The invariant of the handle table\<close>

definition fh_key :: "filehandle \<Rightarrow> u32 \<times> nat option" where
  "fh_key h = (dir_blk h, dir_item h)"

text \<open>
  \<open>item_usage_count\<close> stops at the first handle on an item, whether it is in use or left over from
  a closed file.  It is right because a handle in use is always the first one on its item.
\<close>

definition handles_ok :: "filehandle list \<Rightarrow> bool" where
  "handles_ok hs \<longleftrightarrow> (\<forall>i < length hs. usage_count (hs ! i) > 0 \<longrightarrow> (\<forall>j < i. fh_key (hs ! j) \<noteq> fh_key (hs ! i)))"

lemma find_key:
  assumes "j < length hs" and "fh_key (hs ! j) = (d, Some i)" and "\<And>k. k < j \<Longrightarrow> fh_key (hs ! k) \<noteq> (d, Some i)"
  shows "find (\<lambda>h. dir_blk h = d \<and> dir_item h = Some i) hs = Some (hs ! j)"
  unfolding find_Some_iff using assms by (intro exI[of _ j]) (auto simp: fh_key_def)

lemma usage_at_live:
  assumes "handles_ok hs" and "j < length hs" and "usage_count (hs ! j) > 0" and "fh_key (hs ! j) = (d, Some i)"
  shows "usage_at hs d i = usage_count (hs ! j)"
proof -
  have "find (\<lambda>h. dir_blk h = d \<and> dir_item h = Some i) hs = Some (hs ! j)"
    by (rule find_key[OF assms(2,4)]) (use assms in \<open>auto simp: handles_ok_def\<close>)
  then show ?thesis by (simp add: usage_at_def)
qed

lemma usage_at_none:
  assumes "\<And>j. j < length hs \<Longrightarrow> fh_key (hs ! j) = (d, Some i) \<Longrightarrow> \<not> usage_count (hs ! j) > 0"
  shows "usage_at hs d i = 0"
proof (cases "find (\<lambda>h. dir_blk h = d \<and> dir_item h = Some i) hs")
  case (Some h)
  then obtain j where "j < length hs" "dir_blk (hs ! j) = d \<and> dir_item (hs ! j) = Some i" "h = hs ! j"
    by (auto simp: find_Some_iff)
  with assms[of j] Some show ?thesis by (simp add: usage_at_def fh_key_def word_gt_0)
qed (simp add: usage_at_def)

text \<open>The table a file is opened in: it stays as it is when the same handle only changes its count,
  and a new handle is written over the first one that is not in use.\<close>

lemma handles_ok_count:
  assumes "handles_ok hs" and "fd < length hs" and "fh_key h = fh_key (hs ! fd)" and "usage_count (hs ! fd) > 0"
  shows "handles_ok (hs[fd := h])"
  using assms by (auto simp: handles_ok_def nth_list_update)

lemma handles_ok_new:
  assumes "handles_ok hs" and e: "find_fd (\<lambda>h. \<not> usage_count h > 0) hs = Some fd" and "fh_key h = k"
    and n: "\<And>j. j < length hs \<Longrightarrow> fh_key (hs ! j) = k \<Longrightarrow> \<not> usage_count (hs ! j) > 0"
  shows "handles_ok (hs[fd := h])"
proof -
  note f = find_fd_SomeD[OF e]
  show ?thesis unfolding handles_ok_def
  proof (intro allI impI)
    fix i j assume a: "i < length (hs[fd := h])" "usage_count (hs[fd := h] ! i) > 0" "j < i"
    show "fh_key (hs[fd := h] ! j) \<noteq> fh_key (hs[fd := h] ! i)"
    proof (cases "i = fd")
      case True
      with a f have "usage_count (hs ! j) > 0" "j < length hs" by auto
      with n[of j] True a assms(3) show ?thesis by auto
    next
      case False
      with a have i: "i < length hs" "usage_count (hs ! i) > 0" by simp_all
      with False a assms(1) n[of i] assms(3) f show ?thesis
        by (cases "j = fd") (auto simp: handles_ok_def)
    qed
  qed
qed

lemma live_fd:
  assumes "handles_ok hs" and "fd < length hs" and "fh_key (hs ! fd) = k" and "usage_count (hs ! fd) > 0"
  shows "find_fd (\<lambda>h. fh_key h = k \<and> usage_count h > 0) hs = Some fd"
proof (cases "find_fd (\<lambda>h. fh_key h = k \<and> usage_count h > 0) hs")
  case None
  then have "\<forall>h \<in> set hs. \<not> (fh_key h = k \<and> usage_count h > 0)" by (simp only: find_fd_None)
  with assms(2-4) nth_mem[OF assms(2)] show ?thesis by blast
next
  case (Some j)
  note j = find_fd_SomeD[OF Some]
  have "j = fd"
    using j assms unfolding handles_ok_def by (cases j fd rule: linorder_cases) metis+
  with Some show ?thesis by simp
qed

lemma handles_ok_none: "\<forall>h \<in> set hs. usage_count h = 0 \<Longrightarrow> handles_ok hs"
  by (simp add: handles_ok_def)

section \<open>tfs_close\<close>

lemma tfs_close_valid:
  assumes "last_error s \<noteq> TFS_ERR_NO_DEV" and "valid_fd fd s"
  shows "tfs_close fd s = upd_hnd (nat fd) (\<lambda>h. h\<lparr>usage_count := usage_count h - 1\<rparr>) (set_error TFS_ERR_OK s)"
  using assms by (simp add: tfs_close_def valid_fd_def)

lemma tfs_close_invalid:
  assumes "last_error s \<noteq> TFS_ERR_NO_DEV" and "\<not> valid_fd fd s"
  shows "tfs_close fd s = set_error TFS_ERR_INVAL_FD s"
proof -
  have "valid_fd fd (set_error TFS_ERR_OK s) = valid_fd fd s" by (simp add: valid_fd_def)
  then show ?thesis using assms by (simp add: tfs_close_def set_error_def)
qed

lemma valid_fdD:
  assumes "valid_fd fd s"
  shows "0 \<le> fd" "nat fd < TFS_MAX_FDS" "usage_count (handles s ! nat fd) > 0"
  using assms by (auto simp: valid_fd_def hnd_def word_gt_0)

lemma tfs_close_handles_ok:
  assumes "handles_ok (handles s)" and "length (handles s) = TFS_MAX_FDS"
  shows "handles_ok (handles (tfs_close fd s))" "length (handles (tfs_close fd s)) = TFS_MAX_FDS"
proof -
  consider "last_error s = TFS_ERR_NO_DEV" | "last_error s \<noteq> TFS_ERR_NO_DEV" "\<not> valid_fd fd s"
    | "last_error s \<noteq> TFS_ERR_NO_DEV" "valid_fd fd s" by blast
  then show "handles_ok (handles (tfs_close fd s))"
  proof cases
    case 3
    then show ?thesis unfolding tfs_close_valid[OF 3]
      using valid_fdD[OF 3(2)] assms by (simp add: upd_hnd_def handles_ok_count fh_key_def)
  next
    case 2
    then show ?thesis unfolding tfs_close_invalid[OF 2] by (simp add: assms)
  qed (simp add: tfs_close_def assms)
  show "length (handles (tfs_close fd s)) = TFS_MAX_FDS"
    using assms by (simp add: tfs_close_def Let_def)
qed

section \<open>tfs_open\<close>

text \<open>The handle that a file gets: it is at the beginning of the file.\<close>

abbreviation opened :: "u32 \<Rightarrow> nat \<Rightarrow> dir_item \<Rightarrow> filehandle" where
  "opened d i it \<equiv> \<lparr>usage_count = 1, dir_blk = d, dir_item = Some i, fh_size = it_size it,
     first_blk = it_blk it, curr_blk = it_blk it, curr_pos = 0\<rparr>"

context block_device
begin

lemma mounted_handles [simp]:
  "mounted (s\<lparr>handles := hs\<rparr>) = mounted s" "mounted (upd_hnd fd f s) = mounted s"
  "mounted (s\<lparr>after_handles := h\<rparr>) = mounted s" "mounted (store_hnd fd h s) = mounted s"
  by (simp_all add: mounted_def io_ok_def bitmap_ok_def upd_hnd_def store_hnd_def del: io_ok_lengths)

lemma open_cases:
  assumes "mounted s" and "dir_ok s ds" and "c_at name 0 \<noteq> 0"
  obtains (missing) s' where "\<forall>p. dir_lookup (cont s) (pf_filename_cmp P name) ds = Some p \<longrightarrow>
        item_type (cont s (fst p)) (snd p) \<noteq> TFS_DIR_ITEM_FILE"
      "tfs_open P name s = Some (-1, s')" "last_error s' = TFS_ERR_NOT_EXIST" "mounted s'" "fs_frame s s'" "cont s' = cont s"
  | (again) d i fd s1 where "dir_lookup (cont s) (pf_filename_cmp P name) ds = Some (d, i)"
      "item_type (cont s d) i = TFS_DIR_ITEM_FILE"
      "find_fd (\<lambda>h. fh_key h = (d, Some i) \<and> usage_count h > 0) (handles s) = Some fd"
      "tfs_open P name s = Some (int fd, drive_deselect P (upd_hnd fd (\<lambda>h. h\<lparr>usage_count := usage_count h + 1\<rparr>) s1))"
      "ready s1" "fs_frame s s1" "cont s1 = cont s"
  | (none_left) d i s' where "dir_lookup (cont s) (pf_filename_cmp P name) ds = Some (d, i)"
      "find_fd (\<lambda>h. fh_key h = (d, Some i) \<and> usage_count h > 0) (handles s) = None"
      "\<forall>h \<in> set (handles s). usage_count h > 0" "usage_count (after_handles s) > 0"
      "tfs_open P name s = Some (-1, s')" "last_error s' = TFS_ERR_NO_FREE_FD" "mounted s'" "fs_frame s s'" "cont s' = cont s"
  | (fresh) d i fd s1 where "dir_lookup (cont s) (pf_filename_cmp P name) ds = Some (d, i)"
      "item_type (cont s d) i = TFS_DIR_ITEM_FILE"
      "find_fd (\<lambda>h. fh_key h = (d, Some i) \<and> usage_count h > 0) (handles s) = None"
      "empty_fd s = Some fd"
      "tfs_open P name s = Some (int fd, drive_deselect P (store_hnd fd (opened d i (get_item (cont s d) i)) s1))"
      "ready s1" "fs_frame s s1" "cont s1 = cont s"
proof -
  note [simp] = assms(1) mounted_select[OF assms(1)]
  let ?body = "open_body P name"
  have r: "ready (entered s)" and dk: "dir_ok (entered s) ds" using assms by (simp_all add: ready_entered)
  have op: "tfs_open P name s = Some (x, drive_deselect P s')" if "?body (entered s) = Some (x, s')" for x s'
    using api_call_mounted[where body = ?body, OF assms(1) that] by (simp add: tfs_open_def)
  have nf: thesis if "?body (entered s) = Some (-1, set_error TFS_ERR_NOT_EXIST s1)" "ready s1" "fs_frame s s1" "cont s1 = cont s"
    "\<forall>p. dir_lookup (cont s) (pf_filename_cmp P name) ds = Some p \<longrightarrow> item_type (cont s (fst p)) (snd p) \<noteq> TFS_DIR_ITEM_FILE" for s1
    using missing[OF that(5) op[OF that(1)]] that mounted_set_error[OF that(2)] by simp
  show thesis using r dk assms(3)
  proof (cases rule: find_file_cases[where want = False])
    case (absent s1)
    then have "?body (entered s) = Some (-1, set_error TFS_ERR_NOT_EXIST s1)"
      using readyD(3)[OF absent(4)] by (simp add: open_body_def)
    from nf[OF this] absent show thesis by simp
  next
    case (found d i s1)
    then have f: "dir_lookup (cont s) (pf_filename_cmp P name) ds = Some (d, i)" "fs_frame s s1" "cont s1 = cont s"
      "handles s1 = handles s" "after_handles s1 = after_handles s" using fs_frameD[of s s1] by simp_all
    have e: "last_error s1 = TFS_ERR_OK" using found(3) by (rule readyD)
    let ?live = "find_fd (\<lambda>h. fh_key h = (d, Some i) \<and> usage_count h > 0) (handles s)"
    have lv: "find_fd (\<lambda>h. dir_blk h = d \<and> dir_item h = Some i \<and> usage_count h > 0) (handles s1) = ?live"
      using f(4) by (simp add: fh_key_def)
    show thesis
    proof (cases "item_type (cont s d) i = TFS_DIR_ITEM_FILE")
      case False
      then have "?body (entered s) = Some (-1, set_error TFS_ERR_NOT_EXIST s1)"
        using found e by (simp add: open_body_def)
      from nf[OF this found(3) f(2,3)] f(1) False show thesis by simp
    next
      case reg: True
      show thesis
      proof (cases ?live)
        case (Some fd)
        then have "?body (entered s) = Some (int fd, upd_hnd fd (\<lambda>h. h\<lparr>usage_count := usage_count h + 1\<rparr>) s1)"
          using found e reg lv by (simp add: open_body_def)
        from again[OF f(1) reg Some op[OF this] found(3) f(2,3)] show thesis .
      next
        case live: None
        have em: "empty_fd s1 = empty_fd s" by (simp only: empty_fd_def f(4,5))
        show thesis
        proof (cases "empty_fd s")
          case None
          then have "?body (entered s) = Some (-1, set_error TFS_ERR_NO_FREE_FD s1)"
            using found e reg lv live em by (simp add: open_body_def)
          moreover have "\<forall>h \<in> set (handles s). usage_count h > 0" "usage_count (after_handles s) > 0"
            using None by (auto simp: empty_fd_def find_fd_None split: option.splits if_splits)
          ultimately show thesis using op f found(3) mounted_set_error[OF found(3), of TFS_ERR_NO_FREE_FD]
            by (intro none_left[OF f(1) live, of "drive_deselect P (set_error TFS_ERR_NO_FREE_FD s1)"]) simp_all
        next
          case (Some fd)
          then have "?body (entered s) = Some (int fd, store_hnd fd (opened d i (get_item (cont s d) i)) s1)"
            using found e reg lv live em by (simp add: open_body_def init_pos_def get_item_def Let_def)
          from fresh[OF f(1) reg live Some op[OF this] found(3) f(2,3)] show thesis .
        qed
      qed
    qed
  qed simp_all
qed

lemma empty_fd_Some:
  assumes "empty_fd s = Some fd" and "\<exists>h \<in> set (handles s). \<not> usage_count h > 0"
  shows "find_fd (\<lambda>h. \<not> usage_count h > 0) (handles s) = Some fd" "fd < length (handles s)"
    "\<not> usage_count (handles s ! fd) > 0"
proof -
  have "find_fd (\<lambda>h. \<not> usage_count h > 0) (handles s) \<noteq> None" using assms(2) by (simp only: find_fd_None) blast
  then show f: "find_fd (\<lambda>h. \<not> usage_count h > 0) (handles s) = Some fd"
    using assms(1) by (auto simp: empty_fd_def split: option.splits)
  show "fd < length (handles s)" "\<not> usage_count (handles s ! fd) > 0" using find_fd_SomeD[OF f] by simp_all
qed

text \<open>A file that is not open, while there is a free handle.\<close>

lemma open_file_slot:
  assumes "mounted s" and "dir_ok s ds" and "c_at name 0 \<noteq> 0" and len: "length (handles s) = TFS_MAX_FDS"
    and df: "dir_find (cont s) (pf_filename_cmp P name) ds = Some it" and f: "file_at s ds it xs bs"
    and small: "length bs + 504 < 2 ^ 32"
    and room: "\<exists>h \<in> set (handles s). \<not> usage_count h > 0"
    and closed: "\<And>d i. dir_lookup (cont s) (pf_filename_cmp P name) ds = Some (d, i) \<Longrightarrow>
      \<forall>h \<in> set (handles s). fh_key h = (d, Some i) \<longrightarrow> \<not> usage_count h > 0"
  obtains fd s' d i where "tfs_open P name s = Some (int fd, s')" "last_error s' = TFS_ERR_OK" "mounted s'" "cont s' = cont s"
    "valid_fd (int fd) s'" "handle_on s' fd xs" "fh_size (hnd fd s') = it_size it" "file_bytes s' fd xs = bs"
    "drive_info s' = drive_info s" "current_dir_blk s' = current_dir_blk s" "length (handles s') = TFS_MAX_FDS"
    "find_fd (\<lambda>h. \<not> usage_count h > 0) (handles s) = Some fd"
    "\<forall>j. j \<noteq> fd \<longrightarrow> handles s' ! j = handles s ! j"
    "dir_lookup (cont s) (pf_filename_cmp P name) ds = Some (d, i)" "get_item (cont s d) i = it" "hnd fd s' = opened d i it"
  using assms(1-3)
proof (cases rule: open_cases)
  case missing
  with df f show thesis by (auto simp: dir_find_def slot_item_def file_at_def file_holds_def)
next
  case (again d i fd s1)
  from find_fd_SomeD[OF again(3)] closed[OF again(1)] show thesis by auto
next
  case none_left
  with room show thesis by blast
next
  case (fresh d i fd s1)
  note e = empty_fd_Some[OF fresh(4) room]
  have it: "get_item (cont s d) i = it" using df fresh(1) by (simp add: dir_find_def slot_item_def)
  let ?h = "opened d i it"
  let ?s = "s1\<lparr>handles := (handles s1)[fd := ?h]\<rparr>"
  have h: "handles s1 = handles s" "drive_info s1 = drive_info s" "current_dir_blk s1 = current_dir_blk s"
    using fs_frameD[OF fresh(7)] by simp_all
  have st: "store_hnd fd ?h s1 = ?s" using e(2) h by (simp add: store_hnd_def)
  have hd: "hnd fd ?s = ?h" using e(2) h by (simp add: hnd_def)
  have fh: "chain (cont s) (it_blk it) xs" "back_links (cont s) 0 xs" "\<forall>x \<in> set xs. x < blk_count s"
    "length xs = blocks_for (length bs)" "unat (it_size it) = length bs" "take (length bs) (chain_data (cont s) xs) = bs"
    using f by (auto simp: file_at_def file_holds_def owned_def)
  have "504 * length xs \<le> length bs + 503" using fh(4) by linarith
  then have big: "504 * length xs < 2 ^ 32" using small by linarith
  have "handle_on ?s fd xs" unfolding handle_on_def hd
    using fh big e(2) h fresh(8) by (cases xs) (auto intro!: exI[of _ 0])
  moreover have "file_bytes ?s fd xs = bs" using fh by (simp add: file_bytes_def hd fresh(8))
  moreover have "valid_fd (int fd) ?s" using e(2) len by (simp add: valid_fd_def hd)
  ultimately show thesis
    using fresh(5,8) readyD(3)[OF fresh(6)] mounted_ready[OF fresh(6)] h hd e(1) len
    by (intro that[of fd "drive_deselect P ?s" d i]) (simp_all add: it st fresh(1) valid_fd_def hnd_def file_bytes_def)
qed

lemma open_file_at:
  assumes "mounted s" and "dir_ok s ds" and "c_at name 0 \<noteq> 0" and len: "length (handles s) = TFS_MAX_FDS"
    and df: "dir_find (cont s) (pf_filename_cmp P name) ds = Some it" and f: "file_at s ds it xs bs"
    and small: "length bs + 504 < 2 ^ 32"
    and room: "\<exists>h \<in> set (handles s). \<not> usage_count h > 0"
    and closed: "\<And>d i. dir_lookup (cont s) (pf_filename_cmp P name) ds = Some (d, i) \<Longrightarrow>
      \<forall>h \<in> set (handles s). fh_key h = (d, Some i) \<longrightarrow> \<not> usage_count h > 0"
  obtains fd s' where "tfs_open P name s = Some (int fd, s')" "last_error s' = TFS_ERR_OK" "mounted s'" "cont s' = cont s"
    "valid_fd (int fd) s'" "handle_on s' fd xs" "fh_size (hnd fd s') = it_size it" "file_bytes s' fd xs = bs"
    "drive_info s' = drive_info s" "current_dir_blk s' = current_dir_blk s" "length (handles s') = TFS_MAX_FDS"
    "find_fd (\<lambda>h. \<not> usage_count h > 0) (handles s) = Some fd"
    "\<forall>j. j \<noteq> fd \<longrightarrow> handles s' ! j = handles s ! j"
proof (rule open_file_slot[OF assms])
  fix fd s' d i
  assume "tfs_open P name s = Some (int fd, s')" "last_error s' = TFS_ERR_OK" "mounted s'" "cont s' = cont s"
    "valid_fd (int fd) s'" "handle_on s' fd xs" "fh_size (hnd fd s') = it_size it" "file_bytes s' fd xs = bs"
    "drive_info s' = drive_info s" "current_dir_blk s' = current_dir_blk s" "length (handles s') = TFS_MAX_FDS"
    "find_fd (\<lambda>h. \<not> usage_count h > 0) (handles s) = Some fd" "\<forall>j. j \<noteq> fd \<longrightarrow> handles s' ! j = handles s ! j"
  then show thesis by (rule that)
qed

text \<open>\<open>tfs_open\<close> keeps the invariant of the handle table, short of 256 simultaneous opens of a file.\<close>

lemma open_handles_ok:
  assumes "mounted s" and "dir_ok s ds" and "c_at name 0 \<noteq> 0" and ok: "handles_ok (handles s)"
    and r: "tfs_open P name s = Some (x, s')"
  shows "handles_ok (handles s')"
  using assms(1-3)
proof (cases rule: open_cases)
  case (missing s')
  with r ok fs_frameD(5) show ?thesis by fastforce
next
  case (again d i fd s1)
  note f = find_fd_SomeD[OF again(3)]
  have "handles s1 = handles s" using fs_frameD[OF again(6)] by simp
  with r again(4) f ok show ?thesis by (auto simp: upd_hnd_def fh_key_def intro!: handles_ok_count)
next
  case (none_left d i s')
  with r ok fs_frameD(5) show ?thesis by fastforce
next
  case (fresh d i fd s1)
  have h: "handles s1 = handles s" using fs_frameD[OF fresh(7)] by simp
  have r': "handles s' = handles (store_hnd fd (opened d i (get_item (cont s d) i)) s1)" using r fresh(5) by auto
  show ?thesis
  proof (cases "fd < length (handles s)")
    case True
    then have e: "find_fd (\<lambda>h. \<not> usage_count h > 0) (handles s) = Some fd"
      using fresh(4) by (auto simp: empty_fd_def split: option.splits if_splits)
    have "handles_ok ((handles s)[fd := opened d i (get_item (cont s d) i)])"
      by (rule handles_ok_new[OF ok e, where k = "(d, Some i)"])
        (use fresh(3) in \<open>auto simp: fh_key_def find_fd_None\<close>)
    with r' True h show ?thesis by (simp add: store_hnd_def)
  next
    case False
    with r' h ok show ?thesis by (simp add: store_hnd_def)
  qed
qed

end

end
