(* ===== verification/Demo_File.thy ===== *)
theory Demo_File
  imports Demo Open_Files
begin

text \<open>
  Further concrete states for the witnesses: the disk of \<open>Demo\<close> after a file of three bytes, or
  an empty directory, was created in its root directory.
\<close>

definition demo_name :: "byte list" where "demo_name = ascii ''a''"

lemma demo_name_nonempty [simp]: "c_at demo_name 0 \<noteq> 0"
  by (simp add: demo_name_def ascii_def)

definition demo_other :: "byte list" where "demo_other = ascii ''b''"

lemma demo_other_nonempty [simp]: "c_at demo_other 0 \<noteq> 0"
  by (simp add: demo_other_def ascii_def)

lemma demo_names_differ [simp]:
  "\<not> strncmp_filename_cmp demo_other (strncpy TFS_NAME_LEN demo_name)"
  "\<not> strncmp_filename_cmp demo_name (strncpy TFS_NAME_LEN demo_other)"
  by (simp_all add: strncmp_filename_cmp_def strncmp_eq_iff c_str_strncpy demo_other_def demo_name_def ascii_def)

lemma demo_name_matches [simp]: "strncmp_filename_cmp n (strncpy TFS_NAME_LEN n)"
  by (simp add: strncmp_filename_cmp_def strncmp_eq_strncpy)

lemma demo_free_card: "card (free_set (linux_contents demo_dev) 8) = 6"
proof -
  have "free_set (linux_contents demo_dev) 8 = {2, 3, 4, 5, 6, 7}"
  proof (rule set_eqI)
    fix n :: u32
    have "n < 8 \<and> 2 \<le> n \<longleftrightarrow> n \<in> {2, 3, 4, 5, 6, 7}"
    proof
      assume a: "n < 8 \<and> 2 \<le> n"
      then have "unat n \<in> {2, 3, 4, 5, 6, 7}" by (auto simp: word_less_nat_alt word_le_nat_alt)
      then show "n \<in> {2, 3, 4, 5, 6, 7}" by (auto simp: word_unat_eq_iff)
    qed auto
    then show "n \<in> free_set (linux_contents demo_dev) 8 \<longleftrightarrow> n \<in> {2, 3, 4, 5, 6, 7}"
      using demo_free[of n] by (auto simp: free_set_def)
  qed
  then show ?thesis by simp
qed

lemma demo_find [simp]: "dir_find (linux_contents demo_dev) cmp [1] = None"
  by (simp add: dir_find_def)

text \<open>The root directory with the file \<open>a\<close>\<close>

definition demo_file_fs :: "linux_dev fs" where
  "demo_file_fs = the (tfs_write_file linux_platform demo_name [1, 2, 3] 3 False demo_fs)"

abbreviation demo_item :: "u32 \<Rightarrow> dir_item" where
  "demo_item pos \<equiv> \<lparr>it_blk = pos, it_size = 3, it_type = TFS_DIR_ITEM_FILE, it_name = strncpy TFS_NAME_LEN demo_name\<rparr>"

lemma demo_file:
  obtains pos xs ds where "tfs_write_file linux_platform demo_name [1, 2, 3] 3 False demo_fs = Some demo_file_fs"
    "last_error demo_file_fs = TFS_ERR_OK" "ld.mounted demo_file_fs"
    "ld.dir_ok demo_file_fs ds" "ld.entry_added demo_fs demo_file_fs [1] ds (demo_item pos) (set xs)"
    "dir_find (linux_contents (dev demo_file_fs)) (strncmp_filename_cmp demo_name) ds = Some (demo_item pos)"
    "ld.file_at demo_file_fs ds (demo_item pos) xs [1, 2, 3]" "blk_count demo_file_fs = 8"
    "dir_find (linux_contents (dev demo_file_fs)) (strncmp_filename_cmp demo_other) ds = None"
    "handles demo_file_fs = replicate TFS_MAX_FDS zero_handle" "current_dir_blk demo_file_fs = 1"
proof (rule ln.write_new_file[of demo_fs "[1]" demo_name "[1, 2, 3]" 3 False])
  fix pos xs ds s'
  assume a: "tfs_write_file linux_platform demo_name [1, 2, 3] 3 False demo_fs = Some s'" "last_error s' = TFS_ERR_OK"
    "ld.mounted s'" "ld.entry_added demo_fs s' [1] ds (demo_item pos) (set xs)"
    "dir_find (linux_contents (dev s')) (pf_filename_cmp linux_platform demo_name) ds = Some (demo_item pos)"
    "ld.file_at s' ds (demo_item pos) xs [1, 2, 3]"
  then have "s' = demo_file_fs" by (simp add: demo_file_fs_def)
  moreover have "ld.dir_ok s' ds" "fs_frame demo_fs s'"
    using a(4) by (simp_all add: ld.entry_added_def ld.dir_grown_def)
  moreover have "dir_find (linux_contents (dev s')) (strncmp_filename_cmp demo_other) ds = None"
    using a(4) by (simp add: ld.entry_added_def)
  ultimately show thesis using a that[of ds pos xs] by (simp add: fs_frame_def)
qed (simp_all add: demo_free_card)

lemma usage_at_closed: "usage_at (replicate n zero_handle) d i = 0"
proof -
  have "find (\<lambda>h. dir_blk h = d \<and> dir_item h = Some i) (replicate n zero_handle) = None"
    by (auto simp: find_None_iff zero_handle_def)
  then show ?thesis by (simp add: usage_at_def)
qed

lemma demo_slot:
  obtains pos xs ds d i where "ld.mounted demo_file_fs" "ld.dir_ok demo_file_fs ds"
    "dir_lookup (linux_contents (dev demo_file_fs)) (strncmp_filename_cmp demo_name) ds = Some (d, i)"
    "get_item (linux_contents (dev demo_file_fs) d) i = demo_item pos" "ld.file_at demo_file_fs ds (demo_item pos) xs [1, 2, 3]"
    "usage_at (handles demo_file_fs) d i = 0" "length xs = 1"
proof (rule demo_file)
  fix pos xs ds
  assume a: "ld.mounted demo_file_fs" "ld.dir_ok demo_file_fs ds" "ld.file_at demo_file_fs ds (demo_item pos) xs [1, 2, 3]"
    "dir_find (linux_contents (dev demo_file_fs)) (strncmp_filename_cmp demo_name) ds = Some (demo_item pos)"
    "handles demo_file_fs = replicate TFS_MAX_FDS zero_handle"
  obtain d i where lk: "dir_lookup (linux_contents (dev demo_file_fs)) (strncmp_filename_cmp demo_name) ds = Some (d, i)"
    "get_item (linux_contents (dev demo_file_fs) d) i = demo_item pos"
    using a(4) by (auto simp: dir_find_def slot_item_def)
  have "length xs = 1" using a(3) by (simp add: ld.file_at_def file_holds_def)
  with a lk show thesis by (intro that) (simp_all add: usage_at_closed)
qed

text \<open>The root directory with the empty directory \<open>a\<close>\<close>

definition demo_dir_fs :: "linux_dev fs" where
  "demo_dir_fs = the (tfs_create_dir linux_platform demo_name demo_fs)"

abbreviation demo_dir_item :: "u32 \<Rightarrow> dir_item" where
  "demo_dir_item b \<equiv> \<lparr>it_blk = b, it_size = 0, it_type = TFS_DIR_ITEM_DIR, it_name = strncpy TFS_NAME_LEN demo_name\<rparr>"

lemma demo_dir:
  obtains b ds d i where "ld.mounted demo_dir_fs" "ld.dir_ok demo_dir_fs ds"
    "dir_lookup (linux_contents (dev demo_dir_fs)) (strncmp_filename_cmp demo_name) ds = Some (d, i)"
    "get_item (linux_contents (dev demo_dir_fs) d) i = demo_dir_item b" "usage_at (handles demo_dir_fs) d i = 0"
    "chain (linux_contents (dev demo_dir_fs)) b [b]" "owned (linux_contents (dev demo_dir_fs)) (blk_count demo_dir_fs) [b]"
    "b \<notin> set ds" "dir_items (linux_contents (dev demo_dir_fs)) [b] = []"
    "back_links (linux_contents (dev demo_dir_fs)) 0 [b]"
    "last_error demo_dir_fs = TFS_ERR_OK" "current_dir_blk demo_dir_fs = 1"
proof (rule ld.create_dir_cases[of demo_fs "[1]" demo_name])
  fix ds1 s1 assume "free_set (linux_contents (dev s1)) (blk_count s1) = {}" "ld.dir_grown demo_fs s1 [1] ds1 {}"
  from ld.grown_until_full[OF this(2) _ this(1)] show thesis by (simp add: demo_free_card)
next
  fix ds b s1
  assume a: "tfs_create_dir linux_platform demo_name demo_fs = Some s1" "ld.mounted s1" "b \<notin> set ds"
    "ld.entry_added demo_fs s1 [1] ds (demo_dir_item b) {b}"
    "linux_contents (dev s1) b = set_parent (replicate TFS_BLOCKSIZE 0) (current_dir_blk demo_fs)" "last_error s1 = TFS_ERR_OK"
  have s1: "s1 = demo_dir_fs" using a(1) by (simp add: demo_dir_fs_def)
  have g: "ld.dir_grown demo_fs s1 [1] ds {b}" and
    e: "dir_find (linux_contents (dev s1)) (strncmp_filename_cmp demo_name) ds = Some (demo_dir_item b)"
    using a(4) by (simp_all add: ld.entry_added_def)
  obtain d i where lk: "dir_lookup (linux_contents (dev s1)) (strncmp_filename_cmp demo_name) ds = Some (d, i)"
    "get_item (linux_contents (dev s1) d) i = demo_dir_item b"
    using e by (auto simp: dir_find_def slot_item_def)
  have "ld.dir_ok s1 ds" "b < blk_count s1" "\<not> is_bitmap_blk b" "b \<noteq> 0" "blk_used (linux_contents (dev s1)) b"
    "handles s1 = handles demo_fs" "current_dir_blk s1 = 1"
    using g by (auto simp: ld.dir_grown_def fs_frame_def)
  moreover have "dir_items (linux_contents (dev s1)) [b] = []"
    using a(5) by (simp add: dir_items_def block_items_def get_item_def filter_empty_conv)
  ultimately show thesis using a(2,3,5,6) lk
    by (intro that[of ds d i b]) (simp_all add: s1 usage_at_closed owned_def)
qed simp_all

section \<open>Mounting again\<close>

lemma remount:
  assumes "ld.mounted s" and "ld_mode (dev s) = S_IFREG" and cnt: "unat (blk_count s) = ld_size (dev s) div TFS_BLOCKSIZE"
    and root: "current_dir_blk s = TFS_ROOT_DIR_BLK" and "ld.dir_ok s ds"
    and t: "dev t = dev s" "length (blk_buf t) = TFS_BLOCKSIZE" "length (bitmap_blk t) = TFS_BLOCKSIZE"
  shows "ld.mounted (tfs_init linux_platform t) \<and> last_error (tfs_init linux_platform t) = TFS_ERR_OK \<and>
    ld.dir_ok (tfs_init linux_platform t) ds \<and> linux_contents (dev (tfs_init linux_platform t)) = linux_contents (dev s) \<and>
    handles (tfs_init linux_platform t) = replicate TFS_MAX_FDS zero_handle \<and>
    current_dir_blk (tfs_init linux_platform t) = TFS_ROOT_DIR_BLK \<and>
    (\<forall>it xs bs. ld.file_at s ds it xs bs \<longrightarrow> ld.file_at (tfs_init linux_platform t) ds it xs bs)"
proof -
  have "linux_ok (drive_info s) (dev s)" and bm: "bitmap_ok (linux_contents (dev s)) s"
    using assms(1) by (simp_all add: ld.mounted_def linux_io_select ld.io_ok_def del: ld.io_ok_lengths)
  then have o: "ld_outcomes (dev s) = []" by (simp add: linux_ok_def)
  have lt: "ld_size (dev s) div TFS_BLOCKSIZE < 2 ^ 32"
    using unsigned_less[of "blk_count s", where 'a = nat] by (simp flip: cnt)
  obtain d di where i: "linux_drive_init (drive_info t) (dev t) = (d, di, TFS_ERR_OK)" "linux_ok di d"
    "linux_contents d = linux_contents (dev s)" "unat (di_blk_count di) = ld_size (dev s) div TFS_BLOCKSIZE"
    using linux_init_file[OF o assms(2) lt, of "drive_info t"] unfolding t(1) by (elim exE conjE)
  have c: "di_blk_count di = blk_count s" by (simp only: word_unat_eq_iff i(4) cnt)
  have used: "\<forall>n. is_bitmap_blk n \<longrightarrow> n < di_blk_count di \<longrightarrow> blk_used (linux_contents d) n" "0 < di_blk_count di"
    using bm unfolding bitmap_ok_def c i(3) by simp_all
  have p: "pf_init linux_platform (drive_info t) (dev t) = (d, di, TFS_ERR_OK)" using i(1) by simp
  let ?t = "tfs_init linux_platform t"
  have r: "ld.mounted ?t" "last_error ?t = TFS_ERR_OK" "linux_contents (dev ?t) = linux_contents (dev s)" "drive_info ?t = di" "current_dir_blk ?t = current_dir_blk s"
    "handles ?t = replicate TFS_MAX_FDS zero_handle"
    using ld.init_spec[OF t(2,3) p _ used(2,1)] i(2) unfolding i(3) root by simp_all
  note c = c r(3-6)
  have d: "ld.dir_ok ?t ds" using assms(5) unfolding ld.dir_ok_def c by simp
  have "ld.file_at ?t ds it xs bs" if "ld.file_at s ds it xs bs" for it xs bs
    using that unfolding ld.file_at_def c by simp
  with r(1,2,3,5,6) d root show ?thesis by (intro conjI allI impI) simp_all
qed

text \<open>The file as it is when the server is started.\<close>

definition demo_file_dev :: linux_dev where
  "demo_file_dev = demo_dev\<lparr>ld_data := ld_data (dev demo_file_fs)\<rparr>"

abbreviation demo_server :: "linux_dev fs" where
  "demo_server \<equiv> tfs_init linux_platform (demo_fs\<lparr>dev := demo_file_dev\<rparr>)"

lemma demo_mount:
  obtains pos xs ds where "ld.mounted demo_server"
    "last_error demo_server = TFS_ERR_OK" "ld.dir_ok (demo_server\<lparr>current_dir_blk := TFS_ROOT_DIR_BLK\<rparr>) ds"
    "dir_find (linux_contents (dev demo_server)) (strncmp_filename_cmp demo_name) ds = Some (demo_item pos)"
    "ld.file_at demo_server ds (demo_item pos) xs [1, 2, 3]" "handles demo_server = replicate TFS_MAX_FDS zero_handle"
proof (rule demo_file)
  fix pos xs ds
  let ?t = "demo_file_fs\<lparr>dev := demo_file_dev\<rparr>"
  assume a: "ld.mounted demo_file_fs" "ld.dir_ok demo_file_fs ds"
    "dir_find (linux_contents (dev demo_file_fs)) (strncmp_filename_cmp demo_name) ds = Some (demo_item pos)"
    "ld.file_at demo_file_fs ds (demo_item pos) xs [1, 2, 3]" "blk_count demo_file_fs = 8" "current_dir_blk demo_file_fs = 1"
  have c: "linux_contents demo_file_dev = linux_contents (dev demo_file_fs)" by (simp add: fun_eq_iff linux_contents_def demo_file_dev_def)
  have "linux_ok (drive_info demo_file_fs) demo_file_dev" using a(5) by (simp add: linux_ok_def demo_file_dev_def demo_dev_def)
  then have t: "ld.mounted ?t" "ld.dir_ok ?t ds" "ld.file_at ?t ds (demo_item pos) xs [1, 2, 3]"
    using a(1,2,4) c by (simp_all add: ld.mounted_def linux_io_select ld.io_ok_def bitmap_ok_def ld.dir_ok_def ld.file_at_def del: ld.io_ok_lengths)
  have "ld_mode (dev ?t) = S_IFREG" "unat (blk_count ?t) = ld_size (dev ?t) div TFS_BLOCKSIZE" "current_dir_blk ?t = TFS_ROOT_DIR_BLK"
    using a(5,6) by (simp_all add: demo_file_dev_def demo_dev_def)
  from remount[OF t(1) this t(2), of "demo_fs\<lparr>dev := demo_file_dev\<rparr>"] t(3) a(3) c show thesis
    by (intro that[of ds pos xs]) (auto simp: ld.dir_ok_def)
qed

end
