(* ===== verification/Volume.thy ===== *)
theory Volume
  imports Demo_File
begin

text \<open>
  The properties of the volume as a whole on the Linux drive: the block allocator, formatting,
  the count of used blocks and mounting again.
\<close>

section \<open>The block allocator\<close>

text \<open>C8: \<open>alloc_block\<close> ends; it returns a free block and marks exactly that block as used, on the medium,
  or reports a full disk exactly when no block is free; no other block but bitmap blocks changes.\<close>

theorem alloc_free_block:
  assumes "ld.ready s"
  shows "\<exists>b s1. alloc_block linux_platform s = Some (b, s1) \<and>
    (\<forall>n. \<not> is_bitmap_blk n \<longrightarrow> linux_contents (dev s1) n = linux_contents (dev s) n) \<and>
    (if free_set (linux_contents (dev s)) (blk_count s) = {}
     then b = 0 \<and> last_error s1 = TFS_ERR_DISK_FULL \<and> linux_contents (dev s1) = linux_contents (dev s)
     else b < blk_count s \<and> \<not> blk_used (linux_contents (dev s)) b \<and> last_error s1 = TFS_ERR_OK \<and> ld.ready s1 \<and>
       (\<forall>n. blk_used (linux_contents (dev s1)) n \<longleftrightarrow> blk_used (linux_contents (dev s)) n \<or> n = b))"
  using ld.alloc_block_spec[OF ld.readyD[OF assms]]
  by (auto simp: ld.alloc_post_def free_set_def ld.ready_def split: if_splits)

lemma alloc_free_block_witness:
  "\<exists>b s1. alloc_block linux_platform demo_fs = Some (b, s1) \<and> b < 8 \<and> last_error s1 = TFS_ERR_OK"
proof -
  have "(2 :: u32) \<in> free_set (linux_contents (dev demo_fs)) (blk_count demo_fs)" using demo_free[of 2] by simp
  then have "free_set (linux_contents (dev demo_fs)) (blk_count demo_fs) \<noteq> {}" by blast
  then show ?thesis using alloc_free_block[OF demo_ready(1)] by auto
qed

text \<open>C9: \<open>free_file_blocks\<close> follows a chain to its end and frees exactly its blocks; the blocks themselves
  keep their bytes.\<close>

theorem free_chain:
  assumes "ld.ready s" and "chain (linux_contents (dev s)) pos xs"
    and "\<forall>x \<in> set xs. x < blk_count s \<and> \<not> is_bitmap_blk x"
  shows "\<exists>s1. free_file_blocks linux_platform pos s = Some s1 \<and> ld.ready s1 \<and> fs_frame s s1 \<and>
    (\<forall>n. \<not> is_bitmap_blk n \<longrightarrow> linux_contents (dev s1) n = linux_contents (dev s) n) \<and>
    (\<forall>n. blk_used (linux_contents (dev s1)) n \<longleftrightarrow> blk_used (linux_contents (dev s)) n \<and> n \<notin> set xs)"
  using ld.free_file_blocks_spec[OF assms] by blast

lemma free_chain_witness:
  "\<exists>s1. free_file_blocks linux_platform 1 demo_fs = Some s1 \<and> \<not> blk_used (linux_contents (dev s1)) 1"
proof -
  have "chain (linux_contents (dev demo_fs)) 1 [1]" by (simp add: demo_contents)
  from free_chain[OF demo_ready(1) this] show ?thesis by (auto simp: is_bitmap_iff)
qed

section \<open>Formatting\<close>

text \<open>C10: \<open>tfs_format\<close> of a disk of at least two blocks leaves a mounted, empty file system: the bitmap
  blocks and block 1 are the only used ones, block 1 is an empty root directory, and no other block of
  the disk is written.\<close>

theorem format_empty:
  assumes "ld.io_ok s" and "last_error s \<noteq> TFS_ERR_NO_DEV" and "ld.geometry s" and "2 \<le> blk_count s"
  shows "\<exists>s1. tfs_format linux_platform s = Some s1 \<and> ld.ready s1 \<and> ld.tail_marked s1 \<and> current_dir_blk s1 = 1 \<and>
    ld.dir_ok s1 [1] \<and> dir_items (linux_contents (dev s1)) [1] = [] \<and>
    (\<forall>n < blk_count s. blk_used (linux_contents (dev s1)) n \<longleftrightarrow> is_bitmap_blk n \<or> n = 1) \<and>
    (\<forall>n. \<not> is_bitmap_blk n \<longrightarrow> n \<noteq> 1 \<longrightarrow> linux_contents (dev s1) n = linux_contents (dev s) n)"
proof -
  obtain s1 where s1: "tfs_format linux_platform s = Some s1" "ld.ready s1" "ld.tail_marked s1" "current_dir_blk s1 = 1"
    "ld.dir_ok s1 [1]" "linux_contents (dev s1) 1 = replicate TFS_BLOCKSIZE 0"
    "\<forall>n < blk_count s. blk_used (linux_contents (dev s1)) n \<longleftrightarrow> is_bitmap_blk n \<or> n = 1"
    "\<forall>n. \<not> is_bitmap_blk n \<longrightarrow> n \<noteq> 1 \<longrightarrow> linux_contents (dev s1) n = linux_contents (dev s) n"
    using ld.format_spec[of s] assms unfolding linux_ready linux_io_select by blast
  moreover have "dir_items (linux_contents (dev s1)) [1] = []"
    by (simp add: dir_items_def block_items_def get_item_def s1(6) filter_empty_conv)
  ultimately show ?thesis by blast
qed

lemma demo_geometry: "ld.io_ok demo_fs" "ld.geometry demo_fs"
  using ld.readyD[OF demo_ready(1)] by (simp_all add: ld.geometry_def bitmap_ok_def)

lemma format_empty_witness:
  "\<exists>s1. tfs_format linux_platform demo_fs = Some s1 \<and> ld.ready s1 \<and> dir_items (linux_contents (dev s1)) [1] = []"
proof -
  have "(2 :: u32) \<le> blk_count demo_fs" "last_error demo_fs \<noteq> TFS_ERR_NO_DEV" by simp_all
  from format_empty[OF demo_geometry(1) this(2) demo_geometry(2) this(1)] show ?thesis by blast
qed

text \<open>C11: when the last bitmap block is used to its end, \<open>tfs_format\<close> writes the byte behind the array
  \<open>bitmap_blk\<close>: the index \<open>last_bitmap_len >> 3\<close> is 512.\<close>

theorem format_writes_past_bitmap:
  assumes "ld.io_ok s" and "last_error s \<noteq> TFS_ERR_NO_DEV" and "ld.geometry s" and "2 \<le> blk_count s"
    and "4096 dvd unat (blk_count s)"
  shows "\<exists>s1. tfs_format linux_platform s = Some s1 \<and> after_bitmap s1 = 0xff"
proof -
  note g = ld.geometry_props[OF assms(3)]
  have "unat (blk_count s - 1) = unat (blk_count s) - 1"
    using assms(4) by (simp add: unat_sub_if_size word_le_nat_alt)
  moreover obtain k where k: "unat (blk_count s) = 4096 * k" using assms(5) by (auto elim: dvdE)
  moreover have "2 \<le> unat (blk_count s)" using assms(4) by (simp add: word_le_nat_alt)
  then obtain j where "k = Suc j" using k by (cases k) auto
  ultimately have "unat (last_bitmap_len s) = (4096 * j + 4095) mod 4096 + 1" using g(3) by simp
  then have "unat (last_bitmap_len s) = 4096" by simp
  with ld.format_spec[of s] assms(1-4) show ?thesis by auto
qed

definition full_demo_fs :: "linux_dev fs" where
  "full_demo_fs = demo_fs\<lparr>dev := demo_dev\<lparr>ld_size := 2097152\<rparr>,
     drive_info := (drive_info demo_fs)\<lparr>di_blk_count := 4096\<rparr>, last_bitmap_len := 4096\<rparr>"

lemma format_writes_past_bitmap_witness:
  "\<exists>s1. tfs_format linux_platform full_demo_fs = Some s1 \<and> after_bitmap full_demo_fs = 0 \<and> after_bitmap s1 = 0xff"
proof -
  have "ld.io_ok full_demo_fs" by (simp add: ld.io_ok_def full_demo_fs_def linux_ok_def demo_dev_def)
  moreover have "ld.geometry full_demo_fs" by (simp add: ld.geometry_def full_demo_fs_def GET_BITMAP_BLK_def)
  ultimately show ?thesis
    using format_writes_past_bitmap[of full_demo_fs] by (simp add: full_demo_fs_def demo_fs_def)
qed

section \<open>Used blocks\<close>

text \<open>C12: \<open>tfs_get_used\<close> returns the number of blocks of the disk whose bit is set in the bitmap.\<close>

theorem get_used_counts:
  assumes "ld.mounted s" and "ld.tail_marked s"
  shows "\<exists>s1. tfs_get_used linux_platform s =
      Some (of_nat (card {n. n < blk_count s \<and> blk_used (linux_contents (dev s)) n}), s1) \<and>
    ld.ready s1 \<and> linux_contents (dev s1) = linux_contents (dev s)"
  using ld.get_used_spec[OF assms] unfolding linux_ready by blast

lemma get_used_counts_witness:
  "\<exists>s0 n s1. tfs_format linux_platform demo_fs = Some s0 \<and> tfs_get_used linux_platform s0 = Some (n, s1)"
proof -
  have "(2 :: u32) \<le> blk_count demo_fs" "last_error demo_fs \<noteq> TFS_ERR_NO_DEV" by simp_all
  from ld.format_spec[of demo_fs] demo_geometry this
  obtain s0 where s0: "tfs_format linux_platform demo_fs = Some s0" "ld.mounted s0" "ld.tail_marked s0"
    unfolding linux_io_select by blast
  obtain s1 where "tfs_get_used linux_platform s0 =
      Some (of_nat (card {n. n < blk_count s0 \<and> blk_used (linux_contents (dev s0)) n}), s1)"
    using get_used_counts[OF s0(2,3)] by (elim exE conjE)
  with s0(1) show ?thesis by (intro exI conjI)
qed

section \<open>Mounting again\<close>

text \<open>C13: nothing but the medium is needed to get the files back: \<open>tfs_init\<close>, from whatever values the
  program's variables have, on the file a mounted disk was on gives a mounted disk with the same contents
  in its root directory, with every handle closed.\<close>

theorem remount_keeps_files:
  assumes "ld.mounted s" and "ld_mode (dev s) = S_IFREG" and cnt: "unat (blk_count s) = ld_size (dev s) div TFS_BLOCKSIZE"
    and root: "current_dir_blk s = TFS_ROOT_DIR_BLK" and "ld.dir_ok s ds"
    and t: "dev t = dev s" "length (blk_buf t) = TFS_BLOCKSIZE" "length (bitmap_blk t) = TFS_BLOCKSIZE"
  shows "ld.mounted (tfs_init linux_platform t) \<and> last_error (tfs_init linux_platform t) = TFS_ERR_OK \<and>
    ld.dir_ok (tfs_init linux_platform t) ds \<and> linux_contents (dev (tfs_init linux_platform t)) = linux_contents (dev s) \<and>
    handles (tfs_init linux_platform t) = replicate TFS_MAX_FDS zero_handle \<and>
    (\<forall>it xs bs. ld.file_at s ds it xs bs \<longrightarrow> ld.file_at (tfs_init linux_platform t) ds it xs bs)"
  using remount[OF assms] by blast

definition power_up :: "linux_dev \<Rightarrow> linux_dev fs" where
  "power_up d = demo_fs\<lparr>dev := d, drive_info := (drive_info demo_fs)\<lparr>di_blk_count := 0\<rparr>, bitmap_blk := replicate 512 0,
     current_dir_blk := 0, last_bitmap_len := 0\<rparr>"

lemma remount_keeps_files_witness:
  "\<exists>ds. ld.dir_ok (tfs_init linux_platform (power_up demo_dev)) ds \<and> ld.mounted (tfs_init linux_platform (power_up demo_dev))"
  using remount_keeps_files[OF demo_ready(2) _ _ _ demo_dir_ok, of "power_up demo_dev"]
  by (auto simp: power_up_def demo_dev_def)

end
