(* ===== verification/Listing.thy ===== *)
theory Listing
  imports Cleanup
begin

text \<open>
  \<open>tfs_read_dir\<close> against an abstract traversal: the handler sees every slot of the directory, in
  order, until it declines.
\<close>

fun visit :: "('u \<Rightarrow> dir_item \<Rightarrow> 'u \<times> bool) \<Rightarrow> dir_item list \<Rightarrow> 'u \<Rightarrow> 'u \<times> bool" where
  "visit h [] u = (u, True)"
| "visit h (it # its) u = (case h u it of (v, go) \<Rightarrow> if go then visit h its v else (v, False))"

lemma visit_append:
  "visit h (xs @ ys) u = (case visit h xs u of (v, go) \<Rightarrow> if go then visit h ys v else (v, False))"
  by (induction xs arbitrary: u) (auto split: prod.split)

lemma read_items_visit: "read_items h b is u = visit h (map (get_item b) is) u"
  by (induction "is" arbitrary: u) (auto simp: Let_def split: prod.split)

text \<open>A handler that skips free slots and never stops folds over the entries.\<close>

lemma visit_all:
  assumes "\<And>u it. h u it = (if it_type it = TFS_DIR_ITEM_FREE then u else f it u, True)"
  shows "visit h its u = (fold f (filter (\<lambda>it. it_type it \<noteq> TFS_DIR_ITEM_FREE) its) u, True)"
  by (induction its arbitrary: u) (simp_all add: assms)

context block_device
begin

definition all_slots :: "'d fs \<Rightarrow> u32 list \<Rightarrow> dir_item list" where
  "all_slots s ds = map (slot_item (cont s)) (dir_slots ds)"

lemma read_dir_loop_spec:
  assumes "ready s" and "chain (cont s) pos ds" and "ds \<noteq> []" and "\<forall>d \<in> set ds. d < blk_count s"
  shows "\<exists>s'. read_dir_loop P h u pos s =
      Some ((snd (visit h (all_slots s ds) u), fst (visit h (all_slots s ds) u)), s') \<and>
    ready s' \<and> fs_frame s s' \<and> cont s' = cont s"
  using assms
proof (induction ds arbitrary: pos s u)
  case (Cons d ds)
  define s1 where "s1 = read_buf P d s"
  have d: "pos = d" "d < blk_count s" using Cons.prems by auto
  have s1: "ready s1" "fs_frame s s1" "cont s1 = cont s" "blk_buf s1 = cont s d" "last_error s1 = TFS_ERR_OK"
    using Cons.prems(1) d by (simp_all add: s1_def)
  obtain v go where v: "visit h (map (get_item (cont s d)) [0..<TFS_DIR_BLK_ITEMS]) u = (v, go)" by fastforce
  have al: "all_slots s (d # ds) = map (get_item (cont s d)) [0..<TFS_DIR_BLK_ITEMS] @ all_slots s ds"
    by (simp add: all_slots_def slot_item_def comp_def)
  have vis: "visit h (all_slots s (d # ds)) u = (if go then visit h (all_slots s ds) v else (v, False))"
    by (simp add: al visit_append v)
  have nil: "all_slots s [] = []" by (simp add: all_slots_def dir_slots_def)
  have sl: "all_slots s1 ds = all_slots s ds" by (simp add: all_slots_def s1(3))
  have step: "read_dir_loop P h u pos s = (if \<not> go then Some ((False, v), s1)
      else if blk_next (cont s d) = 0 then Some ((True, v), s1)
      else read_dir_loop P h v (blk_next (cont s d)) s1)"
    unfolding d(1) using s1(4,5) v by (subst read_dir_loop.simps) (simp add: Let_def read_items_visit flip: s1_def)
  show ?case
  proof (cases "go \<and> ds \<noteq> []")
    case True
    then have nz: "blk_next (cont s d) \<noteq> 0" using Cons.prems(2) by (cases ds) auto
    have "chain (cont s1) (blk_next (cont s d)) ds" using Cons.prems(2) by (simp add: s1(3))
    moreover have "\<forall>e \<in> set ds. e < blk_count s1" using Cons.prems(4) by (simp add: fs_frameD(1)[OF s1(2)])
    ultimately obtain s2 where "read_dir_loop P h v (blk_next (cont s d)) s1 =
        Some ((snd (visit h (all_slots s ds) v), fst (visit h (all_slots s ds) v)), s2)"
      "ready s2" "fs_frame s1 s2" "cont s2 = cont s1"
      using Cons.IH[OF s1(1), of "blk_next (cont s d)" v] True sl by auto
    with True nz step s1(3) fs_frame_trans[OF s1(2)] show ?thesis unfolding vis by auto
  next
    case False
    then have "ds = [] \<and> go \<or> \<not> go" by blast
    with step s1 Cons.prems(2) nil show ?thesis
      unfolding vis by (intro exI[of _ s1]) (auto simp del: dir_slots_simps)
  qed
qed simp

theorem read_dir_spec:
  assumes "mounted s" and "dir_ok s ds"
  obtains s' where "tfs_read_dir P h u s = Some ((snd (visit h (all_slots s ds) u), fst (visit h (all_slots s ds) u)), s')"
    "last_error s' = TFS_ERR_OK" "mounted s'" "fs_frame s s'" "cont s' = cont s"
proof -
  note [simp] = assms(1) mounted_select[OF assms(1)]
  have r: "ready (entered s)" and ok: "dir_ok (entered s) ds" using assms by (simp_all add: ready_entered)
  have "all_slots (entered s) ds = all_slots s ds" by (simp add: all_slots_def)
  then obtain s1 where s1: "read_dir_loop P h u (current_dir_blk s) (entered s) =
      Some ((snd (visit h (all_slots s ds) u), fst (visit h (all_slots s ds) u)), s1)"
    "ready s1" "fs_frame (entered s) s1" "cont s1 = cont (entered s)"
    using read_dir_loop_spec[OF r, of "current_dir_blk s" ds h u] ok by (auto simp: dir_ok_def owned_def)
  have "tfs_read_dir P h u s = Some ((snd (visit h (all_slots s ds) u), fst (visit h (all_slots s ds) u)), drive_deselect P s1)"
    unfolding tfs_read_dir_def by (rule api_call_mounted[OF assms(1)]) (use s1(1) in simp)
  with s1 readyD(3)[OF s1(2)] mounted_ready[OF s1(2)] show thesis by (intro that[of "drive_deselect P s1"]) simp_all
qed

end

end
