(* ===== verification/Interface.thy ===== *)
theory Interface
  imports Demo_File Listing
begin

text \<open>
  Properties of the directory functions and of the two sides of the file system: the drive below
  it and the error codes above it.
\<close>

section \<open>Directories\<close>

text \<open>C14: \<open>find_file\<close> finds what a search of the list of the directory's entries finds: the first one
  whose name matches.  The pointer it returns is the slot of that entry in the block it has loaded.\<close>

theorem find_file_first_match:
  assumes "ld.ready s" and "ld.dir_ok s ds" and "c_at name 0 \<noteq> 0"
  shows "\<exists>r s1. find_file linux_platform name False s = Some (r, s1) \<and> last_error s1 = TFS_ERR_OK \<and>
    linux_contents (dev s1) = linux_contents (dev s) \<and>
    map_option (get_item (blk_buf s1)) r = find (\<lambda>it. strncmp_filename_cmp name (it_name it)) (dir_items (linux_contents (dev s)) ds)"
  using assms
proof (cases rule: ld.find_file_cases[where want = False])
  case (found d i s1)
  then have "dir_find (linux_contents (dev s)) (strncmp_filename_cmp name) ds = Some (get_item (blk_buf s1) i)"
    by (simp add: dir_find_def slot_item_def)
  with found ld.readyD(3)[OF found(3)] show ?thesis by (simp add: dir_find_items)
next
  case (absent s1)
  then have "dir_find (linux_contents (dev s)) (strncmp_filename_cmp name) ds = None" by (simp add: dir_find_def)
  with absent ld.readyD(3)[OF absent(4)] show ?thesis by (simp add: dir_find_items)
qed simp_all

lemma find_file_first_match_witness:
  "\<exists>s1. find_file linux_platform demo_name False demo_fs = Some (None, s1)"
  using find_file_first_match[OF demo_ready(1) demo_dir_ok demo_name_nonempty]
    demo_find[of "strncmp_filename_cmp demo_name", unfolded dir_find_items] by auto

text \<open>C15: \<open>tfs_read_dir\<close> calls the handler on every slot of every block of the current directory, in order,
  until the handler declines, and returns whether it got to the end.\<close>

theorem read_dir_visits:
  assumes "ld.mounted s" and "ld.dir_ok s ds"
  shows "\<exists>s1. tfs_read_dir linux_platform h u s =
      Some (prod.swap (visit h (map (slot_item (linux_contents (dev s))) (dir_slots ds)) u), s1) \<and>
    last_error s1 = TFS_ERR_OK \<and> linux_contents (dev s1) = linux_contents (dev s)"
  using ld.read_dir_spec[OF assms, of h u] unfolding ld.all_slots_def prod.swap_def by metis

lemma read_dir_visits_witness:
  "\<exists>n s1. tfs_read_dir linux_platform (\<lambda>n it. (Suc n, True)) (0 :: nat) demo_fs = Some ((True, n), s1)"
proof -
  have "snd (visit (\<lambda>n it. (Suc n, True)) its u)" for its :: "dir_item list" and u :: nat
    by (induction its arbitrary: u) simp_all
  then show ?thesis
    using read_dir_visits[OF demo_ready(2) demo_dir_ok, of "\<lambda>n it. (Suc n, True)" "0 :: nat"]
    by (auto simp: prod.swap_def)
qed

text \<open>C16: \<open>write_dir_cleanup\<close> keeps the entries of the directory and its double links, whether it writes the
  loaded block or takes it out of the chain, and frees exactly the blocks that leave the directory.\<close>

theorem cleanup_keeps_directory:
  assumes "ld.ready s" and "ld.dir_ok s ds" and "loaded_dir_blk s = d" and "d \<in> set ds"
    and "blk_next (blk_buf s) = blk_next (linux_contents (dev s) d)" and "blk_prev (blk_buf s) = blk_prev (linux_contents (dev s) d)"
  shows "\<exists>ds1. ld.ready (write_dir_cleanup linux_platform s) \<and> ld.dir_ok (write_dir_cleanup linux_platform s) ds1 \<and>
    dir_items (linux_contents (dev (write_dir_cleanup linux_platform s))) ds1 = dir_items ((linux_contents (dev s))(d := blk_buf s)) ds \<and>
    (\<forall>n. blk_used (linux_contents (dev (write_dir_cleanup linux_platform s))) n \<longleftrightarrow>
      blk_used (linux_contents (dev s)) n \<and> (n \<in> set ds \<longrightarrow> n \<in> set ds1))"
proof (rule ld.write_dir_cleanup_spec[OF assms(1-4) refl assms(5,6)])
  fix ds1 assume "ld.tidied s (write_dir_cleanup linux_platform s) ds ds1 ((linux_contents (dev s))(d := blk_buf s))"
  then show ?thesis by (auto simp: ld.tidied_def)
qed

lemma cleanup_keeps_directory_witness:
  "\<exists>ds1. ld.dir_ok (write_dir_cleanup linux_platform (demo_fs\<lparr>loaded_dir_blk := 1\<rparr>)) ds1"
proof -
  have "ld.ready (demo_fs\<lparr>loaded_dir_blk := 1\<rparr>)" by simp
  moreover have "ld.dir_ok (demo_fs\<lparr>loaded_dir_blk := 1\<rparr>) [1]" using demo_dir_ok by (simp add: ld.dir_ok_def)
  ultimately show ?thesis using cleanup_keeps_directory[of "demo_fs\<lparr>loaded_dir_blk := 1\<rparr>" "[1]" 1] by (auto simp: demo_contents)
qed

section \<open>The Linux drive\<close>

text \<open>On a file without faults a written block is read back, and writing a block changes no other.\<close>

theorem drive_read_after_write:
  assumes "linux_ok di d" and "n < di_blk_count di" and "m < di_blk_count di"
    and "length data = TFS_BLOCKSIZE" and "length buf = TFS_BLOCKSIZE"
  shows "\<exists>d1. linux_write_block di n data d = (d1, None) \<and>
    snd (linux_read_block di m buf d1) = (if m = n then data else linux_contents d m, None)"
proof -
  note w = ld.pf_write_ok[OF assms(1,2,4)] ld.pf_write_dev[OF assms(1,2,4)] ld.pf_write_dev_ok[OF assms(1,2,4)]
  define d1 where "d1 = fst (linux_write_block di n data d)"
  have "linux_write_block di n data d = (d1, None)" using w(1) by (simp add: d1_def prod_eq_iff)
  moreover have "snd (linux_read_block di m buf d1) = (((linux_contents d)(n := data)) m, None)"
    using ld.pf_read_ok[OF w(3) assms(3,5)] w(2) by (simp add: d1_def)
  ultimately show ?thesis by simp
qed

lemma drive_read_after_write_witness:
  "\<exists>d1. linux_write_block (drive_info demo_fs) 5 (replicate 512 7) demo_dev = (d1, None) \<and>
    snd (linux_read_block (drive_info demo_fs) 5 (replicate 512 0) d1) = (replicate 512 7, None)"
  using drive_read_after_write[of "drive_info demo_fs" demo_dev 5 5 "replicate 512 7" "replicate 512 0"]
  by (simp add: linux_ok_def demo_dev_def)

text \<open>A read that works, and one that fails at \<open>lseek\<close> or at \<open>read\<close>.\<close>

definition fault :: "sys_outcome list \<Rightarrow> bool" where
  "fault f \<longleftrightarrow> f = [SysFail] \<or> f = [SysOk, SysFail]"

lemma read_buf_works:
  assumes "ld_outcomes (dev s) = SysOk # SysOk # rest" and "n < blk_count s" and "unat (blk_count s) * TFS_BLOCKSIZE \<le> ld_size (dev s)"
    and "length (blk_buf s) = TFS_BLOCKSIZE"
  defines "t \<equiv> read_buf linux_platform n s"
  shows "last_error t = last_error s" "blk_buf t = linux_contents (dev s) n" "linux_contents (dev t) = linux_contents (dev s)"
    "ld_outcomes (dev t) = rest" "ld_size (dev t) = ld_size (dev s)"
proof -
  have "(unat n + 1) * TFS_BLOCKSIZE \<le> unat (blk_count s) * TFS_BLOCKSIZE"
    using assms(2) by (intro mult_le_mono1) (simp add: word_less_nat_alt)
  with assms(3) have "TFS_BLOCKSIZE \<le> ld_size (dev s) - unat n * TFS_BLOCKSIZE" by simp
  then show "last_error t = last_error s" "blk_buf t = linux_contents (dev s) n" "linux_contents (dev t) = linux_contents (dev s)"
    "ld_outcomes (dev t) = rest" "ld_size (dev t) = ld_size (dev s)"
    using assms(1,2,4) by (simp_all add: t_def read_buf_def linux_read_block_def sys_lseek_def sys_read_def sys_outcome_def sys_step_def
      sys_count_def Let_def not_le[symmetric] linux_contents_def fun_eq_iff)
qed

lemma read_buf_fails:
  assumes "ld_outcomes (dev s) = f @ rest" and "fault f" and "n < blk_count s"
  shows "last_error (read_buf linux_platform n s) = TFS_ERR_IO"
    "linux_contents (dev (read_buf linux_platform n s)) = linux_contents (dev s)"
  using assms by (auto simp: fault_def read_buf_def linux_read_block_def sys_lseek_def sys_read_def sys_outcome_def sys_step_def
    Let_def not_le[symmetric] linux_contents_def fun_eq_iff)

text \<open>The search of a directory whose block \<open>k\<close> cannot be read, while the name is not in the blocks before.\<close>

lemma find_loop_fails:
  assumes "chain (linux_contents (dev s)) pos ds" and "k < length ds" and "\<forall>d \<in> set ds. d < blk_count s"
    and "dir_lookup (linux_contents (dev s)) (strncmp_filename_cmp name) (take k ds) = None"
    and "ld_outcomes (dev s) = replicate (2 * k) SysOk @ f @ rest" and "fault f"
    and "unat (blk_count s) * TFS_BLOCKSIZE \<le> ld_size (dev s)" and "length (blk_buf s) = TFS_BLOCKSIZE" and "last_error s = TFS_ERR_OK"
  shows "\<exists>fr t. find_loop linux_platform name pos free s = Some (FindError, fr, t) \<and> last_error t = TFS_ERR_IO \<and>
    linux_contents (dev t) = linux_contents (dev s)"
  using assms
proof (induction k arbitrary: s pos ds free)
  case 0
  then obtain es where "ds = pos # es" by (cases ds) auto
  with 0 read_buf_fails[of s f rest pos] show ?case by (subst find_loop.simps) (simp add: Let_def)
next
  case (Suc k)
  let ?C = "linux_contents (dev s)"
  obtain e es where ds: "ds = pos # e # es" using Suc.prems(1,2) by (cases ds rule: remdups_adj.cases) auto
  have pos: "pos < blk_count s" using Suc.prems(3) ds by simp
  have "ld_outcomes (dev s) = SysOk # SysOk # replicate (2 * k) SysOk @ f @ rest" using Suc.prems(5) by simp
  note rd = read_buf_works[OF this pos Suc.prems(7,8)]
  let ?s = "(read_buf linux_platform pos s)\<lparr>loaded_dir_blk := pos\<rparr>"
  let ?r = "scan_items (strncmp_filename_cmp name) (?C pos) pos [0..<TFS_DIR_BLK_ITEMS] free"
  have "dir_lookup ?C (strncmp_filename_cmp name) (pos # take k (e # es)) = None" using Suc.prems(4) by (simp add: ds)
  then have lk: "find (slot_match ?C (strncmp_filename_cmp name)) (map (Pair pos) [0..<TFS_DIR_BLK_ITEMS]) = None"
    "dir_lookup ?C (strncmp_filename_cmp name) (take k (e # es)) = None"
    by (simp_all add: dir_lookup_def find_append split: option.splits)
  have "fst ?r = None" unfolding scan_items_spec(1) using lk(1) by simp
  moreover have "blk_next (?C pos) = e" "e \<noteq> 0" using Suc.prems(1) by (simp_all add: ds)
  ultimately have step: "find_loop linux_platform name pos free s = find_loop linux_platform name e (snd ?r) ?s"
    using rd(1,2) Suc.prems(9) by (subst find_loop.simps) (simp add: Let_def)
  have "chain (linux_contents (dev ?s)) e (e # es)" using Suc.prems(1) rd(3) by (simp add: ds)
  from Suc.IH[OF this, of "snd ?r"] show ?case
    unfolding step using Suc.prems(2,3,6-9) rd lk(2) by (simp add: ds)
qed

text \<open>C18: on a mounted disk, when a directory block cannot be read, because \<open>lseek\<close> or \<open>read\<close> fails, every function that looks up a
  name which is not in the blocks before it reports \<open>TFS_ERR_IO\<close>, returns what stands for failure and writes nothing
  (for \<open>tfs_rename\<close>, the name is the new one, which it looks up first).\<close>

theorem io_error_reported:
  assumes "ld.mounted (s\<lparr>dev := (dev s)\<lparr>ld_outcomes := []\<rparr>\<rparr>)" and "ld.dir_ok s ds" and "c_at name 0 \<noteq> 0" and "k < length ds"
    and "dir_lookup (linux_contents (dev s)) (strncmp_filename_cmp name) (take k ds) = None"
    and "ld_outcomes (dev s) = replicate (2 * k) SysOk @ f @ rest" and "f = [SysFail] \<or> f = [SysOk, SysFail]"
  shows "\<exists>t. last_error t = TFS_ERR_IO \<and> linux_contents (dev t) = linux_contents (dev s) \<and>
    tfs_create_dir linux_platform name s = Some t \<and>
    tfs_change_dir linux_platform name s = Some t \<and>
    tfs_write_file linux_platform name data len ov s = Some t \<and>
    tfs_read_file linux_platform name max_len s = Some ((0, []), t) \<and>
    tfs_delete linux_platform name ty s = Some t \<and>
    tfs_rename linux_platform other name s = Some t \<and>
    tfs_stat linux_platform name s = Some (None, t) \<and>
    tfs_touch linux_platform name s = Some t \<and>
    tfs_open linux_platform name s = Some (-1, t)"
proof -
  let ?s = "drive_select linux_platform (set_error TFS_ERR_OK s)"
  have m: "last_error s \<noteq> TFS_ERR_NO_DEV" "unat (blk_count s) * TFS_BLOCKSIZE \<le> ld_size (dev s)" "length (blk_buf s) = TFS_BLOCKSIZE"
    using assms(1) by (simp_all add: ld.mounted_def linux_io_select ld.io_ok_def linux_ok_def del: ld.io_ok_lengths)
  have d: "chain (linux_contents (dev s)) (current_dir_blk s) ds" "\<forall>d \<in> set ds. d < blk_count s"
    using assms(2) by (simp_all add: ld.dir_ok_def owned_def)
  have dev: "dev ?s = dev s" by (simp add: linux_drive_select_def)
  have "fault f" using assms(7) by (simp add: fault_def)
  from find_loop_fails[of ?s "current_dir_blk s", unfolded dev, OF d(1) assms(4) _ assms(5,6) this] d(2) m(2,3)
  obtain fr t where l: "find_loop linux_platform name (current_dir_blk s) None ?s = Some (FindError, fr, t)"
    "last_error t = TFS_ERR_IO" "linux_contents (dev t) = linux_contents (dev s)" by fastforce
  have "find_file linux_platform name want ?s = Some (None, t)" for want using l(1) assms(3) by (simp add: find_file_def)
  note f = this[of False] this[of True]
  let ?t = "drive_deselect linux_platform t"
  show ?thesis
    using f m(1) l(2,3) by (intro exI[of _ ?t] conjI) (simp_all add: tfs_create_dir_def create_dir_body_def tfs_change_dir_def
      change_dir_body_def tfs_write_file_def write_file_body_def tfs_read_file_def read_file_body_def tfs_delete_def delete_body_def
      tfs_rename_def rename_body_def tfs_stat_def tfs_touch_def touch_body_def tfs_open_def open_body_def api_void_def api_call_def
      linux_drive_deselect_def)
qed

text \<open>The \<open>read\<close> of the root directory fails.\<close>

lemma io_error_reported_witness:
  "\<exists>t. tfs_open linux_platform demo_name (demo_fs\<lparr>dev := demo_dev\<lparr>ld_outcomes := [SysOk, SysFail]\<rparr>\<rparr>) = Some (-1, t) \<and>
    last_error t = TFS_ERR_IO"
proof -
  let ?s = "demo_fs\<lparr>dev := demo_dev\<lparr>ld_outcomes := [SysOk, SysFail]\<rparr>\<rparr>"
  have "?s\<lparr>dev := (dev ?s)\<lparr>ld_outcomes := []\<rparr>\<rparr> = demo_fs" by (simp add: demo_fs_def demo_dev_def)
  then have "ld.mounted (?s\<lparr>dev := (dev ?s)\<lparr>ld_outcomes := []\<rparr>\<rparr>)" using demo_ready(2) by (simp only:)
  moreover have "linux_contents (dev ?s) = linux_contents demo_dev" by (simp add: linux_contents_def fun_eq_iff)
  then have "ld.dir_ok ?s [1]" using demo_dir_ok by (simp add: ld.dir_ok_def)
  ultimately show ?thesis
    using io_error_reported[of ?s "[1]" demo_name 0 "[SysOk, SysFail]" "[]" "[]" 0 False 0 0 "[]"] by (auto simp: dir_lookup_def)
qed

text \<open>\<open>tfs_read_file\<close> reads the block the entry points to before it looks at the size.  An empty file has no blocks and
  points to block 0, so that the first bitmap block is read as data, and its second word, the bits of blocks 32 to
  63, is followed as the next block: on a disk of at most 32 blocks, where that word is full of ones, reading an
  empty file fails.\<close>

theorem read_empty_file_fails:
  assumes "ld.mounted s" and "ld.dir_ok s ds" and "c_at name 0 \<noteq> 0"
    and df: "dir_find (linux_contents (dev s)) (strncmp_filename_cmp name) ds = Some it"
    and it: "it_type it = TFS_DIR_ITEM_FILE" "it_blk it = 0" "it_size it = 0"
    and far: "blk_count s \<le> blk_next (linux_contents (dev s) 0)"
  shows "\<exists>t. tfs_read_file linux_platform name max_len s = Some ((0, []), t) \<and> last_error t = TFS_ERR_IO"
proof -
  let ?s = "ld.entered s"
  have r: "ld.ready ?s" by (rule ld.ready_entered[OF assms(1)])
  have dk: "ld.dir_ok ?s ds" using assms(2) by (simp add: ld.dir_ok_def linux_drive_select_def)
  have cnt: "0 < blk_count s" using assms(1) by (simp add: ld.mounted_def bitmap_ok_def)
  show ?thesis using r dk assms(3)
  proof (cases rule: ld.find_file_cases[where want = False])
    case (absent s')
    with df show ?thesis by (simp add: dir_find_def linux_drive_select_def)
  next
    case (found d i s')
    have g: "get_item (linux_contents (dev s) d) i = it"
      using found(1) df by (simp add: dir_find_def slot_item_def linux_drive_select_def)
    let ?a = "read_buf linux_platform 0 s'"
    have c: "blk_count s' = blk_count s" "linux_contents (dev s') = linux_contents (dev s)"
      using found(4,5) fs_frameD(1)[of ?s s'] by (simp_all add: linux_drive_select_def)
    have a: "last_error ?a = TFS_ERR_OK" "blk_buf ?a = linux_contents (dev s) 0" "blk_count ?a = blk_count s"
      using ld.readyD[OF found(3)] cnt c by simp_all
    let ?b = "read_buf linux_platform (blk_next (linux_contents (dev s) 0)) ?a"
    have b: "last_error ?b = TFS_ERR_IO" using far a(3) by (simp add: read_buf_def[of linux_platform "blk_next _"] linux_read_block_def)
    have nz: "blk_next (linux_contents (dev s) 0) \<noteq> 0" using far cnt by auto
    have "read_loop linux_platform (blk_next (linux_contents (dev s) 0)) 0 [] ?a = Some ([], ?b)"
      using b by (subst read_loop.simps) simp
    then have "read_loop linux_platform 0 0 [] s' = Some ([], ?b)"
      using a nz by (subst read_loop.simps) (simp add: Let_def)
    moreover have "item_type (blk_buf s') i = TFS_DIR_ITEM_FILE" "item_blk (blk_buf s') i = 0" "item_size (blk_buf s') i = 0"
      using g[symmetric] it found(7) by (simp_all add: get_item_def linux_drive_select_def)
    ultimately have "read_file_body linux_platform name max_len ?s = Some ((0, []), ?b)"
      using found(2) ld.readyD(3)[OF found(3)] by (simp add: read_file_body_def Let_def)
    with assms(1) b show ?thesis
      by (intro exI[of _ "drive_deselect linux_platform ?b"]) (simp add: tfs_read_file_def api_call_def ld.mounted_def)
  qed simp_all
qed

section \<open>Error codes\<close>

text \<open>\<open>check_error\<close> returns 0 exactly when the last call succeeded, and a negative error number otherwise;
  an unknown code becomes \<open>-EIO\<close>.\<close>

theorem check_error_sign:
  "(check_error e = 0 \<longleftrightarrow> e = TFS_ERR_OK) \<and> (check_error e \<noteq> 0 \<longrightarrow> check_error e < 0) \<and>
   (e \<notin> fst ` set errors \<longrightarrow> check_error e = - 5)"
  using check_error_negative[of e] by (auto simp: check_error_def errors_def)

text \<open>C20: after \<open>tfs_init\<close> found no device, every function but \<open>tfs_change_dir_root\<close> returns at once and
  changes nothing, on any platform.\<close>

theorem no_device_no_effect:
  assumes "last_error s = TFS_ERR_NO_DEV"
  shows "tfs_format P s = Some s \<and>
    tfs_get_used P s = Some (0, s) \<and>
    tfs_read_dir P h u s = Some ((False, u), s) \<and>
    tfs_change_dir_parent P s = Some s \<and>
    tfs_change_dir P name s = Some s \<and>
    tfs_create_dir P name s = Some s \<and>
    tfs_write_file P name data len ov s = Some s \<and>
    tfs_read_file P name max_len s = Some ((0, []), s) \<and>
    tfs_delete P name ty s = Some s \<and>
    tfs_rename P name other s = Some s \<and>
    tfs_stat P name s = Some (None, s) \<and>
    tfs_touch P name s = Some s \<and>
    tfs_open P name s = Some (-1, s) \<and>
    tfs_close fd s = s \<and>
    tfs_trunc P fd len s = Some s \<and>
    tfs_write P fd data len os s = Some (0, s) \<and>
    tfs_read P fd len os s = Some ((0, []), s)"
  using assms by (simp_all add: tfs_format_def tfs_get_used_def tfs_read_dir_def tfs_change_dir_parent_def tfs_change_dir_def
      tfs_create_dir_def tfs_write_file_def tfs_read_file_def tfs_delete_def tfs_rename_def tfs_stat_def tfs_touch_def
      tfs_open_def tfs_close_def tfs_trunc_def tfs_write_def tfs_read_def api_call_def api_void_def)

lemma no_device_no_effect_witness:
  "tfs_open linux_platform demo_name (set_error TFS_ERR_NO_DEV demo_fs) = Some (-1, set_error TFS_ERR_NO_DEV demo_fs)"
proof -
  have "last_error (set_error TFS_ERR_NO_DEV demo_fs) = TFS_ERR_NO_DEV" by simp
  note n = no_device_no_effect[OF this, where P = linux_platform and name = demo_name]
  show ?thesis by (rule n[THEN conjunct2, THEN conjunct2, THEN conjunct2, THEN conjunct2, THEN conjunct2, THEN conjunct2,
      THEN conjunct2, THEN conjunct2, THEN conjunct2, THEN conjunct2, THEN conjunct2, THEN conjunct2, THEN conjunct1])
qed

end
