(* ===== verification/Moved_Files.thy ===== *)
theory Moved_Files
  imports Demo_File
begin

text \<open>
  What happens to an open file when the first block of its directory becomes empty: \<open>write_dir_cleanup\<close> moves the
  second block into its place, and the handle is left on a slot that no longer exists.
\<close>

section \<open>Slots behind the first block\<close>

lemma lookup_behind:
  assumes "dir_lookup C cmp (d # ds) = Some (e, j)" and "e \<noteq> d"
  shows "dir_find C cmp [d] = None"
proof -
  have "find (slot_match C cmp) (map (Pair d) [0..<TFS_DIR_BLK_ITEMS]) = None"
  proof (rule ccontr)
    assume "find (slot_match C cmp) (map (Pair d) [0..<TFS_DIR_BLK_ITEMS]) \<noteq> None"
    then obtain p where p: "find (slot_match C cmp) (map (Pair d) [0..<TFS_DIR_BLK_ITEMS]) = Some p" by blast
    then have "p \<in> set (map (Pair d) [0..<TFS_DIR_BLK_ITEMS])" by (auto simp: find_Some_iff)
    then have "fst p = d" by auto
    moreover have "dir_lookup C cmp (d # ds) = Some p" using p by (simp add: dir_lookup_def find_append)
    ultimately show False using assms by (cases p) auto
  qed
  then show ?thesis by (simp add: dir_find_def dir_lookup_def)
qed

lemma only_item:
  assumes "i < TFS_DIR_BLK_ITEMS" and "item_type b i \<noteq> TFS_DIR_ITEM_FREE"
    and "\<forall>k < TFS_DIR_BLK_ITEMS. k \<noteq> i \<longrightarrow> item_type b k = TFS_DIR_ITEM_FREE"
  shows "block_items b = [get_item b i]"
proof -
  have "[0..<TFS_DIR_BLK_ITEMS] = [0..<i] @ i # [Suc i..<TFS_DIR_BLK_ITEMS]" 
    using upt_add_eq_append[of 0 i "TFS_DIR_BLK_ITEMS - i"] upt_conv_Cons[OF assms(1)] assms(1) by simp
  then have "block_items b = filter (\<lambda>it. it_type it \<noteq> TFS_DIR_ITEM_FREE) (map (get_item b) ([0..<i] @ i # [Suc i..<TFS_DIR_BLK_ITEMS]))"
    by (simp only: block_items_def)
  also have "\<dots> = [get_item b i]" using assms by (auto simp: get_item_def filter_empty_conv)
  finally show ?thesis .
qed

lemma only_item_cleared:
  assumes "i < TFS_DIR_BLK_ITEMS" and "\<forall>k < TFS_DIR_BLK_ITEMS. k \<noteq> i \<longrightarrow> item_type b k = TFS_DIR_ITEM_FREE" and "length b = TFS_BLOCKSIZE"
  shows "block_items (set_item_type b i TFS_DIR_ITEM_FREE) = []"
proof -
  have "it_type (get_item (set_item_type b i TFS_DIR_ITEM_FREE) k) = TFS_DIR_ITEM_FREE" if "k < TFS_DIR_BLK_ITEMS" for k
    using assms that by (cases "k = i") (simp_all add: get_item_def)
  then show ?thesis by (simp add: block_items_def filter_empty_conv)
qed

section \<open>An open file is deleted\<close>

text \<open>
  \<open>a\<close> is the only entry of the first block \<open>d\<close> of the directory, \<open>b\<close> a file in the second block \<open>e\<close>, opened as
  \<open>fd\<close>, the only handle in use.  Deleting \<open>a\<close> takes block \<open>e\<close> out of the directory.
\<close>

lemma delete_first_entry:
  assumes "ld.mounted s" and ok: "ld.dir_ok s (d # e # ds)" and "c_at a 0 \<noteq> 0"
    and la: "dir_lookup (linux_contents (dev s)) (strncmp_filename_cmp a) (d # e # ds) = Some (d, i)"
    and only: "\<forall>k < TFS_DIR_BLK_ITEMS. k \<noteq> i \<longrightarrow> item_type (linux_contents (dev s) d) k = TFS_DIR_ITEM_FREE"
    and lb: "dir_lookup (linux_contents (dev s)) (strncmp_filename_cmp b) (d # e # ds) = Some (e, j)"
    and fa: "ld.file_at s (d # e # ds) (get_item (linux_contents (dev s) d) i) ys old"
    and fb: "ld.file_at s (d # e # ds) (get_item (linux_contents (dev s) e) j) xs bs" and dis: "set xs \<inter> set ys = {}"
    and "usage_at (handles s) d i = 0"
  obtains s1 where "tfs_delete linux_platform a TFS_DIR_ITEM_FILE s = Some s1" "last_error s1 = TFS_ERR_OK" "ld.mounted s1"
    "ld.dir_ok s1 (d # ds)" "e \<notin> set (d # ds)" "handles s1 = handles s"
    "dir_find (linux_contents (dev s1)) (strncmp_filename_cmp b) (d # ds) = Some (get_item (linux_contents (dev s) e) j)"
    "ld.file_at s1 (d # ds) (get_item (linux_contents (dev s) e) j) xs bs"
proof (rule ld.delete_closed_file[OF assms(1-3) _ fa assms(10)])
  let ?C = "linux_contents (dev s)"
  have "chain ?C (current_dir_blk s) (d # e # ds)" using ok by (simp only: ld.dir_ok_def)
  then have "distinct (d # e # ds)" by (rule chain_distinct)
  then have ne: "e \<noteq> d" "e \<notin> set (d # ds)" by auto
  have i: "i < TFS_DIR_BLK_ITEMS" "item_type (?C d) i \<noteq> TFS_DIR_ITEM_FREE" using dir_lookup_SomeD[OF la] by simp_all
  have len: "length (?C d) = TFS_BLOCKSIZE" by (simp add: linux_contents_def)
  fix ds1 s1
  assume r: "tfs_delete linux_platform a TFS_DIR_ITEM_FILE s = Some s1" "last_error s1 = TFS_ERR_OK" "ld.mounted s1"
    "ld.removed s s1 (d # e # ds) ds1 (pf_filename_cmp linux_platform a) (get_item (?C d) i) (set ys)"
    "block_items (set_item_type (?C d) i TFS_DIR_ITEM_FREE) = [] \<longrightarrow> head_moved d (d # e # ds) ds1"
  have ds1: "ds1 = d # ds" using r(5) only_item_cleared[OF i(1) only len] by (simp add: head_moved_def)
  obtain A B where AB: "dir_items ?C (d # e # ds) = A @ get_item (?C d) i # B" "dir_items (linux_contents (dev s1)) ds1 = A @ B"
    "\<forall>x \<in> set A. \<not> strncmp_filename_cmp a (it_name x)" "strncmp_filename_cmp a (it_name (get_item (?C d) i))"
    using r(4) by (auto simp: ld.removed_def)
  have bd: "block_items (?C d) = [get_item (?C d) i]" by (rule only_item[OF i only])
  then have "A = []" using AB(1,3,4) by (cases A) auto
  with AB(1,2) bd have items: "dir_items (linux_contents (dev s1)) ds1 = dir_items ?C (e # ds)" by simp
  have "dir_find ?C (strncmp_filename_cmp b) (d # e # ds) = Some (get_item (?C e) j)"
    using lb by (simp add: dir_find_def slot_item_def)
  moreover have "dir_find ?C (strncmp_filename_cmp b) [d] = None" by (rule lookup_behind[OF lb ne(1)])
  ultimately have "dir_find (linux_contents (dev s1)) (strncmp_filename_cmp b) ds1 = Some (get_item (?C e) j)"
    unfolding dir_find_items items by (simp add: bd split: if_splits)
  moreover have "ld.dir_ok s1 ds1" "handles s1 = handles s" using r(4) fs_frameD[of s s1] by (auto simp: ld.removed_def)
  moreover have "ld.file_at s1 ds1 (get_item (?C e) j) xs bs" by (rule ld.file_kept_removed[OF fb r(4) dis])
  ultimately show thesis using r(1-3) ne(2) unfolding ds1 by (intro that)
qed (use la in simp_all)

text \<open>A file is opened while no handle is in use: only its slot is.\<close>

lemma open_only_handle:
  assumes "ld.mounted s" and "ld.dir_ok s ds" and "c_at b 0 \<noteq> 0"
    and lk: "dir_lookup (linux_contents (dev s)) (strncmp_filename_cmp b) ds = Some (e, j)"
    and f: "ld.file_at s ds (get_item (linux_contents (dev s) e) j) xs bs" and small: "length bs + 504 < 2 ^ 32"
    and len: "length (handles s) = TFS_MAX_FDS" and none: "\<forall>h \<in> set (handles s). usage_count h = 0"
  obtains s0 where "tfs_open linux_platform b s = Some (int 0, s0)" "ld.mounted s0" "linux_contents (dev s0) = linux_contents (dev s)"
    "drive_info s0 = drive_info s" "current_dir_blk s0 = current_dir_blk s" "valid_fd (int 0) s0" "usage_at (handles s0) e j > 0"
    "\<forall>d i. (d, i) \<noteq> (e, j) \<longrightarrow> usage_at (handles s0) d i = 0"
proof -
  let ?it = "get_item (linux_contents (dev s) e) j"
  have df: "dir_find (linux_contents (dev s)) (pf_filename_cmp linux_platform b) ds = Some ?it"
    using lk by (simp add: dir_find_def slot_item_def)
  have first: "handles s ! 0 \<in> set (handles s)" using len by simp
  then have room: "\<exists>h \<in> set (handles s). \<not> usage_count h > 0" using none by (intro bexI) auto
  have closed: "\<forall>h \<in> set (handles s). fh_key h = (d, Some i) \<longrightarrow> \<not> usage_count h > 0" for d i using none by simp
  obtain fd s0 d' i' where o: "tfs_open linux_platform b s = Some (int fd, s0)" "ld.mounted s0" "linux_contents (dev s0) = linux_contents (dev s)"
    "valid_fd (int fd) s0" "drive_info s0 = drive_info s" "current_dir_blk s0 = current_dir_blk s" "length (handles s0) = TFS_MAX_FDS"
    "find_fd (\<lambda>h. \<not> usage_count h > 0) (handles s) = Some fd" "\<forall>k. k \<noteq> fd \<longrightarrow> handles s0 ! k = handles s ! k"
    "dir_lookup (linux_contents (dev s)) (pf_filename_cmp linux_platform b) ds = Some (d', i')" "hnd fd s0 = opened d' i' ?it"
    by (rule ld.open_file_slot[OF assms(1-3) len df f small room closed]) (rule that)
  have z: "fd = 0" using find_fd_SomeD[OF o(8)] first none by (cases fd) auto
  then have fd: "fh_key (handles s0 ! 0) = (e, Some j)" "usage_count (handles s0 ! 0) > 0"
    using o(4,10,11) lk by (auto simp: valid_fd_def hnd_def fh_key_def word_gt_0)
  have others: "usage_count (handles s0 ! k) = 0" if "k \<noteq> 0" "k < TFS_MAX_FDS" for k
    using o(9) z that len none nth_mem[of k "handles s"] by simp
  then have "handles_ok (handles s0)" using o(7) by (auto simp: handles_ok_def)
  then have "usage_at (handles s0) e j > 0" using usage_at_live[of "handles s0" 0 e j] fd o(7) by simp
  moreover have "usage_at (handles s0) d i = 0" if "(d, i) \<noteq> (e, j)" for d i
    using others fd(1) that o(7) by (intro usage_at_none) (metis not_gr_zero option.inject prod.inject word_gt_0)
  ultimately show thesis using o(1-6) z by (intro that[of s0]) simp_all
qed

section \<open>A disk with a directory of two blocks\<close>

text \<open>Block 1 has the empty file \<open>a\<close>, block 2 the file \<open>b\<close> with one byte in block 3.\<close>

definition two_blocks :: "nat \<Rightarrow> block" where
  "two_blocks n =
     (if n = 0 then 15 # replicate 511 0xff
      else if n = 1 then fill_item 0 TFS_DIR_ITEM_FILE 0 0 demo_name (set_next (replicate 512 0) 2)
      else if n = 2 then fill_item 0 TFS_DIR_ITEM_FILE 3 1 demo_other (set_prev (replicate 512 0) 1)
      else replicate 512 0)"

definition two_dev :: linux_dev where
  "two_dev = demo_dev\<lparr>ld_data := (\<lambda>i. two_blocks (i div 512) ! (i mod 512))\<rparr>"

definition two_fs :: "linux_dev fs" where
  "two_fs = demo_fs\<lparr>dev := two_dev, bitmap_blk := 15 # replicate 511 0xff\<rparr>"

lemma two_contents: "linux_contents two_dev n = two_blocks (unat n)"
proof (rule nth_equalityI)
  have "length (two_blocks k) = 512" for k by (simp add: two_blocks_def)
  then show "length (linux_contents two_dev n) = length (two_blocks (unat n))" by (simp add: linux_contents_def)
  fix i assume "i < length (linux_contents two_dev n)"
  then show "linux_contents two_dev n ! i = two_blocks (unat n) ! i" by (simp add: linux_contents_def two_dev_def)
qed

lemma two_free: "0 < i \<Longrightarrow> i < TFS_DIR_BLK_ITEMS \<Longrightarrow> item_type (linux_contents two_dev 1) i = TFS_DIR_ITEM_FREE"
proof -
  assume "0 < i" "i < TFS_DIR_BLK_ITEMS"
  then have "it_type (get_item (two_blocks 1) i) = it_type (get_item (replicate 512 0) i)" by (simp add: two_blocks_def)
  then show ?thesis using \<open>i < TFS_DIR_BLK_ITEMS\<close> by (simp add: two_contents get_item_def)
qed

lemma two_items:
  "get_item (linux_contents two_dev 1) 0 = \<lparr>it_blk = 0, it_size = 0, it_type = TFS_DIR_ITEM_FILE, it_name = strncpy TFS_NAME_LEN demo_name\<rparr>"
  "get_item (linux_contents two_dev 2) 0 = \<lparr>it_blk = 3, it_size = 1, it_type = TFS_DIR_ITEM_FILE, it_name = strncpy TFS_NAME_LEN demo_other\<rparr>"
  by (simp_all add: two_contents two_blocks_def)

lemma two_used: "n < 8 \<Longrightarrow> blk_used (linux_contents two_dev) n \<longleftrightarrow> n < 4"
proof -
  assume n: "n < 8"
  then have u: "unat n < 8" by (simp add: word_less_nat_alt)
  have g: "GET_BITMAP_BLK n = 0" using u by (simp add: word_unat_eq_iff unat_get_bitmap)
  have "unat (n AND TFS_BITMAP_BLK_MASK) = unat n" using u by (simp add: unat_and_mask)
  then have "blk_used (linux_contents two_dev) n \<longleftrightarrow> bit (15 :: byte) (unat n)"
    using u by (simp add: blk_used_def g two_contents two_blocks_def bit_at_def)
  also have "\<dots> \<longleftrightarrow> unat n < 4"
  proof -
    have "unat n \<in> {0, 1, 2, 3, 4, 5, 6, 7}" using u by auto
    then show ?thesis by (auto simp: bit_numeral_rec bit_1_iff)
  qed
  finally show ?thesis by (simp add: word_less_nat_alt)
qed

lemma two_mounted: "ld.mounted two_fs"
proof (rule ld.mounted_ready)
  have "ld.io_ok two_fs"
    by (simp add: ld.io_ok_def linux_ok_def two_fs_def two_dev_def demo_dev_def demo_fs_def)
  moreover have "bitmap_ok (linux_contents two_dev) two_fs"
    using two_used demo_bitmap_only
    by (fastforce simp: two_fs_def bitmap_ok_def two_contents two_blocks_def GET_BITMAP_BLK_def is_bitmap_blk_def)
  ultimately show "ld.ready two_fs" by (simp add: ld.ready_def two_fs_def)
qed

lemma two_dir_ok: "ld.dir_ok two_fs [1, 2]"
  by (simp add: ld.dir_ok_def two_fs_def two_contents two_blocks_def owned_def two_used is_bitmap_iff)

lemma two_lookup:
  "dir_lookup (linux_contents two_dev) (strncmp_filename_cmp demo_name) [1, 2] = Some (1, 0)"
  "dir_lookup (linux_contents two_dev) (strncmp_filename_cmp demo_other) [1, 2] = Some (2, 0)"
proof -
  have up: "[0..<TFS_DIR_BLK_ITEMS] = 0 # [1..<TFS_DIR_BLK_ITEMS]" by (simp add: upt_conv_Cons)
  have m: "slot_match (linux_contents two_dev) (strncmp_filename_cmp demo_name) (1, 0)"
    "\<not> slot_match (linux_contents two_dev) (strncmp_filename_cmp demo_other) (1, 0)"
    "slot_match (linux_contents two_dev) (strncmp_filename_cmp demo_other) (2, 0)"
    using two_items by (simp_all add: slot_match_def slot_free_def get_item_def)
  have rest: "find (slot_match (linux_contents two_dev) cmp) (map (Pair 1) [1..<TFS_DIR_BLK_ITEMS]) = None" for cmp
    using two_free by (auto simp: find_None_iff slot_match_def slot_free_def)
  show "dir_lookup (linux_contents two_dev) (strncmp_filename_cmp demo_name) [1, 2] = Some (1, 0)"
    using m(1) by (simp add: dir_lookup_def find_append up del: upt_conv_Cons)
  show "dir_lookup (linux_contents two_dev) (strncmp_filename_cmp demo_other) [1, 2] = Some (2, 0)"
    using m(2,3) rest[of "strncmp_filename_cmp demo_other"] unfolding dir_lookup_def dir_slots_simps up
    by (simp add: find_append)
qed

lemma two_files:
  "ld.file_at two_fs [1, 2] (get_item (linux_contents two_dev 1) 0) [] []"
  "ld.file_at two_fs [1, 2] (get_item (linux_contents two_dev 2) 0) [3] [0]"
  unfolding two_items
  by (simp_all add: ld.file_at_def file_holds_def two_fs_def owned_def two_used is_bitmap_iff two_contents two_blocks_def data_bytes_def)

end
