(* ===== verification/Handle_Table.thy ===== *)
theory Handle_Table
  imports Open_Files Listing
begin

text \<open>
  The handle table under every call of the interface and every behaviour of the drive, faults
  included: which handles are in use, and on which item, changes only by \<open>tfs_open\<close>,
  \<open>tfs_close\<close> and \<open>tfs_init\<close>, and the invariant \<open>handles_ok\<close> holds in every state the
  interface can reach.
\<close>

definition keys :: "'d fs \<Rightarrow> (byte \<times> u32 \<times> nat option) list" where
  "keys s = map (\<lambda>h. (usage_count h, fh_key h)) (handles s)"

named_theorems keys_intros \<open>rules that follow a definition down to the state it returns\<close>

lemma keys_frame [simp]:
  "keys (set_error e s) = keys s" "keys (drive_select P s) = keys s" "keys (drive_deselect P s) = keys s"
  "keys (read_buf P n s) = keys s" "keys (read_bitmap P n s) = keys s" "keys (write_buf P n s) = keys s"
  "keys (write_bitmap P n s) = keys s" "keys (s\<lparr>blk_buf := b\<rparr>) = keys s" "keys (s\<lparr>bitmap_blk := b\<rparr>) = keys s"
  "keys (s\<lparr>loaded_bitmap_blk := n\<rparr>) = keys s" "keys (s\<lparr>loaded_dir_blk := n\<rparr>) = keys s"
  "keys (s\<lparr>current_dir_blk := n\<rparr>) = keys s" "keys (call_back ev s) = keys s" "keys (load_bitmap P n s) = keys s"
  "keys (s\<lparr>after_handles := h\<rparr>) = keys s" "keys (s\<lparr>after_bitmap := x\<rparr>) = keys s"
  by (simp_all add: keys_def load_bitmap_def Let_def write_bitmap_def)

lemma keys_mark_end [simp]: "keys (mark_end s) = keys s"
  by (simp add: mark_end_def Let_def)

lemma keys_free_block [simp]: "keys (free_block P n s) = keys s"
  by (simp add: free_block_def mark_unused_def Let_def)

lemma keys_mark_used: "mark_used P i m b s = (x, s') \<Longrightarrow> keys s' = keys s"
  by (auto simp: mark_used_def Let_def split: if_splits)

lemma keys_cleanup [simp]: "keys (write_dir_cleanup P s) = keys s"
  by (simp add: write_dir_cleanup_def cleanup_links_def Let_def)

text \<open>A handle whose position, size or first block changes.\<close>

lemma keys_upd_hnd:
  assumes "\<And>h. usage_count (f h) = usage_count h \<and> fh_key (f h) = fh_key h"
  shows "keys (upd_hnd fd f s) = keys s"
proof (cases "fd < length (handles s)")
  case True
  with assms show ?thesis by (simp add: keys_def upd_hnd_def map_update list_update_same_conv)
qed (simp add: keys_def upd_hnd_def list_update_beyond)

lemma keys_upd_fields [simp]:
  "keys (upd_hnd fd init_pos s) = keys s" "keys (upd_hnd fd (\<lambda>h. h\<lparr>first_blk := n\<rparr>) s) = keys s"
  "keys (upd_hnd fd (\<lambda>h. h\<lparr>curr_blk := n\<rparr>) s) = keys s" "keys (upd_hnd fd (\<lambda>h. h\<lparr>fh_size := n\<rparr>) s) = keys s"
  "keys (upd_hnd fd (\<lambda>h. h\<lparr>curr_pos := curr_pos h + n\<rparr>) s) = keys s"
  "keys (upd_hnd fd (\<lambda>h. h\<lparr>curr_blk := n, curr_pos := m\<rparr>) s) = keys s"
  "keys (upd_hnd fd (\<lambda>h. h\<lparr>curr_blk := n, curr_pos := curr_pos h - m\<rparr>) s) = keys s"
  "keys (upd_hnd fd (\<lambda>h. h\<lparr>curr_blk := n, curr_pos := curr_pos h + m\<rparr>) s) = keys s"
  by (simp_all add: keys_upd_hnd fh_key_def init_pos_def)

section \<open>The loops\<close>

lemmas run_simps = Let_def bind_eq_Some_conv

lemma alloc_loop_keys: "alloc_loop P start pos s = Some r \<Longrightarrow> keys (snd r) = keys s"
  by (erule alloc_loop.raw_induct[of "\<lambda>x r. keys (snd r) = keys (snd x)", rotated, unfolded snd_conv])
    (auto simp: run_simps dest: keys_mark_used split: option.splits prod.splits if_splits)

lemma alloc_keys: "alloc_block P s = Some (n, s') \<Longrightarrow> keys s' = keys s"
  using alloc_loop_keys[of P _ _ s "(n, s')"] by (auto simp: alloc_block_def split: if_splits)

lemma free_blocks_keys: "free_file_blocks P pos s = Some s' \<Longrightarrow> keys s' = keys s"
  by (erule free_file_blocks.raw_induct[of "\<lambda>x r. keys r = keys (snd x)", rotated, unfolded snd_conv])
    (auto simp: run_simps split: if_splits)

lemma find_loop_keys: "find_loop P name pos fr s = Some r \<Longrightarrow> keys (snd (snd r)) = keys s"
  by (erule find_loop.raw_induct[of "\<lambda>x r. keys (snd (snd r)) = keys (snd x)", rotated, unfolded snd_conv])
    (auto simp: run_simps split: option.splits if_splits)

lemma write_loop_keys: "write_loop P pos data len s = Some s' \<Longrightarrow> keys s' = keys s"
  by (erule write_loop.raw_induct[of "\<lambda>x r. keys r = keys (snd x)", rotated, unfolded snd_conv])
    (auto simp: run_simps next_data_block_def dest!: alloc_keys split: if_splits)

lemma read_loop_keys: "read_loop P pos rem out s = Some r \<Longrightarrow> keys (snd r) = keys s"
  by (erule read_loop.raw_induct[of "\<lambda>x r. keys (snd r) = keys (snd x)", rotated, unfolded snd_conv])
    (auto simp: run_simps split: if_splits)

lemma format_loop_keys: "format_loop P m pos s = Some s' \<Longrightarrow> keys s' = keys s"
  by (erule format_loop.raw_induct[of "\<lambda>x r. keys r = keys (snd x)", rotated, unfolded snd_conv])
    (auto simp: run_simps split: if_splits)

lemma used_loop_keys: "used_loop P pos used s = Some r \<Longrightarrow> keys (snd r) = keys s"
  by (erule used_loop.raw_induct[of "\<lambda>x r. keys (snd r) = keys (snd x)", rotated, unfolded snd_conv])
    (auto simp: run_simps split: if_splits)

lemma read_dir_loop_keys: "read_dir_loop P h u pos s = Some r \<Longrightarrow> keys (snd r) = keys s"
  by (erule read_dir_loop.raw_induct[of "\<lambda>x r. keys (snd r) = keys (snd x)", rotated, unfolded snd_conv])
    (auto simp: run_simps split: if_splits)

lemma seek_backward_keys: "seek_backward P fd pos s = Some r \<Longrightarrow> keys (snd r) = keys s"
  by (erule seek_backward.raw_induct[of "\<lambda>x r. keys (snd r) = keys (snd x)", rotated, unfolded snd_conv])
    (auto simp: run_simps split: if_splits)

lemma seek_forward_keys: "seek_forward P fd pos lb lp s = Some r \<Longrightarrow> keys (snd (snd (snd r))) = keys s"
  by (erule seek_forward.raw_induct[of "\<lambda>x r. keys (snd (snd (snd r))) = keys (snd x)", rotated, unfolded snd_conv])
    (auto simp: run_simps split: if_splits)

lemma seek_append_keys: "seek_append P fd pos s = Some r \<Longrightarrow> keys (snd r) = keys s"
  by (erule seek_append.raw_induct[of "\<lambda>x r. keys (snd r) = keys (snd x)", rotated, unfolded snd_conv])
    (auto simp: run_simps dest!: alloc_keys split: if_splits)

lemma write_data_loop_keys: "write_data_loop P fd v s = Some r \<Longrightarrow> keys (snd (snd r)) = keys s"
  by (erule write_data_loop.raw_induct[of "\<lambda>x r. keys (snd (snd r)) = keys (snd x)", rotated, unfolded snd_conv])
    (auto simp: run_simps write_chunk_def dest!: alloc_keys split: if_splits)

lemma read_data_loop_keys: "read_data_loop P fd len os bl ret out s = Some r \<Longrightarrow> keys (snd (snd r)) = keys s"
  by (erule read_data_loop.raw_induct[of "\<lambda>x r. keys (snd (snd r)) = keys (snd x)", rotated, unfolded snd_conv])
    (auto simp: run_simps split: if_splits)

section \<open>The functions\<close>

text \<open>
  \<open>keeps I g m\<close>: if \<open>m\<close> has a result, the state in it, read by \<open>g\<close>, satisfies \<open>I\<close>.  The rules
  follow the structure of the definitions, and do not unfold their bindings; they serve every \<open>I\<close>.
\<close>

definition keeps :: "('d fs \<Rightarrow> bool) \<Rightarrow> ('a \<Rightarrow> 'd fs) \<Rightarrow> 'a option \<Rightarrow> bool" where
  "keeps I g m \<longleftrightarrow> (\<forall>r. m = Some r \<longrightarrow> I (g r))"

lemma keeps_Some [keys_intros]: "I (g r) \<Longrightarrow> keeps I g (Some r)"
  by (simp add: keeps_def)

lemma keeps_if [keys_intros]: "keeps I g x \<Longrightarrow> keeps I g y \<Longrightarrow> keeps I g (if b then x else y)"
  by simp

lemma keeps_let_state [keys_intros]: "I e \<Longrightarrow> (\<And>s. I s \<Longrightarrow> keeps I g (b s)) \<Longrightarrow> keeps I g (let s = e in b s)"
  by (simp add: Let_def)

lemma keeps_let [keys_intros]: "(\<And>x. keeps I g (b x)) \<Longrightarrow> keeps I g (let x = e in b x)"
  by (simp add: Let_def)

lemma keeps_bind [keys_intros]: "keeps I id m \<Longrightarrow> (\<And>s. I s \<Longrightarrow> keeps I g (f s)) \<Longrightarrow> keeps I g (m \<bind> f)"
  by (cases m) (auto simp: keeps_def)

lemma keeps_bind2 [keys_intros]:
  "keeps I snd m \<Longrightarrow> (\<And>a s. I s \<Longrightarrow> keeps I g (f a s)) \<Longrightarrow> keeps I g (m \<bind> (\<lambda>(a, s). f a s))"
  by (cases m) (auto simp: keeps_def)

lemma keeps_bind3 [keys_intros]:
  "keeps I (snd \<circ> snd) m \<Longrightarrow> (\<And>a b s. I s \<Longrightarrow> keeps I g (f a b s)) \<Longrightarrow> keeps I g (m \<bind> (\<lambda>(a, b, s). f a b s))"
  by (cases m) (auto simp: keeps_def)

lemma keeps_bind4 [keys_intros]:
  "keeps I (snd \<circ> snd \<circ> snd) m \<Longrightarrow> (\<And>a b c s. I s \<Longrightarrow> keeps I g (f a b c s)) \<Longrightarrow>
   keeps I g (m \<bind> (\<lambda>(a, b, c, s). f a b c s))"
  by (cases m) (auto simp: keeps_def)

lemma keeps_bind_value [keys_intros]: "(\<And>x. keeps I g (f x)) \<Longrightarrow> keeps I g ((m :: nat option) \<bind> f)"
  by (cases m) (auto simp: keeps_def)

lemma keeps_option [keys_intros]: "keeps I g x \<Longrightarrow> (\<And>a. keeps I g (y a)) \<Longrightarrow> keeps I g (case m of None \<Rightarrow> x | Some a \<Rightarrow> y a)"
  by (cases m) auto

lemma keeps_prod [keys_intros]: "(\<And>a b. keeps I g (f a b)) \<Longrightarrow> keeps I g (case p of (a, b) \<Rightarrow> f a b)"
  by (cases p) auto

lemma keeps_find [keys_intros]:
  "keeps I g x \<Longrightarrow> (\<And>i. keeps I g (y i)) \<Longrightarrow> keeps I g z \<Longrightarrow>
   keeps I g (case r of FindError \<Rightarrow> x | FindItem i \<Rightarrow> y i | FindNone \<Rightarrow> z)"
  by (cases r) auto

lemma keeps_exit [keys_intros]:
  "keeps I g x \<Longrightarrow> keeps I g y \<Longrightarrow> keeps I g z \<Longrightarrow>
   keeps I g (case e of LoopDone \<Rightarrow> x | LoopOut \<Rightarrow> y | LoopReturn \<Rightarrow> z)"
  by (cases e) auto

abbreviation keeps_keys :: "(byte \<times> u32 \<times> nat option) list \<Rightarrow> ('a \<Rightarrow> 'd fs) \<Rightarrow> 'a option \<Rightarrow> bool" where
  "keeps_keys k \<equiv> keeps (\<lambda>s. keys s = k)"

lemma keeps_loops [keys_intros]:
  "keys s = k \<Longrightarrow> keeps_keys k snd (alloc_block P s)" "keys s = k \<Longrightarrow> keeps_keys k id (free_file_blocks P pos s)"
  "keys s = k \<Longrightarrow> keeps_keys k (snd \<circ> snd) (find_loop P name pos fr s)" "keys s = k \<Longrightarrow> keeps_keys k id (write_loop P pos data n s)"
  "keys s = k \<Longrightarrow> keeps_keys k snd (read_loop P pos n out s)" "keys s = k \<Longrightarrow> keeps_keys k id (format_loop P m pos s)"
  "keys s = k \<Longrightarrow> keeps_keys k snd (used_loop P pos u s)" "keys s = k \<Longrightarrow> keeps_keys k snd (read_dir_loop P h w pos s)"
  "keys s = k \<Longrightarrow> keeps_keys k snd (seek_backward P fd pos s)" "keys s = k \<Longrightarrow> keeps_keys k (snd \<circ> snd \<circ> snd) (seek_forward P fd pos lb lp s)"
  "keys s = k \<Longrightarrow> keeps_keys k snd (seek_append P fd pos s)" "keys s = k \<Longrightarrow> keeps_keys k (snd \<circ> snd) (write_data_loop P fd v s)"
  "keys s = k \<Longrightarrow> keeps_keys k (snd \<circ> snd) (read_data_loop P fd len os bl ret out s)"
  by (auto simp: keeps_def alloc_keys free_blocks_keys find_loop_keys write_loop_keys read_loop_keys format_loop_keys used_loop_keys
      read_dir_loop_keys seek_backward_keys seek_forward_keys seek_append_keys write_data_loop_keys read_data_loop_keys)

lemma keeps_find_file [keys_intros]: "keys s = k \<Longrightarrow> keeps_keys k snd (find_file P name want s)"
  unfolding find_file_def new_dir_block_def by (rule keys_intros | simp)+

lemma keeps_seek [keys_intros]: "keys s = k \<Longrightarrow> keeps_keys k snd (seek P fd pos app s)"
  unfolding seek_def by (rule keys_intros | simp)+

lemma keeps_store_file [keys_intros]: "keys s = k \<Longrightarrow> keeps_keys k id (store_file P i name data len s)"
  unfolding store_file_def store_item_def by (rule keys_intros | simp)+

lemma keeps_update_dir_item [keys_intros]: "keys s = k \<Longrightarrow> keeps_keys k id (update_dir_item P fd s)"
  unfolding update_dir_item_def by (rule keys_intros | simp)+

lemma keeps_api_void:
  "(\<And>t. keys t = k \<Longrightarrow> keeps_keys k id (body t)) \<Longrightarrow> keys s = k \<Longrightarrow> keeps_keys k id (api_void P body s)"
  unfolding api_void_def by (rule keys_intros | simp)+

lemma keeps_api_call:
  "(\<And>t. keys t = k \<Longrightarrow> keeps_keys k snd (body t)) \<Longrightarrow> keys s = k \<Longrightarrow> keeps_keys k snd (api_call P r0 body s)"
  unfolding api_call_def by (rule keys_intros | simp)+

lemmas api_defs = tfs_format_def format_root_def tfs_get_used_def tfs_read_dir_def tfs_change_dir_parent_def change_dir_parent_body_def
  tfs_change_dir_def change_dir_body_def tfs_create_dir_def create_dir_body_def tfs_write_file_def write_file_body_def
  tfs_read_file_def read_file_body_def tfs_delete_def delete_body_def tfs_rename_def rename_body_def tfs_stat_def
  tfs_touch_def touch_body_def tfs_trunc_def trunc_body_def trunc_tail_def tfs_write_def write_update_def tfs_read_def

lemma keeps_api:
  "keeps_keys (keys s) id (tfs_format P s)" "keeps_keys (keys s) snd (tfs_get_used P s)" "keeps_keys (keys s) snd (tfs_read_dir P h u s)"
  "keeps_keys (keys s) id (tfs_change_dir_parent P s)" "keeps_keys (keys s) id (tfs_change_dir P name s)"
  "keeps_keys (keys s) id (tfs_create_dir P name s)" "keeps_keys (keys s) id (tfs_write_file P name data len ov s)"
  "keeps_keys (keys s) snd (tfs_read_file P name len s)" "keeps_keys (keys s) id (tfs_delete P name ty s)"
  "keeps_keys (keys s) id (tfs_rename P name other s)" "keeps_keys (keys s) snd (tfs_stat P name s)" "keeps_keys (keys s) id (tfs_touch P name s)"
  "keeps_keys (keys s) id (tfs_trunc P fd len s)" "keeps_keys (keys s) snd (tfs_write P fd data len os s)"
  "keeps_keys (keys s) snd (tfs_read P fd len os s)"
  unfolding api_defs by (rule keeps_api_void keeps_api_call keys_intros | simp)+

section \<open>tfs_open and tfs_init\<close>

lemma handles_ok_keys:
  assumes "keys s' = keys s"
  shows "handles_ok (handles s') = handles_ok (handles s)" "length (handles s') = length (handles s)"
proof -
  show l: "length (handles s') = length (handles s)" using arg_cong[OF assms, of length] by (simp add: keys_def)
  have "usage_count (handles s' ! i) = usage_count (handles s ! i) \<and> fh_key (handles s' ! i) = fh_key (handles s ! i)"
    if "i < length (handles s)" for i
    using arg_cong[OF assms, of "\<lambda>ks. ks ! i"] that l by (simp add: keys_def)
  then show "handles_ok (handles s') = handles_ok (handles s)" by (simp add: handles_ok_def l)
qed

lemma handles_ok_open:
  assumes ok: "handles_ok (handles s)" and k: "keys s1 = keys s"
  shows "find_fd (\<lambda>h. dir_blk h = d \<and> dir_item h = Some i \<and> usage_count h > 0) (handles s1) = Some fd \<Longrightarrow>
      s' = upd_hnd fd (\<lambda>h. h\<lparr>usage_count := usage_count h + 1\<rparr>) s1 \<Longrightarrow>
      handles_ok (handles s') \<and> length (handles s') = length (handles s)"
    and "find_fd (\<lambda>h. dir_blk h = d \<and> dir_item h = Some i \<and> usage_count h > 0) (handles s1) = None \<Longrightarrow>
      empty_fd s1 = Some fd \<Longrightarrow> fh_key h = (d, Some i) \<Longrightarrow> s' = store_hnd fd h s1 \<Longrightarrow>
      handles_ok (handles s') \<and> length (handles s') = length (handles s)"
proof -
  have ok1: "handles_ok (handles s1)" "length (handles s1) = length (handles s)"
    using handles_ok_keys[OF k] ok by simp_all
  show "find_fd (\<lambda>h. dir_blk h = d \<and> dir_item h = Some i \<and> usage_count h > 0) (handles s1) = Some fd \<Longrightarrow>
      s' = upd_hnd fd (\<lambda>h. h\<lparr>usage_count := usage_count h + 1\<rparr>) s1 \<Longrightarrow>
      handles_ok (handles s') \<and> length (handles s') = length (handles s)"
    using find_fd_SomeD[of _ "handles s1" fd] ok1 by (auto simp: upd_hnd_def fh_key_def intro!: handles_ok_count)
  assume n: "find_fd (\<lambda>h. dir_blk h = d \<and> dir_item h = Some i \<and> usage_count h > 0) (handles s1) = None"
    and e: "empty_fd s1 = Some fd" and h: "fh_key h = (d, Some i)" "s' = store_hnd fd h s1"
  show "handles_ok (handles s') \<and> length (handles s') = length (handles s)"
  proof (cases "find_fd (\<lambda>h. \<not> usage_count h > 0) (handles s1)")
    case (Some fd')
    then have fd: "fd' = fd" using e by (simp add: empty_fd_def)
    have "handles_ok ((handles s1)[fd := h])"
      by (rule handles_ok_new[OF ok1(1) Some[unfolded fd] h(1)])
        (use n in \<open>auto simp: find_fd_None fh_key_def dest: nth_mem\<close>)
    then show ?thesis using h(2) ok1 by (simp add: store_hnd_def)
  next
    case None
    then have "fd = length (handles s1)" using e by (simp add: empty_fd_def split: if_splits)
    then show ?thesis using h(2) ok1 by (simp add: store_hnd_def)
  qed
qed

lemma open_keeps_handles_ok:
  assumes r: "tfs_open P name s = Some (x, s')" and ok: "handles_ok (handles s)"
  shows "handles_ok (handles s') \<and> length (handles s') = length (handles s)"
proof (cases "last_error s = TFS_ERR_NO_DEV")
  case True
  with r ok show ?thesis by (simp add: tfs_open_def api_call_def)
next
  case False
  then obtain s2 where b: "open_body P name (drive_select P (set_error TFS_ERR_OK s)) = Some (x, s2)" and
    s': "s' = drive_deselect P s2"
    using r by (auto simp: tfs_open_def api_call_def bind_eq_Some_conv)
  then obtain item s1 where f: "find_file P name False (drive_select P (set_error TFS_ERR_OK s)) = Some (item, s1)"
    by (auto simp: open_body_def bind_eq_Some_conv)
  have k: "keys s1 = keys s" using keeps_find_file[of "drive_select P (set_error TFS_ERR_OK s)" "keys s" P name False] f
    by (simp add: keeps_def)
  have same: ?thesis if "handles s2 = handles s1" using that s' ok handles_ok_keys[OF k] by simp
  show ?thesis
  proof (cases "last_error s1 = TFS_ERR_OK \<and> (\<exists>i. item = Some i \<and> item_type (blk_buf s1) i = TFS_DIR_ITEM_FILE)")
    case False
    then have "handles s2 = handles s1" using b f by (auto simp: open_body_def split: if_splits option.splits)
    then show ?thesis by (rule same)
  next
    case True
    then obtain i where i: "item = Some i" "item_type (blk_buf s1) i = TFS_DIR_ITEM_FILE" by blast
    let ?Q = "\<lambda>h. dir_blk h = loaded_dir_blk s1 \<and> dir_item h = Some i \<and> usage_count h > 0"
    show ?thesis
    proof (cases "find_fd ?Q (handles s1)")
      case (Some fd)
      then have "s2 = upd_hnd fd (\<lambda>h. h\<lparr>usage_count := usage_count h + 1\<rparr>) s1"
        using b f True i by (simp add: open_body_def)
      with handles_ok_open(1)[OF ok k Some this] s' show ?thesis by simp
    next
      case n: None
      show ?thesis
      proof (cases "empty_fd s1")
        case None
        then have "handles s2 = handles s1" using b f True i n by (auto simp: open_body_def)
        then show ?thesis by (rule same)
      next
        case (Some fd)
        let ?h = "opened (loaded_dir_blk s1) i (get_item (blk_buf s1) i)"
        have "s2 = store_hnd fd ?h s1"
          using b f True i n Some by (simp add: open_body_def init_pos_def Let_def get_item_def)
        with handles_ok_open(2)[OF ok k n Some _ this] s' show ?thesis by (simp add: fh_key_def)
      qed
    qed
  qed
qed

lemma init_handles:
  "pf_extended_api P \<Longrightarrow> handles (tfs_init P s) = replicate TFS_MAX_FDS zero_handle"
  by (simp add: tfs_init_def Let_def load_bitmap_def)

section \<open>Runs of the interface\<close>

text \<open>
  One call of the interface.  \<open>environment\<close> lets the device change between two calls: a card is
  taken out, a sector goes bad; \<open>client_error\<close> is a front end that writes \<open>tfs_last_error\<close>, as all do.  The handler of \<open>read_dir\<close> decides from the items it has been given
  so far; \<open>read_dir_history\<close> below says that this stands for every handler.
\<close>

inductive api_step :: "'d platform \<Rightarrow> 'd fs \<Rightarrow> 'd fs \<Rightarrow> bool" for P where
  init: "api_step P s (tfs_init P s)"
| environment: "api_step P s (s\<lparr>dev := d\<rparr>)"
| client_error: "api_step P s (set_error e s)"
| format: "tfs_format P s = Some s' \<Longrightarrow> api_step P s s'"
| get_used: "tfs_get_used P s = Some (n, s') \<Longrightarrow> api_step P s s'"
| read_dir: "tfs_read_dir P (h :: dir_item list \<Rightarrow> dir_item \<Rightarrow> dir_item list \<times> bool) u s = Some (r, s') \<Longrightarrow> api_step P s s'"
| change_dir_root: "api_step P s (tfs_change_dir_root s)"
| change_dir_parent: "tfs_change_dir_parent P s = Some s' \<Longrightarrow> api_step P s s'"
| change_dir: "tfs_change_dir P name s = Some s' \<Longrightarrow> api_step P s s'"
| create_dir: "tfs_create_dir P name s = Some s' \<Longrightarrow> api_step P s s'"
| write_file: "tfs_write_file P name data len ov s = Some s' \<Longrightarrow> api_step P s s'"
| read_file: "tfs_read_file P name len s = Some (rf, s') \<Longrightarrow> api_step P s s'"
| delete: "tfs_delete P name ty s = Some s' \<Longrightarrow> api_step P s s'"
| rename: "tfs_rename P name other s = Some s' \<Longrightarrow> api_step P s s'"
| stat: "tfs_stat P name s = Some (i, s') \<Longrightarrow> api_step P s s'"
| touch: "tfs_touch P name s = Some s' \<Longrightarrow> api_step P s s'"
| open_fd: "tfs_open P name s = Some (x, s') \<Longrightarrow> api_step P s s'"
| close_fd: "api_step P s (tfs_close fd s)"
| trunc_fd: "tfs_trunc P fd len s = Some s' \<Longrightarrow> api_step P s s'"
| write_fd: "tfs_write P fd data len os s = Some (n, s') \<Longrightarrow> api_step P s s'"
| read_fd: "tfs_read P fd len os s = Some (rr, s') \<Longrightarrow> api_step P s s'"

text \<open>The user data after a list of items, and the handler that remembers the items instead.\<close>

definition replay :: "('u \<Rightarrow> dir_item \<Rightarrow> 'u \<times> bool) \<Rightarrow> 'u \<Rightarrow> dir_item list \<Rightarrow> 'u" where
  "replay h u its = foldl (\<lambda>v it. fst (h v it)) u its"

definition history :: "('u \<Rightarrow> dir_item \<Rightarrow> 'u \<times> bool) \<Rightarrow> 'u \<Rightarrow> dir_item list \<Rightarrow> dir_item \<Rightarrow> dir_item list \<times> bool" where
  "history h u its it = (its @ [it], snd (h (replay h u its) it))"

lemma replay_simps [simp]: "replay h u [] = u" "replay h u (its @ [it]) = fst (h (replay h u its) it)"
  by (simp_all add: replay_def)

lemma read_items_history:
  "read_items h b is (replay h u its) = (case read_items (history h u) b is its of (js, go) \<Rightarrow> (replay h u js, go))"
proof (induction "is" arbitrary: its)
  case (Cons i js)
  from Cons[of "its @ [get_item b i]"] show ?case by (simp add: Let_def history_def)
qed simp

lemma read_dir_loop_history:
  assumes "read_dir_loop P h (replay h u its) pos s = Some r"
  shows "\<exists>js. read_dir_loop P (history h u) its pos s = Some ((fst (fst r), js), snd r)"
proof -
  let ?Q = "\<lambda>((((P, h), w), pos), s) r. \<forall>its. w = replay h u its \<longrightarrow>
      (\<exists>js. read_dir_loop P (history h u) its pos s = Some ((fst (fst r), js), snd r))"
  have "?Q ((((P, h), replay h u its), pos), s) r"
  proof (rule read_dir_loop.raw_induct[OF _ assms, of ?Q], goal_cases)
    case (1 rec P h w pos s r)
    define s1 where "s1 = read_buf P pos s"
    have "\<exists>js. read_dir_loop P (history h u) its pos s = Some ((fst (fst r), js), snd r)" if w: "w = replay h u its" for its
    proof -
      obtain js go where i: "read_items (history h u) (blk_buf s1) [0..<TFS_DIR_BLK_ITEMS] its = (js, go)" by fastforce
      then have "read_items h (blk_buf s1) [0..<TFS_DIR_BLK_ITEMS] w = (replay h u js, go)" by (simp add: w read_items_history)
      moreover have "\<exists>ks. read_dir_loop P (history h u) js (blk_next (blk_buf s1)) s1 = Some ((fst (fst r), ks), snd r)"
        if "rec P h (replay h u js) (blk_next (blk_buf s1)) s1 = Some r" using 1(1)[OF that] by simp
      ultimately show ?thesis using 1(2) i unfolding read_dir_loop.simps[of P "history h u" its] Let_def
        by (auto simp flip: s1_def split: if_splits)
    qed
    then show ?case by simp
  qed
  then show ?thesis by simp
qed

lemma read_dir_history:
  assumes "tfs_read_dir P h u s = Some ((ok, v), s')"
  shows "\<exists>js. tfs_read_dir P (history h u) [] s = Some ((ok, js), s')"
proof (cases "last_error s = TFS_ERR_NO_DEV")
  case True
  with assms show ?thesis by (simp add: tfs_read_dir_def api_call_def)
next
  case False
  let ?s = "drive_select P (set_error TFS_ERR_OK s)"
  obtain s1 where s1: "read_dir_loop P h u (current_dir_blk s) ?s = Some ((ok, v), s1)" "s' = drive_deselect P s1"
    using assms False by (auto simp: tfs_read_dir_def api_call_def bind_eq_Some_conv)
  from read_dir_loop_history[of P h u "[]"] s1(1) obtain js where
    "read_dir_loop P (history h u) [] (current_dir_blk s) ?s = Some ((ok, js), s1)" by fastforce
  with False s1(2) show ?thesis by (simp add: tfs_read_dir_def api_call_def)
qed

inductive api_run :: "'d platform \<Rightarrow> 'd fs \<Rightarrow> 'd fs \<Rightarrow> bool" for P where
  start: "pf_extended_api P \<Longrightarrow> api_run P s (tfs_init P s)"
| call: "api_run P s t \<Longrightarrow> api_step P t u \<Longrightarrow> api_run P s u"

definition table_ok :: "'d fs \<Rightarrow> bool" where
  "table_ok s \<longleftrightarrow> handles_ok (handles s) \<and> length (handles s) = TFS_MAX_FDS"

lemma table_ok_keys: "keys s' = keys s \<Longrightarrow> table_ok s \<Longrightarrow> table_ok s'"
  using handles_ok_keys[of s' s] by (simp add: table_ok_def)

lemma keeps_table_ok: "keeps_keys (keys s) g m \<Longrightarrow> m = Some r \<Longrightarrow> table_ok s \<Longrightarrow> table_ok (g r)"
  using table_ok_keys[of "g r" s] by (simp add: keeps_def)

lemma table_ok_init: "pf_extended_api P \<Longrightarrow> table_ok (tfs_init P s)"
  by (simp add: table_ok_def init_handles handles_ok_none zero_handle_def)

lemma table_ok_step:
  assumes "api_step P s t" and "pf_extended_api P" and "table_ok s"
  shows "table_ok t"
  using assms(1)
proof cases
  case init
  with assms(2) show ?thesis by (simp add: table_ok_init)
next
  case (environment d)
  then have "keys t = keys s" by (simp add: keys_def)
  then show ?thesis using assms(3) by (rule table_ok_keys)
next
  case (client_error e)
  then have "keys t = keys s" by simp
  then show ?thesis using assms(3) by (rule table_ok_keys)
next
  case change_dir_root
  then have "keys t = keys s" by (simp add: tfs_change_dir_root_def)
  then show ?thesis using assms(3) by (rule table_ok_keys)
next
  case (open_fd name x)
  with assms(3) open_keeps_handles_ok show ?thesis unfolding table_ok_def by metis
next
  case (close_fd fd)
  have "handles_ok (handles s) \<and> length (handles s) = TFS_MAX_FDS" using assms(3) by (simp add: table_ok_def)
  then show ?thesis unfolding close_fd table_ok_def by (elim conjE) (intro conjI tfs_close_handles_ok)
qed (frule keeps_table_ok[OF keeps_api(1)] keeps_table_ok[OF keeps_api(2)] keeps_table_ok[OF keeps_api(3)]
    keeps_table_ok[OF keeps_api(4)] keeps_table_ok[OF keeps_api(5)] keeps_table_ok[OF keeps_api(6)]
    keeps_table_ok[OF keeps_api(7)] keeps_table_ok[OF keeps_api(8)] keeps_table_ok[OF keeps_api(9)]
    keeps_table_ok[OF keeps_api(10)] keeps_table_ok[OF keeps_api(11)] keeps_table_ok[OF keeps_api(12)]
    keeps_table_ok[OF keeps_api(13)] keeps_table_ok[OF keeps_api(14)] keeps_table_ok[OF keeps_api(15)];
    use assms(3) in simp)+

lemma table_ok_run: "api_run P s t \<Longrightarrow> pf_extended_api P \<Longrightarrow> table_ok t"
  by (induction rule: api_run.induct) (auto intro: table_ok_init table_ok_step)

lemma item_usage_count_live:
  assumes "table_ok s"
  shows "item_usage_count i s > 0 \<longleftrightarrow> (\<exists>h \<in> set (handles s). usage_count h > 0 \<and> fh_key h = (loaded_dir_blk s, Some i))"
proof
  assume "\<exists>h \<in> set (handles s). usage_count h > 0 \<and> fh_key h = (loaded_dir_blk s, Some i)"
  then obtain j where "j < length (handles s)" "usage_count (handles s ! j) > 0" "fh_key (handles s ! j) = (loaded_dir_blk s, Some i)"
    by (auto simp: in_set_conv_nth)
  with assms show "item_usage_count i s > 0"
    unfolding item_usage_count_at by (subst usage_at_live[of _ j]) (simp_all add: table_ok_def)
next
  assume p: "item_usage_count i s > 0"
  show "\<exists>h \<in> set (handles s). usage_count h > 0 \<and> fh_key h = (loaded_dir_blk s, Some i)"
  proof (rule ccontr)
    assume "\<not> ?thesis"
    then have "usage_at (handles s) (loaded_dir_blk s) i = 0" by (intro usage_at_none) (auto dest: nth_mem)
    with p show False by (simp add: item_usage_count_at)
  qed
qed

end
