(* ===== verification/Write_Specs.thy ===== *)
theory Write_Specs
  imports Handle_Specs
begin

text \<open>
  What \<open>tfs_write\<close> does on a working drive with enough free blocks: \<open>seek\<close> past the end of a file appends blocks of
  zeros, the data loop overwrites the blocks of the file and appends new ones, and \<open>update_dir_item\<close> stores the
  first block and the size in the directory.
\<close>

section \<open>Data in the middle of a file\<close>

lemma data_bytes_put_at:
  assumes "length b = TFS_BLOCKSIZE" and "os + length xs \<le> TFS_DATA_LEN"
  shows "data_bytes (put_data b os xs) = put_bytes (data_bytes b) os xs"
  using assms by (simp add: data_bytes_def put_data_def put_bytes_def min_def take_drop ac_simps)

lemma data_bytes_zeros [simp]: "length b = TFS_BLOCKSIZE \<Longrightarrow> data_bytes (mem_set b 8 0 TFS_DATA_LEN) = replicate TFS_DATA_LEN 0"
  by (simp add: data_bytes_def mem_set_def put_bytes_def)

lemma put_bytes_append_right: "off + length xs \<le> length b \<Longrightarrow> put_bytes (b @ c) off xs = put_bytes b off xs @ c"
  by (simp add: put_bytes_def)

lemma put_bytes_twice:
  "off + length xs + length ys \<le> length b \<Longrightarrow> put_bytes (put_bytes b off xs) (off + length xs) ys = put_bytes b off (xs @ ys)"
  by (simp add: put_bytes_def min_absorb2 ac_simps)

lemma put_bytes_Nil [simp]: "put_bytes b off [] = b"
  by (simp add: put_bytes_def)

lemma put_bytes_middle:
  "os + length bs \<le> length B \<Longrightarrow> put_bytes (A @ B @ C) (length A + os) bs = A @ put_bytes B os bs @ C"
  by (simp add: put_bytes_def)

lemma put_bytes_inside:
  assumes "a + n \<le> length D" and "os + length bs \<le> n"
  shows "put_bytes D (a + os) bs = take a D @ put_bytes (take n (drop a D)) os bs @ drop (a + n) D"
proof -
  have "D = take a D @ take n (drop a D) @ drop (a + n) D" by (simp add: take_add[symmetric] flip: append_assoc)
  moreover have "put_bytes (take a D @ take n (drop a D) @ drop (a + n) D) (length (take a D) + os) bs =
      take a D @ put_bytes (take n (drop a D)) os bs @ drop (a + n) D"
    by (rule put_bytes_middle) (use assms in simp)
  moreover have "length (take a D) = a" using assms(1) by simp
  ultimately show ?thesis by (simp only:)
qed

text \<open>One block of a chain is replaced by another that has the same links.\<close>

lemma chain_data_upd:
  assumes "distinct xs" and "k < length xs" and "\<And>x. length (data_bytes (C x)) = TFS_DATA_LEN"
  shows "chain_data (C(xs ! k := b)) xs = take (504 * k) (chain_data C xs) @ data_bytes b @ drop (504 * Suc k) (chain_data C xs)"
  using assms(1,2)
proof (induction xs arbitrary: k)
  case (Cons x xs)
  show ?case
  proof (cases k)
    case 0
    have "chain_data (C(x := b)) xs = chain_data C xs" by (rule chain_data_cong) (use Cons.prems(1) in auto)
    with 0 assms(3) show ?thesis by (simp del: fun_upd_apply add: fun_upd_same)
  next
    case (Suc j)
    then have "x \<noteq> xs ! j" using Cons.prems by auto
    with Suc Cons show ?thesis by (simp add: assms(3))
  qed
qed simp

lemma chain_data_snoc: "chain_data C (xs @ [x]) = chain_data C xs @ data_bytes (C x)"
  by (simp add: chain_data_def)

lemma chain_upd: "blk_next b = blk_next (C x) \<Longrightarrow> chain (C(x := b)) p xs = chain C p xs"
  by (rule chain_cong) simp

lemma back_links_upd: "blk_prev b = blk_prev (C x) \<Longrightarrow> back_links (C(x := b)) p xs = back_links C p xs"
  by (rule back_links_cong) simp

lemma chain_data_put:
  assumes "distinct xs" and "k < length xs" and "\<And>x. length (C x) = TFS_BLOCKSIZE" and "os + length bs \<le> TFS_DATA_LEN"
  shows "chain_data (C(xs ! k := put_data (C (xs ! k)) os bs)) xs = put_bytes (chain_data C xs) (504 * k + os) bs"
proof -
  let ?D = "chain_data C xs"
  have len: "length (data_bytes (C x)) = TFS_DATA_LEN" for x using assms(3) by (simp add: data_bytes_def)
  have "take 504 (drop (504 * k) ?D) = data_bytes (C (xs ! k))"
    using assms(2)
  proof (induction xs arbitrary: k)
    case (Cons x xs)
    then show ?case using len[of x] by (cases k) simp_all
  qed simp
  then have d: "data_bytes (C (xs ! k)) = take 504 (drop (504 * k) ?D)" ..
  have l: "504 * Suc k \<le> length ?D"
  proof -
    have "length ?D = 504 * length xs" using len by (induction xs) simp_all
    then show ?thesis using assms(2) by simp
  qed
  show ?thesis
    unfolding chain_data_upd[OF assms(1,2) len] data_bytes_put_at[OF assms(3,4)] d
    using put_bytes_inside[of "504 * k" 504 ?D os bs] l assms(4) by (simp add: add.commute)
qed

text \<open>The variables after a chunk of \<open>n\<close> bytes.\<close>

definition past_chunk :: "u32 \<Rightarrow> write_vars \<Rightarrow> write_vars" where
  "past_chunk n v = v\<lparr>wr_data := drop (unat n) (wr_data v), wr_len := wr_len v - n, wr_offset := wr_offset v + n,
     wr_ret := wr_ret v + n, wr_blk_len := n\<rparr>"

lemma past_chunk_simps [simp]:
  "wr_data (past_chunk n v) = drop (unat n) (wr_data v)" "wr_len (past_chunk n v) = wr_len v - n"
  "wr_offset (past_chunk n v) = wr_offset v + n" "wr_ret (past_chunk n v) = wr_ret v + n"
  "wr_append (past_chunk n v) = wr_append v" "wr_update_item (past_chunk n v) = wr_update_item v"
  by (simp_all add: past_chunk_def)

section \<open>A file being written\<close>

context block_device
begin

text \<open>The medium as it will be when the block buffer has been written to the handle's current block.\<close>

definition view :: "'d fs \<Rightarrow> nat \<Rightarrow> u32 \<Rightarrow> block" where
  "view s fd = (cont s)(curr_blk (hnd fd s) := blk_buf s)"

definition same_handle :: "'d fs \<Rightarrow> 'd fs \<Rightarrow> nat \<Rightarrow> bool" where
  "same_handle s0 s fd \<longleftrightarrow> fs_frame (upd_hnd fd (\<lambda>_. hnd fd s) s0) s \<and> usage_count (hnd fd s) = usage_count (hnd fd s0) \<and>
     dir_blk (hnd fd s) = dir_blk (hnd fd s0) \<and> dir_item (hnd fd s) = dir_item (hnd fd s0)"

text \<open>
  Since \<open>s0\<close> the file of handle \<open>fd\<close>, which had the blocks \<open>xs\<close>, has grown by free blocks to \<open>ys\<close>; with the buffer
  written it would hold \<open>D\<close>.  The handle is at the block with index \<open>k\<close>, and nothing else changed.
\<close>

definition writing :: "'d fs \<Rightarrow> 'd fs \<Rightarrow> nat \<Rightarrow> u32 list \<Rightarrow> u32 list \<Rightarrow> nat \<Rightarrow> byte list \<Rightarrow> bool" where
  "writing s0 s fd xs ys k D \<longleftrightarrow>
     ready s \<and> same_handle s0 s fd \<and> fd < length (handles s) \<and> at_block s fd ys k \<and> 504 * length ys < 2 ^ 32 \<and>
     chain (view s fd) (first_blk (hnd fd s)) ys \<and> back_links (view s fd) 0 ys \<and> chain_data (view s fd) ys = D \<and>
     owned (cont s) (blk_count s) ys \<and> (\<forall>x \<in> set xs. blk_used (cont s0) x) \<and>
     (\<exists>zs. ys = xs @ zs \<and> (\<forall>z \<in> set zs. \<not> blk_used (cont s0) z)) \<and>
     (\<forall>n. blk_used (cont s) n \<longleftrightarrow> blk_used (cont s0) n \<or> n \<in> set ys) \<and>
     (\<forall>n. \<not> is_bitmap_blk n \<longrightarrow> n \<notin> set ys \<longrightarrow> cont s n = cont s0 n)"

lemma writingD:
  assumes "writing s0 s fd xs ys k D"
  shows "ready s" "same_handle s0 s fd" "fd < length (handles s)" "at_block s fd ys k" "504 * length ys < 2 ^ 32"
    "chain (view s fd) (first_blk (hnd fd s)) ys" "back_links (view s fd) 0 ys" "chain_data (view s fd) ys = D"
    "owned (cont s) (blk_count s) ys" "\<forall>x \<in> set xs. blk_used (cont s0) x"
    "\<exists>zs. ys = xs @ zs \<and> (\<forall>z \<in> set zs. \<not> blk_used (cont s0) z)"
    "\<And>n. blk_used (cont s) n \<longleftrightarrow> blk_used (cont s0) n \<or> n \<in> set ys"
    "\<And>n. \<not> is_bitmap_blk n \<Longrightarrow> n \<notin> set ys \<Longrightarrow> cont s n = cont s0 n"
  using assms by (simp_all add: writing_def)

lemma same_handleD:
  assumes "same_handle s0 s fd"
  shows "drive_info s = drive_info s0" "length (handles s) = length (handles s0)" "current_dir_blk s = current_dir_blk s0"
    "usage_count (hnd fd s) = usage_count (hnd fd s0)" "dir_blk (hnd fd s) = dir_blk (hnd fd s0)" "dir_item (hnd fd s) = dir_item (hnd fd s0)"
    "\<And>j. j \<noteq> fd \<Longrightarrow> handles s ! j = handles s0 ! j"
  using assms by (auto simp: same_handle_def fs_frame_def upd_hnd_def)

lemma same_handle_step:
  assumes "same_handle s0 s fd" and "fs_frame (upd_hnd fd (\<lambda>_. hnd fd s') s) s'" and "usage_count (hnd fd s') = usage_count (hnd fd s)"
    and "dir_blk (hnd fd s') = dir_blk (hnd fd s)" and "dir_item (hnd fd s') = dir_item (hnd fd s)"
  shows "same_handle s0 s' fd"
proof -
  have f: "fs_frame (upd_hnd fd (\<lambda>_. hnd fd s) s0) s" using assms(1) by (simp add: same_handle_def)
  have "handles s = (handles s0)[fd := hnd fd s]" using fs_frameD(5)[OF f] by (simp add: upd_hnd_def)
  then have hs: "(handles s)[fd := x] = (handles s0)[fd := x]" for x by (metis list_update_overwrite)
  have "fs_frame (upd_hnd fd (\<lambda>_. hnd fd s') s0) s'"
    using f assms(2) hs[of "hnd fd s'"] by (simp add: fs_frame_def upd_hnd_def)
  with assms show ?thesis by (simp add: same_handle_def)
qed

lemma same_handle_moved:
  assumes "moved s0 s fd" and "fd < length (handles s)"
  shows "same_handle s0 s fd"
proof -
  obtain b p where f: "fs_frame (upd_hnd fd (\<lambda>h. h\<lparr>curr_blk := b, curr_pos := p\<rparr>) s0) s" using assms(1) by (auto simp: moved_def)
  have "fd < length (handles s0)" using movedD(4)[OF assms(1)] assms(2) by simp
  then have "hnd fd s = (hnd fd s0)\<lparr>curr_blk := b, curr_pos := p\<rparr>"
    using fs_frameD(5)[OF f] by (simp add: hnd_def upd_hnd_def)
  then show ?thesis using f by (simp add: same_handle_def upd_hnd_def hnd_def fs_frame_def)
qed

lemma at_block_pos: "at_block s fd ys k \<Longrightarrow> curr_blk (hnd fd s) = ys ! k" "at_block s fd ys k \<Longrightarrow> k < length ys"
  by (simp_all add: at_block_def)

lemma length_view [simp]: "ready s \<Longrightarrow> length (view s fd n) = TFS_BLOCKSIZE"
  by (simp add: view_def)

lemma length_chain_view: "ready s \<Longrightarrow> length (chain_data (view s fd) ys) = 504 * length ys"
  by (induction ys) (simp_all add: data_bytes_def)

lemma writing_start:
  assumes "moved s0 s fd" and "handle_on s fd xs" and "at_block s fd xs k" and "blk_buf s = cont s (xs ! k)"
    and "owned (cont s0) (blk_count s0) xs"
  shows "writing s0 s fd xs xs k (chain_data (cont s0) xs)" "view s fd = cont s"
proof -
  note m = movedD[OF assms(1)]
  show v: "view s fd = cont s" using assms(3,4) by (simp add: view_def at_block_def fun_upd_idem)
  have h: "fd < length (handles s)" using assms(2) by (simp add: handle_on_def)
  show "writing s0 s fd xs xs k (chain_data (cont s0) xs)"
    unfolding writing_def v using assms(2,3,5) m h same_handle_moved[OF assms(1) h] by (auto simp: handle_on_def owned_def)
qed

text \<open>There is a free block as long as the file has not grown by all of them.\<close>

lemma writing_room:
  assumes "writing s0 s fd xs ys k D" and "length ys < length xs + card (free_set (cont s0) (blk_count s0))"
  shows "free_set (cont s) (blk_count s) \<noteq> {}"
proof
  assume e: "free_set (cont s) (blk_count s) = {}"
  obtain zs where zs: "ys = xs @ zs" using writingD(11)[OF assms(1)] by blast
  have "blk_count s = blk_count s0" using same_handleD(1)[OF writingD(2)[OF assms(1)]] by simp
  then have "free_set (cont s0) (blk_count s0) \<subseteq> set zs"
    using e writingD(10,12)[OF assms(1)] zs by (auto simp: free_set_def)
  then have "card (free_set (cont s0) (blk_count s0)) \<le> length zs"
    by (meson List.finite_set card_length card_mono le_trans)
  with assms(2) zs show False by simp
qed

text \<open>The steps: bytes put into the buffer, the buffer saved, the size changed, the next block.\<close>

lemma writing_put:
  assumes "writing s0 s fd xs ys k D" and "os + length bs \<le> TFS_DATA_LEN"
  shows "writing s0 (s\<lparr>blk_buf := put_data (blk_buf s) os bs\<rparr>) fd xs ys k (put_bytes D (504 * k + os) bs)"
proof -
  note w = writingD[OF assms(1)]
  note a = at_block_pos[OF w(4)]
  let ?s = "s\<lparr>blk_buf := put_data (blk_buf s) os bs\<rparr>"
  have c: "view s fd (ys ! k) = blk_buf s" using a by (simp add: view_def)
  have v: "view ?s fd = (view s fd)(ys ! k := put_data (view s fd (ys ! k)) os bs)"
    using a c by (simp add: view_def)
  have len: "length (view s fd (ys ! k)) = TFS_BLOCKSIZE" using w(1) by simp
  have links: "blk_next (put_data (view s fd (ys ! k)) os bs) = blk_next (view s fd (ys ! k))"
    "blk_prev (put_data (view s fd (ys ! k)) os bs) = blk_prev (view s fd (ys ! k))"
    using len assms(2) by simp_all
  have "length (put_data (blk_buf s) os bs) = TFS_BLOCKSIZE" using w(1) assms(2) by simp
  moreover have "chain_data (view ?s fd) ys = put_bytes D (504 * k + os) bs"
    unfolding v w(8)[symmetric] by (rule chain_data_put[OF chain_distinct[OF w(6)] a(2) _ assms(2)]) (use w(1) in simp)
  moreover have "same_handle s0 ?s fd" using w(2) by (simp add: same_handle_def)
  ultimately show ?thesis
    unfolding writing_def using w by (simp add: v chain_upd[where C = "view s fd", OF links(1)] back_links_upd[where C = "view s fd", OF links(2)] at_block_def)
qed

lemma writing_save:
  assumes "writing s0 s fd xs ys k D"
  defines "s' \<equiv> write_buf P (curr_blk (hnd fd s)) s"
  shows "writing s0 s' fd xs ys k D" "cont s' = view s fd" "blk_buf s' = blk_buf s" "last_error s' = TFS_ERR_OK" "hnd fd s' = hnd fd s"
proof -
  note w = writingD[OF assms(1)]
  note a = at_block_pos[OF w(4)]
  have b: "ys ! k < blk_count s" "\<not> is_bitmap_blk (ys ! k)" "ys ! k \<in> set ys" using w(9) a(2) by (simp_all add: owned_def)
  show c: "cont s' = view s fd" and bb: "blk_buf s' = blk_buf s" and e: "last_error s' = TFS_ERR_OK"
    using w(1) b a by (simp_all add: s'_def view_def)
  have r: "ready s'" using w(1) b a by (simp add: s'_def)
  have fr: "fs_frame s s'" by (simp add: s'_def)
  show h: "hnd fd s' = hnd fd s" using fs_frameD(5)[OF fr] by (simp add: hnd_def)
  have v: "view s' fd = view s fd" using c bb h by (simp add: view_def)
  have "same_handle s0 s' fd" using w(2) fs_frame_trans[OF _ fr] h by (simp add: same_handle_def)
  moreover have u: "blk_used (cont s') n = blk_used (cont s) n" for n
    using b(2) a(1) by (simp add: c view_def blk_used_upd)
  moreover have "owned (cont s') (blk_count s') ys" using w(9) u fs_frameD(1)[OF fr] by (simp add: owned_def)
  moreover have "cont s' n = cont s n" if "n \<notin> set ys" for n using that b(3) a(1) by (auto simp: c view_def)
  ultimately show "writing s0 s' fd xs ys k D"
    unfolding writing_def v using w r h fs_frameD(5)[OF fr] by (simp add: at_block_def)
qed

lemma writing_handle:
  assumes "\<And>h. curr_blk (f h) = curr_blk h \<and> curr_pos (f h) = curr_pos h \<and> first_blk (f h) = first_blk h \<and>
    usage_count (f h) = usage_count h \<and> dir_blk (f h) = dir_blk h \<and> dir_item (f h) = dir_item h"
    and "writing s0 s fd xs ys k D"
  shows "writing s0 (upd_hnd fd f s) fd xs ys k D" "view (upd_hnd fd f s) fd = view s fd"
proof -
  note w = writingD[OF assms(2)]
  have h: "hnd fd (upd_hnd fd f s) = f (hnd fd s)" using w(3) by simp
  show v: "view (upd_hnd fd f s) fd = view s fd" by (simp add: view_def h assms(1))
  have "same_handle s0 (upd_hnd fd f s) fd"
    by (rule same_handle_step[OF w(2)]) (use assms(1) h in \<open>simp_all add: fs_frame_def upd_hnd_def hnd_def\<close>)
  then show "writing s0 (upd_hnd fd f s) fd xs ys k D"
    unfolding writing_def v h using w assms(1) by (simp add: at_block_def h)
qed

lemma writing_next:
  assumes "writing s0 s fd xs ys k D" and "cont s = view s fd" and "Suc k < length ys"
  defines "s' \<equiv> upd_hnd fd (\<lambda>h. h\<lparr>curr_pos := curr_pos h + 504\<rparr>)
      (read_buf P (ys ! Suc k) (upd_hnd fd (\<lambda>h. h\<lparr>curr_blk := ys ! Suc k\<rparr>) s))"
  shows "writing s0 s' fd xs ys (Suc k) D" "blk_buf s' = cont s' (ys ! Suc k)" "fh_size (hnd fd s') = fh_size (hnd fd s)"
    "ready (upd_hnd fd (\<lambda>h. h\<lparr>curr_blk := ys ! Suc k\<rparr>) s)" "ys ! Suc k < blk_count s"
proof -
  note w = writingD[OF assms(1)]
  show b: "ys ! Suc k < blk_count s" using w(9) assms(3) by (simp add: owned_def)
  show "ready (upd_hnd fd (\<lambda>h. h\<lparr>curr_blk := ys ! Suc k\<rparr>) s)" using w(1) by simp
  have h: "hnd fd s' = (hnd fd s)\<lparr>curr_blk := ys ! Suc k, curr_pos := curr_pos (hnd fd s) + 504\<rparr>"
    using w(3) by (simp add: s'_def)
  have s': "ready s'" "cont s' = cont s" "blk_buf s' = cont s (ys ! Suc k)" "drive_info s' = drive_info s" "length (handles s') = length (handles s)"
    using w(1) b by (simp_all add: s'_def)
  then show "blk_buf s' = cont s' (ys ! Suc k)" by simp
  have "view s' fd = cont s" using s'(2,3) h by (simp add: view_def fun_upd_idem)
  then have v: "view s' fd = view s fd" by (simp only: assms(2))
  have f: "fs_frame (upd_hnd fd (\<lambda>_. hnd fd s') s) s'"
    unfolding h using w(3) by (simp add: s'_def fs_frame_def upd_hnd_def hnd_def)
  have "same_handle s0 s' fd" by (rule same_handle_step[OF w(2) f]) (simp_all add: h)
  moreover have "504 * Suc k < 504 * length ys" using assms(3) by simp
  then have "unat (curr_pos (hnd fd s) + 504) = 504 * Suc k"
    using w(4,5) by (simp add: at_block_def unat_word_ariths)
  ultimately show "writing s0 s' fd xs ys (Suc k) D"
    unfolding writing_def v using w s' assms(3) by (simp add: at_block_def h)
  show "fh_size (hnd fd s') = fh_size (hnd fd s)" by (simp add: h)
qed

text \<open>A new block behind the last one: allocated, linked, and the one before it saved.\<close>

lemma writing_extend:
  assumes w: "writing s0 s fd xs ys k D" and last: "Suc k = length ys" and "504 * Suc (length ys) < 2 ^ 32"
    and b: "ready s1" "bitmap_frame s s1" "b < blk_count s" "\<not> blk_used (cont s) b" "\<not> is_bitmap_blk b" "b \<noteq> 0"
      "\<And>n. \<not> is_bitmap_blk n \<Longrightarrow> cont s1 n = cont s n" "\<And>n. blk_used (cont s1) n \<longleftrightarrow> blk_used (cont s) n \<or> n = b"
    and s2: "s2 = write_buf P (ys ! k) (s1\<lparr>blk_buf := set_next (blk_buf s) b\<rparr>)"
    and nb: "length nb = TFS_BLOCKSIZE" "blk_prev nb = ys ! k" "blk_next nb = 0" "data_bytes nb = replicate 504 0"
    and f: "f (hnd fd s) = (hnd fd s)\<lparr>fh_size := z, curr_blk := b, curr_pos := curr_pos (hnd fd s) + 504\<rparr>"
  shows "writing s0 (upd_hnd fd f (s2\<lparr>blk_buf := nb\<rparr>)) fd xs (ys @ [b]) (Suc k) (D @ replicate 504 0)"
proof -
  let ?s = "upd_hnd fd f (s2\<lparr>blk_buf := nb\<rparr>)"
  note w = writingD[OF w]
  note a = at_block_pos[OF w(4)]
  have y: "ys ! k < blk_count s1" "\<not> is_bitmap_blk (ys ! k)" "ys ! k \<in> set ys"
    using w(9) a(2) bitmap_frameD[OF b(2)] by (simp_all add: owned_def)
  have ne: "ys ! k = last ys" "ys \<noteq> []" using last by (cases ys rule: rev_cases; auto simp: nth_append)+
  have bn: "b \<notin> set ys" using b(4) w(12) by blast
  have fr: "fs_frame s s2" using bitmap_fs_frame[OF b(2)] by (simp add: s2)
  have lb: "length (set_next (blk_buf s) b) = TFS_BLOCKSIZE" using w(1) by simp
  have c2: "ready s2" "cont s2 = (cont s1)(ys ! k := set_next (blk_buf s) b)" using b(1) y lb by (simp_all add: s2)
  have h: "hnd fd ?s = (hnd fd s)\<lparr>fh_size := z, curr_blk := b, curr_pos := curr_pos (hnd fd s) + 504\<rparr>"
    using w(3) fs_frameD(5)[OF fr] f by (simp add: hnd_def upd_hnd_def)
  have c: "ready ?s" "cont ?s = cont s2" "blk_count ?s = blk_count s" "length (handles ?s) = length (handles s)"
    using c2 nb(1) fs_frameD[OF fr] by simp_all
  have v: "view ?s fd = (cont s2)(b := nb)" by (simp add: view_def h)
  have old: "view ?s fd x = (if x = ys ! k then set_next (view s fd x) b else view s fd x)" if "x \<in> set ys" for x
  proof -
    have "x \<noteq> b" "\<not> is_bitmap_blk x" using that bn w(9) by (auto simp: owned_def)
    then show ?thesis using a(1) b(7) unfolding v c2(2) by (simp add: view_def)
  qed
  have lv: "length (view s fd x) = TFS_BLOCKSIZE" for x using w(1) by simp
  have "chain (view ?s fd) (first_blk (hnd fd ?s)) (ys @ [b])"
  proof (rule chain_snoc[OF _ ne(2) b(6) bn])
    show "chain (view s fd) (first_blk (hnd fd ?s)) ys" using w(6) h by simp
    show "blk_next (view ?s fd (last ys)) = b" using old[OF y(3)] ne lv by simp
    show "blk_next (view ?s fd b) = 0" using nb(3) by (simp add: v)
    fix x assume x: "x \<in> set (butlast ys)"
    then have "x \<noteq> ys ! k" using chain_distinct[OF w(6)] ne by (cases ys rule: rev_cases) auto
    then show "blk_next (view ?s fd x) = blk_next (view s fd x)" using old in_set_butlastD[OF x] by simp
  qed
  moreover have "back_links (view ?s fd) 0 (ys @ [b])"
    using w(7) old lv ne nb(2) back_links_cong[of ys "view ?s fd" "view s fd" 0] by (simp add: back_links_snoc v)
  moreover have "chain_data (view ?s fd) (ys @ [b]) = D @ replicate 504 0"
  proof -
    have "map (\<lambda>x. data_bytes (view ?s fd x)) ys = map (\<lambda>x. data_bytes (view s fd x)) ys"
      using old lv by (intro map_cong) simp_all
    then have "chain_data (view ?s fd) ys = D" using w(8) by (simp only: chain_data_def)
    moreover have "data_bytes (view ?s fd b) = replicate 504 0" using nb(4) by (simp add: v)
    ultimately show ?thesis by (simp only: chain_data_snoc)
  qed
  moreover have u: "blk_used (cont ?s) n \<longleftrightarrow> blk_used (cont s) n \<or> n = b" for n
    using b(8) y(2) c(2) by (simp add: c2(2) blk_used_upd)
  moreover have "owned (cont ?s) (blk_count ?s) (ys @ [b])" using w(9) u b(3,5) c(3) by (auto simp: owned_def)
  moreover have "cont ?s n = cont s n" if "\<not> is_bitmap_blk n" "n \<notin> set ys" for n
    using that b(7) y(3) c(2) c2(2) by auto
  moreover have "\<not> blk_used (cont s0) b" using b(4) w(12) by simp
  moreover have "fs_frame (upd_hnd fd (\<lambda>_. hnd fd ?s) s) ?s"
    unfolding h using fr f by (simp add: fs_frame_def upd_hnd_def hnd_def)
  then have "same_handle s0 ?s fd" by (rule same_handle_step[OF w(2)]) (simp_all add: h del: hnd_upd)
  moreover have "unat (curr_pos (hnd fd s) + 504) = 504 * Suc k"
    using w(4) last assms(3) by (simp add: at_block_def unat_word_ariths)
  then have "at_block ?s fd (ys @ [b]) (Suc k)" using last by (simp add: at_block_def h nth_append)
  ultimately show ?thesis
    unfolding writing_def using w(3,10-13) c assms(3) by auto
qed

text \<open>What the code makes of the buffer and the handle for the new block.\<close>

lemma next_mem_set: "length B = TFS_BLOCKSIZE \<Longrightarrow> blk_next (mem_set B 8 0 TFS_DATA_LEN) = blk_next B"
  by (simp add: blk_next_def get32_mem_set_other)

lemma next_buffer:
  fixes p :: u32
  assumes "length B = TFS_BLOCKSIZE"
  defines "nb \<equiv> set_next (set_prev (mem_set B 8 0 TFS_DATA_LEN) p) 0"
  shows "length nb = TFS_BLOCKSIZE" "blk_prev nb = p" "blk_next nb = 0" "data_bytes nb = replicate 504 0"
    "mem_set (set_next (set_prev B p) 0) 8 0 TFS_DATA_LEN = nb"
proof -
  show "length nb = TFS_BLOCKSIZE" "blk_prev nb = p" "blk_next nb = 0" "data_bytes nb = replicate 504 0"
    using assms(1) by (simp_all add: nb_def)
  show "mem_set (set_next (set_prev B p) 0) 8 0 TFS_DATA_LEN = nb"
    using assms(1) by (simp add: nb_def mem_set_def set_next_def set_prev_def put_bytes_def put32_def)
qed

lemma upd_hnd_upd_hnd: "upd_hnd fd f (upd_hnd fd g s) = upd_hnd fd (f \<circ> g) s"
  by (cases "fd < length (handles s)") (simp_all add: upd_hnd_def list_update_beyond)

lemma upd_hnd_buf: "(upd_hnd fd f s)\<lparr>blk_buf := b\<rparr> = upd_hnd fd f (s\<lparr>blk_buf := b\<rparr>)"
  by (simp add: upd_hnd_def)

lemma writing_alloc:
  assumes "writing s0 s fd xs ys k D" and "length ys < length xs + card (free_set (cont s0) (blk_count s0))"
  obtains b s1 where "alloc_block P s = Some (b, s1)" "ready s1" "bitmap_frame s s1"
    "b < blk_count s" "\<not> blk_used (cont s) b" "\<not> is_bitmap_blk b" "b \<noteq> 0"
    "\<And>n. \<not> is_bitmap_blk n \<Longrightarrow> cont s1 n = cont s n" "\<And>n. blk_used (cont s1) n \<longleftrightarrow> blk_used (cont s) n \<or> n = b"
  using writingD(1)[OF assms(1)]
proof (cases rule: alloc_ready)
  case (full s')
  with writing_room[OF assms] show thesis by simp
next
  case (ok b s1)
  show thesis by (rule that[OF ok])
qed

lemma seek_append_spec:
  assumes "writing s0 s fd xs ys k D" and "Suc k = length ys" and "k \<le> unat pos div 504" and "unat pos + 504 < 2 ^ 32"
    and "Suc (unat pos div 504) \<le> length xs + card (free_set (cont s0) (blk_count s0))"
  shows "\<exists>s' zs. seek_append P fd pos s = Some (SEEK_APPEND, s') \<and>
    writing s0 s' fd xs (ys @ zs) (unat pos div 504) (D @ replicate (504 * length zs) 0) \<and>
    length (ys @ zs) = Suc (unat pos div 504) \<and> fh_size (hnd fd s') = fh_size (hnd fd s)"
  using assms
proof (induction "unat pos div 504 - k" arbitrary: s ys k D)
  case 0
  note w = writingD[OF 0(2)]
  have k: "k = unat pos div 504" using 0 by simp
  then have "\<not> unat (curr_pos (hnd fd s)) + TFS_DATA_LEN \<le> unat pos"
    using w(4) dividend_less_times_div[of 504 "unat pos"] by (simp add: at_block_def)
  then have "seek_append P fd pos s = Some (SEEK_APPEND, s)" by (subst seek_append.simps) simp
  with 0(2,3) k show ?case by (intro exI[of _ s] exI[of _ "[]"]) simp
next
  case (Suc d)
  note w = writingD[OF Suc.prems(1)]
  note a = at_block_pos[OF w(4)]
  have kp: "Suc k \<le> unat pos div 504" using Suc.hyps(2) by simp
  then have far: "504 * Suc k \<le> unat pos" by (simp add: less_eq_div_iff_mult_less_eq)
  have "length ys < length xs + card (free_set (cont s0) (blk_count s0))" using kp Suc.prems(2,5) by simp
  note al = writing_alloc[OF Suc.prems(1) this]
  obtain b s1 where b: "alloc_block P s = Some (b, s1)" "ready s1" "bitmap_frame s s1"
    "b < blk_count s" "\<not> blk_used (cont s) b" "\<not> is_bitmap_blk b" "b \<noteq> 0"
    "\<And>n. \<not> is_bitmap_blk n \<Longrightarrow> cont s1 n = cont s n" "\<And>n. blk_used (cont s1) n \<longleftrightarrow> blk_used (cont s) n \<or> n = b"
    using al by blast
  let ?B = "set_next (blk_buf s) b"
  let ?s2 = "write_buf P (ys ! k) (s1\<lparr>blk_buf := ?B\<rparr>)"
  let ?nb = "set_next (set_prev (mem_set ?B 8 0 TFS_DATA_LEN) (ys ! k)) 0"
  define f :: "filehandle \<Rightarrow> filehandle" where "f = (\<lambda>h. h\<lparr>curr_pos := curr_pos h + 504\<rparr>) \<circ> (\<lambda>h. h\<lparr>curr_blk := b\<rparr>)"
  have lb: "length ?B = TFS_BLOCKSIZE" using w(1) by simp
  note nb = next_buffer[OF lb, of "ys ! k"]
  have fh: "f (hnd fd s) = (hnd fd s)\<lparr>fh_size := fh_size (hnd fd s), curr_blk := b, curr_pos := curr_pos (hnd fd s) + 504\<rparr>"
    by (simp add: f_def)
  have big: "504 * Suc (length ys) < 2 ^ 32" using far Suc.prems(2,4) by simp
  let ?s3 = "upd_hnd fd f (?s2\<lparr>blk_buf := ?nb\<rparr>)"
  have w3: "writing s0 ?s3 fd xs (ys @ [b]) (Suc k) (D @ replicate 504 0)"
    by (rule writing_extend[OF Suc.prems(1,2) big b(2-7) _ _ refl]) (rule b(8,9) nb(1-4) fh | assumption)+
  have s1: "blk_buf s1 = blk_buf s" "hnd fd s1 = hnd fd s" "handles s1 = handles s"
    using bitmap_frameD[OF b(3)] by (simp_all add: hnd_def)
  have yk: "ys ! k < blk_count s1" "\<not> is_bitmap_blk (ys ! k)"
    using w(9) a(2) bitmap_frameD[OF b(3)] by (simp_all add: owned_def)
  have s2: "last_error ?s2 = TFS_ERR_OK" "blk_buf ?s2 = ?B" using b(2) yk lb by simp_all
  have "hnd fd ?s2 = hnd fd s" using s1 by (simp add: hnd_def write_buf_def)
  then have step: "seek_append P fd pos s = seek_append P fd pos ?s3"
    using far a(1) w(1,3,4) b(1) s1 s2 lb
    by (subst seek_append.simps) (simp add: at_block_def Let_def upd_hnd_buf upd_hnd_upd_hnd f_def next_mem_set)
  have d: "d = unat pos div 504 - Suc k" and len: "Suc (Suc k) = length (ys @ [b])" using Suc.hyps(2) Suc.prems(2) by simp_all
  obtain s' zs where s': "seek_append P fd pos ?s3 = Some (SEEK_APPEND, s')"
    "writing s0 s' fd xs ((ys @ [b]) @ zs) (unat pos div 504) ((D @ replicate 504 0) @ replicate (504 * length zs) 0)"
    "length ((ys @ [b]) @ zs) = Suc (unat pos div 504)" "fh_size (hnd fd s') = fh_size (hnd fd ?s3)"
    using Suc.hyps(1)[OF d w3 len kp Suc.prems(4,5)] by blast
  have "fh_size (hnd fd ?s3) = fh_size (hnd fd s)" using w(3) s1 by (simp add: hnd_def upd_hnd_def f_def write_buf_def)
  with step s' show ?case by (intro exI[of _ s'] exI[of _ "b # zs"]) (simp add: replicate_add)
qed

lemma writing_first:
  assumes "ready s" and "handle_on s fd []" and b: "ready s1" "bitmap_frame s s1" "b < blk_count s" "\<not> blk_used (cont s) b" "\<not> is_bitmap_blk b"
      "b \<noteq> 0" "\<And>n. \<not> is_bitmap_blk n \<Longrightarrow> cont s1 n = cont s n" "\<And>n. blk_used (cont s1) n \<longleftrightarrow> blk_used (cont s) n \<or> n = b"
    and sh: "same_handle s0 s fd" "cont s = cont s0"
  defines "s' \<equiv> upd_hnd fd init_pos ((upd_hnd fd (\<lambda>h. h\<lparr>first_blk := b\<rparr>) s1)\<lparr>blk_buf := replicate TFS_BLOCKSIZE 0\<rparr>)"
  shows "writing s0 s' fd [] [b] 0 (replicate 504 0)" "fh_size (hnd fd s') = fh_size (hnd fd s)"
proof -
  note fr = bitmap_fs_frame[OF b(2)]
  have h: "hnd fd s' = (hnd fd s)\<lparr>first_blk := b, curr_blk := b, curr_pos := 0\<rparr>" and l: "fd < length (handles s)"
    using assms(2) fs_frameD(5)[OF fr] by (simp_all add: s'_def init_pos_def hnd_def upd_hnd_def handle_on_def)
  show "fh_size (hnd fd s') = fh_size (hnd fd s)" by (simp add: h)
  have c: "ready s'" "cont s' = cont s1" "drive_info s' = drive_info s" "blk_buf s' = replicate TFS_BLOCKSIZE 0"
    "length (handles s') = length (handles s)"
    using b(1) fs_frameD[OF fr] by (simp_all add: s'_def)
  have v: "view s' fd = (cont s1)(b := replicate TFS_BLOCKSIZE 0)" by (simp add: view_def h c)
  have "fs_frame (upd_hnd fd (\<lambda>_. hnd fd s') s) s'"
    unfolding h using fr l by (simp add: s'_def fs_frame_def upd_hnd_def hnd_def init_pos_def)
  then have "same_handle s0 s' fd" by (rule same_handle_step[OF sh(1)]) (simp_all add: h)
  moreover have "data_bytes (replicate TFS_BLOCKSIZE 0) = replicate 504 0" by (simp add: data_bytes_def)
  ultimately show "writing s0 s' fd [] [b] 0 (replicate 504 0)"
    unfolding writing_def v using c b(3-8) l sh(2) by (simp add: h at_block_def owned_def)
qed

lemma seek_append_end:
  assumes r: "ready s" and on: "handle_on s fd xs" and own: "owned (cont s) (blk_count s) xs"
    and t: "length xs \<le> unat pos div 504" and big: "unat pos + 504 < 2 ^ 32"
    and room: "Suc (unat pos div 504) \<le> length xs + card (free_set (cont s) (blk_count s))"
  shows "\<exists>s' zs. seek P fd pos True s = Some (SEEK_APPEND, s') \<and>
    writing s s' fd xs (xs @ zs) (unat pos div 504) (chain_data (cont s) xs @ replicate (504 * length zs) 0) \<and>
    length (xs @ zs) = Suc (unat pos div 504) \<and> fh_size (hnd fd s') = fh_size (hnd fd s)"
proof -
  define s0 where "s0 = (if pos = 0 \<or> curr_blk (hnd fd s) = 0 then upd_hnd fd init_pos s else s)"
  have s0: "ready s0" "moved s s0 fd" "handle_on s0 fd xs"
    using init_pos_moved[OF r on] assms by (simp_all add: s0_def)
  note m0 = movedD[OF s0(2)]
  have hl: "fd < length (handles s)" using on by (simp add: handle_on_def)
  show ?thesis
  proof (cases "xs = []")
    case True
    have z: "curr_blk (hnd fd s0) = 0" "first_blk (hnd fd s0) = 0"
      using True init_pos_moved(4)[OF r on] on s0(3) by (auto simp: s0_def handle_on_def)
    have ne: "free_set (cont s0) (blk_count s0) \<noteq> {}" using room True m0 by auto
    show ?thesis using s0(1)
    proof (cases rule: alloc_ready)
      case (full s')
      with ne show ?thesis by simp
    next
      case (ok b s1)
      let ?s3 = "upd_hnd fd init_pos ((upd_hnd fd (\<lambda>h. h\<lparr>first_blk := b\<rparr>) s1)\<lparr>blk_buf := replicate TFS_BLOCKSIZE 0\<rparr>)"
      have sh: "same_handle s s0 fd" by (rule same_handle_moved[OF s0(2)]) (use hl m0 in simp)
      note w = writing_first[OF s0(1) s0(3)[unfolded True] ok(2-9) sh m0(2)]
      have "seek P fd pos True s = seek_append P fd pos ?s3"
        using z ok(1) readyD(3)[OF ok(2)]
        by (simp add: seek_def s0_def[symmetric] Let_def seek_backward.simps[of P fd pos s0] seek_forward.simps[of P fd pos 0 0 s0])
      moreover obtain s' zs where s': "seek_append P fd pos ?s3 = Some (SEEK_APPEND, s')"
        "writing s s' fd [] ([b] @ zs) (unat pos div 504) (replicate 504 0 @ replicate (504 * length zs) 0)"
        "length ([b] @ zs) = Suc (unat pos div 504)" "fh_size (hnd fd s') = fh_size (hnd fd ?s3)"
        using seek_append_spec[OF w(1) _ _ big] room True by auto
      ultimately show ?thesis
        using True w(2) m0(6)[OF hl] by (intro exI[of _ s'] exI[of _ "b # zs"]) (simp add: replicate_add)
    qed
  next
    case False
    have "pos \<noteq> 0" using t False by auto
    have "\<exists>k. at_block s0 fd xs k"
    proof (cases "curr_blk (hnd fd s) = 0")
      case True
      have "at_block (upd_hnd fd init_pos s) fd xs 0" by (rule init_pos_moved(3)[OF r on False])
      with True show ?thesis by (auto simp: s0_def)
    next
      case nz: False
      with on \<open>pos \<noteq> 0\<close> show ?thesis by (auto simp: s0_def handle_on_def at_block_def)
    qed
    then obtain k where k: "at_block s0 fd xs k" ..
    obtain s1 where s1: "seek_backward P fd pos s0 = Some (True, s1)" "moved s0 s1 fd" "at_block s1 fd xs (min k (unat pos div 504))"
      using seek_backward_spec[OF s0(1,3) k] by blast
    have on1: "handle_on s1 fd xs" by (rule handle_on_moved[OF s0(3) s1(2)]) (use s1(3) in blast)
    note m1 = movedD[OF moved_trans[OF s0(2) s1(2)]]
    obtain lb lp s2 where s2: "seek_forward P fd pos 0 0 s1 = Some (True, lb, lp, s2)" "moved s1 s2 fd"
      "curr_blk (hnd fd s2) = 0" "lb = last xs" "unat lp = 504 * (length xs - 1)" "blk_buf s2 = cont s1 (last xs)"
      using seek_forward_spec[OF m1(1) on1 s1(3), of pos 0 0] t by auto
    have mv: "moved s s2 fd" by (rule moved_trans[OF moved_trans[OF s0(2) s1(2)] s2(2)])
    note m2 = movedD[OF mv]
    let ?s3 = "upd_hnd fd (\<lambda>h. h\<lparr>curr_blk := lb, curr_pos := lp\<rparr>) s2"
    have mv3: "moved s ?s3 fd" by (rule moved_trans[OF mv moved_upd[OF m2(1)]])
    have at3: "at_block ?s3 fd xs (length xs - 1)"
      using False s2(4,5) hl m2(4) by (simp add: at_block_def last_conv_nth)
    have on3: "handle_on ?s3 fd xs" by (rule handle_on_moved[OF on mv3]) (use at3 in blast)
    have bb: "blk_buf ?s3 = cont ?s3 (xs ! (length xs - 1))" using s2(6) False m1(2) m2(2) by (simp add: last_conv_nth)
    have "first_blk (hnd fd s2) \<noteq> 0"
      using False on m2(2,5) hl chain_nonzero by (cases xs) (auto simp: handle_on_def)
    then have "seek P fd pos True s = seek_append P fd pos ?s3"
      using s1(1) s2(1,3) by (simp add: seek_def s0_def[symmetric] Let_def)
    moreover obtain s' zs where s': "seek_append P fd pos ?s3 = Some (SEEK_APPEND, s')"
      "writing s s' fd xs (xs @ zs) (unat pos div 504) (chain_data (cont s) xs @ replicate (504 * length zs) 0)"
      "length (xs @ zs) = Suc (unat pos div 504)" "fh_size (hnd fd s') = fh_size (hnd fd ?s3)"
      using seek_append_spec[OF writing_start(1)[OF mv3 on3 at3 bb own] _ _ big] room False t by (auto simp: le_diff_conv)
    moreover have "fh_size (hnd fd ?s3) = fh_size (hnd fd s)" using m2 hl by simp
    ultimately show ?thesis by auto
  qed
qed

section \<open>The data loop of tfs_write\<close>

lemma writing_next_zero: "writing s0 s fd xs ys k D \<Longrightarrow> blk_next (blk_buf s) = (if Suc k < length ys then ys ! Suc k else 0)"
  using chain_nth_next[OF writingD(6)] at_block_pos[OF writingD(4)] by (fastforce simp: view_def)

lemma write_chunk_in:
  assumes w: "writing s0 s fd xs ys k D" and n: "n = (if wr_blk_len v > wr_len v then wr_len v else wr_blk_len v)"
    and os: "unat (wr_blk_os v) + unat n \<le> 504" and data: "unat n \<le> length (wr_data v)"
    and off: "unat (wr_offset v) = 504 * k + unat (wr_blk_os v)"
    and no: "wr_len v = n \<or> Suc k < length ys"
  obtains s1 where "write_chunk P fd v s = Some (past_chunk n v, s1)" "last_error s1 = TFS_ERR_OK" "cont s1 = view s1 fd"
    "writing s0 s1 fd xs ys k (put_bytes D (unat (wr_offset v)) (take (unat n) (wr_data v)))" "fh_size (hnd fd s1) = fh_size (hnd fd s)"
proof -
  let ?s = "s\<lparr>blk_buf := put_data (blk_buf s) (unat (wr_blk_os v)) (take (unat n) (wr_data v))\<rparr>"
  have "writing s0 ?s fd xs ys k (put_bytes D (504 * k + unat (wr_blk_os v)) (take (unat n) (wr_data v)))"
    by (rule writing_put[OF w]) (use os in simp)
  then have ws: "writing s0 ?s fd xs ys k (put_bytes D (unat (wr_offset v)) (take (unat n) (wr_data v)))" by (simp only: off)
  have "Suc k < length ys \<Longrightarrow> blk_next (blk_buf ?s) \<noteq> 0"
    using writing_next_zero[OF ws] chain_nonzero[OF writingD(6)[OF ws]] by simp
  then have na: "\<not> (wr_len v - n > 0 \<and> blk_next (blk_buf ?s) = 0)" using no by auto
  note sv = writing_save[OF ws]
  have vw: "view (write_buf P (curr_blk (hnd fd ?s)) ?s) fd = view ?s fd"
    unfolding view_def[of "write_buf _ _ _"] sv(2,3,5) by (simp add: view_def)
  show thesis
  proof (rule that[OF _ sv(4) _ sv(1)])
    show "write_chunk P fd v s = Some (past_chunk n v, write_buf P (curr_blk (hnd fd ?s)) ?s)"
      using na by (auto simp: write_chunk_def n[symmetric] past_chunk_def Let_def)
    show "cont (write_buf P (curr_blk (hnd fd ?s)) ?s) = view (write_buf P (curr_blk (hnd fd ?s)) ?s) fd"
      by (simp only: sv(2) vw)
    show "fh_size (hnd fd (write_buf P (curr_blk (hnd fd ?s)) ?s)) = fh_size (hnd fd s)" by (simp only: sv(5)) simp
  qed
qed

text \<open>The last block is full and there is more: the new block, whatever the handle's size becomes.\<close>

lemma write_chunk_new:
  assumes w: "writing s0 s fd xs ys k D" and n: "n = (if wr_blk_len v > wr_len v then wr_len v else wr_blk_len v)"
    and os: "unat (wr_blk_os v) + unat n \<le> 504" and data: "unat n \<le> length (wr_data v)"
    and off: "unat (wr_offset v) = 504 * k + unat (wr_blk_os v)"
    and more: "wr_len v \<noteq> n" "Suc k = length ys" and big: "504 * Suc (length ys) < 2 ^ 32"
    and room: "length ys < length xs + card (free_set (cont s0) (blk_count s0))"
  obtains b B s1 where "write_chunk P fd v s = Some ((past_chunk n v)\<lparr>wr_append := True\<rparr>, s1)" "last_error s1 = TFS_ERR_OK"
    "blk_buf s1 = B" "blk_next B = b" "length B = TFS_BLOCKSIZE" "hnd fd s1 = hnd fd s" "fd < length (handles s1)"
    "\<forall>z. writing s0 (upd_hnd fd (\<lambda>h. h\<lparr>fh_size := z h, curr_blk := b, curr_pos := curr_pos h + 504\<rparr>)
        (s1\<lparr>blk_buf := mem_set (set_next (set_prev B (curr_blk (hnd fd s))) 0) 8 0 TFS_DATA_LEN\<rparr>)) fd xs (ys @ [b]) (Suc k)
      (put_bytes D (unat (wr_offset v)) (take (unat n) (wr_data v)) @ replicate 504 0)"
proof -
  let ?s = "s\<lparr>blk_buf := put_data (blk_buf s) (unat (wr_blk_os v)) (take (unat n) (wr_data v))\<rparr>"
  have "writing s0 ?s fd xs ys k (put_bytes D (504 * k + unat (wr_blk_os v)) (take (unat n) (wr_data v)))"
    by (rule writing_put[OF w]) (use os in simp)
  then have ws: "writing s0 ?s fd xs ys k (put_bytes D (unat (wr_offset v)) (take (unat n) (wr_data v)))" by (simp only: off)
  note d = writingD[OF ws]
  note a = at_block_pos[OF d(4)]
  have z: "blk_next (blk_buf ?s) = 0" using writing_next_zero[OF ws] more(2) by simp
  note al = writing_alloc[OF ws room]
  obtain b s1 where b: "alloc_block P ?s = Some (b, s1)" "ready s1" "bitmap_frame ?s s1"
    "b < blk_count ?s" "\<not> blk_used (cont ?s) b" "\<not> is_bitmap_blk b" "b \<noteq> 0"
    "\<And>n. \<not> is_bitmap_blk n \<Longrightarrow> cont s1 n = cont ?s n" "\<And>n. blk_used (cont s1) n \<longleftrightarrow> blk_used (cont ?s) n \<or> n = b"
    using al by blast
  let ?B = "set_next (blk_buf ?s) b"
  let ?s2 = "write_buf P (ys ! k) (s1\<lparr>blk_buf := ?B\<rparr>)"
  have l0: "length (blk_buf ?s) = TFS_BLOCKSIZE" using d(1) by (rule ready_lengths)
  then have lb: "length ?B = TFS_BLOCKSIZE" by simp
  note nb = next_buffer[OF lb, of "ys ! k"]
  have s1: "blk_buf s1 = blk_buf ?s" "hnd fd s1 = hnd fd s" "handles s1 = handles s"
    using bitmap_frameD[OF b(3)] by (simp_all add: hnd_def)
  have yk: "ys ! k < blk_count s1" "\<not> is_bitmap_blk (ys ! k)"
    using d(9) a(2) bitmap_frameD[OF b(3)] by (simp_all add: owned_def)
  have s2: "last_error ?s2 = TFS_ERR_OK" "blk_buf ?s2 = ?B" using b(2) yk lb by simp_all
  have h2: "hnd fd ?s2 = hnd fd s" using s1 by (simp add: hnd_def write_buf_def)
  have c: "curr_blk (hnd fd s) = ys ! k" using a(1) by simp
  show thesis
  proof (rule that[of ?s2 ?B b])
    have "wr_len v - n > 0" using more(1) by (simp add: word_gt_0)
    then show "write_chunk P fd v s = Some ((past_chunk n v)\<lparr>wr_append := True\<rparr>, ?s2)"
      using z b(1) c s1 h2 by (simp add: write_chunk_def n[symmetric] past_chunk_def Let_def)
    show "blk_next ?B = b" using l0 by simp
    show "fd < length (handles ?s2)" using d(3) s1 by (simp add: write_buf_def)
    show "\<forall>zf. writing s0 (upd_hnd fd (\<lambda>h. h\<lparr>fh_size := zf h, curr_blk := b, curr_pos := curr_pos h + 504\<rparr>)
        (?s2\<lparr>blk_buf := mem_set (set_next (set_prev ?B (curr_blk (hnd fd s))) 0) 8 0 TFS_DATA_LEN\<rparr>)) fd xs
        (ys @ [b]) (Suc k) (put_bytes D (unat (wr_offset v)) (take (unat n) (wr_data v)) @ replicate 504 0)"
      unfolding c nb(5)
      by (intro allI, rule writing_extend[OF ws more(2) big b(2-7) _ _ _ nb(1-4)]) (rule b(8,9) | assumption | simp add: s1)+
  qed (use s2 h2 lb in simp_all)
qed

lemma grow_handle:
  assumes "fd < length (handles s)"
  shows "z > fh_size (hnd fd s) \<Longrightarrow> upd_hnd fd (\<lambda>h. h\<lparr>fh_size := max (fh_size h) z\<rparr>) s = upd_hnd fd (\<lambda>h. h\<lparr>fh_size := z\<rparr>) s"
    and "\<not> z > fh_size (hnd fd s) \<Longrightarrow> upd_hnd fd (\<lambda>h. h\<lparr>fh_size := max (fh_size h) z\<rparr>) s = s"
  using assms by (auto simp: upd_hnd_def hnd_def max_def list_update_same_conv)

text \<open>What the loop leaves: all the data in place, in as many blocks as it needs.\<close>

definition put_done :: "'d fs \<Rightarrow> nat \<Rightarrow> u32 list \<Rightarrow> u32 list \<Rightarrow> byte list \<Rightarrow> u32 \<Rightarrow> nat \<Rightarrow> byte list \<Rightarrow> 'd fs \<Rightarrow> bool" where
  "put_done s0 fd xs ys D sz off bs s' \<longleftrightarrow> (\<exists>zs k.
     writing s0 s' fd xs (ys @ zs) k (put_bytes (D @ replicate (504 * length zs) 0) off bs) \<and> cont s' = view s' fd \<and>
     length (ys @ zs) = max (length ys) (blocks_for (off + length bs)) \<and>
     fh_size (hnd fd s') = max sz (of_nat (off + length bs)))"

lemma put_done_after:
  assumes "put_done s0 fd xs (ys @ us) (put_bytes D off as @ replicate (504 * length us) 0) (max sz z) (off + length as) bs s'"
    and "z \<le> of_nat (off + length as + length bs)" and "length D = 504 * length ys" and "off + length as \<le> length D"
    and "length ys + length us \<le> max (length ys) (blocks_for (off + length (as @ bs)))"
  shows "put_done s0 fd xs ys D sz off (as @ bs) s'"
proof -
  obtain zs k where z: "writing s0 s' fd xs ((ys @ us) @ zs) k
      (put_bytes ((put_bytes D off as @ replicate (504 * length us) 0) @ replicate (504 * length zs) 0) (off + length as) bs)"
    "cont s' = view s' fd" "length ((ys @ us) @ zs) = max (length (ys @ us)) (blocks_for (off + length as + length bs))"
    "fh_size (hnd fd s') = max (max sz z) (of_nat (off + length as + length bs))"
    using assms(1) by (auto simp: put_done_def)
  let ?R = "replicate (504 * length (us @ zs)) 0 :: byte list"
  have "off + length as + length bs \<le> 504 * length ((ys @ us) @ zs)"
    unfolding z(3) using blocks_for_enough[of "off + length as + length bs"] by linarith
  then have "put_bytes (put_bytes (D @ ?R) off as) (off + length as) bs = put_bytes (D @ ?R) off (as @ bs)"
    using assms(3) by (intro put_bytes_twice) simp
  moreover have "(put_bytes D off as @ replicate (504 * length us) 0) @ replicate (504 * length zs) 0 = put_bytes (D @ ?R) off as"
    using put_bytes_append_right[OF assms(4), of ?R] by (simp add: replicate_add distrib_left)
  ultimately have "writing s0 s' fd xs (ys @ us @ zs) k (put_bytes (D @ ?R) off (as @ bs))" using z(1) by simp
  moreover have "length (ys @ us @ zs) = max (length ys) (blocks_for (off + length (as @ bs)))"
    using z(3) assms(5) by (simp add: add.assoc)
  moreover have "fh_size (hnd fd s') = max sz (of_nat (off + length (as @ bs)))"
    using z(4) assms(2) by (simp add: add.assoc max.assoc max_absorb2)
  ultimately show ?thesis unfolding put_done_def using z(2) by blast
qed

text \<open>The three ways through the body: the data ends, the next block is read, a new block is made.\<close>

definition loop_pre :: "'d fs \<Rightarrow> 'd fs \<Rightarrow> nat \<Rightarrow> u32 list \<Rightarrow> u32 list \<Rightarrow> nat \<Rightarrow> byte list \<Rightarrow> write_vars \<Rightarrow> bool" where
  "loop_pre s0 s fd xs ys k D v \<longleftrightarrow> writing s0 s fd xs ys k D \<and> unat (wr_blk_os v) < 504 \<and> wr_blk_len v = 504 - wr_blk_os v \<and>
     wr_len v \<noteq> 0 \<and> unat (wr_len v) \<le> length (wr_data v) \<and> unat (wr_offset v) = 504 * k + unat (wr_blk_os v) \<and>
     (wr_append v \<longrightarrow> Suc k = length ys) \<and> unat (wr_offset v) + unat (wr_len v) + 504 < 2 ^ 32 \<and>
     blocks_for (unat (wr_offset v) + unat (wr_len v)) \<le> length xs + card (free_set (cont s0) (blk_count s0))"

lemma write_data_step:
  assumes pre: "loop_pre s0 s fd xs ys k D v"
  defines "n \<equiv> (if wr_blk_len v > wr_len v then wr_len v else wr_blk_len v)"
  defines "D1 \<equiv> put_bytes D (unat (wr_offset v)) (take (unat n) (wr_data v))"
    and "sz1 \<equiv> max (fh_size (hnd fd s)) (wr_offset v + n)" and "upd \<equiv> wr_update_item v \<or> wr_offset v + n > fh_size (hnd fd s)"
  obtains (last) v1 s1 where "wr_len v = n" "write_data_loop P fd v s = Some (LoopDone, v1, s1)" "writing s0 s1 fd xs ys k D1"
      "cont s1 = view s1 fd" "fh_size (hnd fd s1) = sz1" "wr_ret v1 = wr_ret v + n" "wr_update_item v1 = upd"
  | (more) v1 s1 us where "wr_len v \<noteq> n" "write_data_loop P fd v s = write_data_loop P fd v1 s1"
      "writing s0 s1 fd xs (ys @ us) (Suc k) (D1 @ replicate (504 * length us) 0)"
      "us = [] \<or> Suc k = length ys \<and> length us = 1" "wr_append v1 \<Longrightarrow> Suc (Suc k) = length (ys @ us)" "fh_size (hnd fd s1) = sz1"
      "wr_blk_os v1 = 0" "wr_blk_len v1 = 504" "wr_data v1 = drop (unat n) (wr_data v)" "wr_len v1 = wr_len v - n"
      "wr_offset v1 = wr_offset v + n" "wr_ret v1 = wr_ret v + n" "wr_update_item v1 = upd"
proof -
  have p: "writing s0 s fd xs ys k D" "unat (wr_blk_os v) < 504" "wr_blk_len v = 504 - wr_blk_os v" "wr_len v \<noteq> 0"
    "unat (wr_len v) \<le> length (wr_data v)" "unat (wr_offset v) = 504 * k + unat (wr_blk_os v)" "wr_append v \<Longrightarrow> Suc k = length ys"
    "unat (wr_offset v) + unat (wr_len v) + 504 < 2 ^ 32"
    "blocks_for (unat (wr_offset v) + unat (wr_len v)) \<le> length xs + card (free_set (cont s0) (blk_count s0))"
    using pre unfolding loop_pre_def by blast+
  have bl: "unat (wr_blk_len v) = 504 - unat (wr_blk_os v)" using p(2) by (simp add: p(3) unat_sub word_le_nat_alt)
  have un: "unat n = min (unat (wr_len v)) (504 - unat (wr_blk_os v))"
    using bl by (auto simp: n_def word_less_nat_alt min_def)
  have os: "unat (wr_blk_os v) + unat n \<le> 504" and data: "unat n \<le> length (wr_data v)" using un p(2,5) by simp_all
  note nn = n_def[THEN meta_eq_to_obj_eq]
  note kl = at_block_pos(2)[OF writingD(4)[OF p(1)]]
  have in_place: thesis if "wr_len v = n \<or> Suc k < length ys"
  proof -
    note q = that
    obtain s1 where c: "write_chunk P fd v s = Some (past_chunk n v, s1)" "last_error s1 = TFS_ERR_OK" "cont s1 = view s1 fd"
      "writing s0 s1 fd xs ys k D1" "fh_size (hnd fd s1) = fh_size (hnd fd s)"
      unfolding D1_def by (rule write_chunk_in[OF p(1) nn os data p(6) q])
    let ?g = "upd_hnd fd (\<lambda>h. h\<lparr>fh_size := max (fh_size h) (wr_offset v + n)\<rparr>) s1"
    have l1: "fd < length (handles s1)" using writingD(3)[OF c(4)] .
    have g: "writing s0 ?g fd xs ys k D1" "view ?g fd = view s1 fd" using writing_handle[OF _ c(4)] by simp_all
    have sz: "fh_size (hnd fd ?g) = sz1" using l1 c(5) by (simp add: sz1_def)
    have cg: "cont ?g = view ?g fd" using c(3) g(2) by simp
    let ?v = "if wr_offset v + n > fh_size (hnd fd s) then (past_chunk n v)\<lparr>wr_update_item := True\<rparr> else past_chunk n v"
    have v: "wr_len ?v = wr_len v - n" "wr_append ?v = wr_append v" "wr_ret ?v = wr_ret v + n" "wr_update_item ?v = upd"
      "wr_data ?v = drop (unat n) (wr_data v)" "wr_offset ?v = wr_offset v + n"
      by (simp_all add: upd_def)
    note gh = grow_handle[OF l1, of "wr_offset v + n", unfolded c(5)]
    show thesis
    proof (cases "wr_len v = n")
      case True
      then have "write_data_loop P fd v s = Some (LoopDone, ?v, ?g)"
        using c(1,2,5) by (cases "fh_size (hnd fd s) < wr_offset v + n"; subst write_data_loop.simps; simp add: Let_def gh)
      from last[OF True this g(1) cg sz v(3,4)] show thesis .
    next
      case False
      then have k1: "Suc k < length ys" using q by simp
      have na: "\<not> wr_append v" using p(7) k1 by auto
      have nx: "blk_next (blk_buf ?g) = ys ! Suc k" using writing_next_zero[OF g(1)] k1 by simp
      note w = writing_next[OF g(1) cg k1]
      let ?t = "upd_hnd fd (\<lambda>h. h\<lparr>curr_pos := curr_pos h + 504\<rparr>)
        (read_buf P (ys ! Suc k) (upd_hnd fd (\<lambda>h. h\<lparr>curr_blk := ys ! Suc k\<rparr>) ?g))"
      have "last_error (read_buf P (ys ! Suc k) (upd_hnd fd (\<lambda>h. h\<lparr>curr_blk := ys ! Suc k\<rparr>) ?g)) = TFS_ERR_OK"
        using w(4,5) by simp
      then have "write_data_loop P fd v s = write_data_loop P fd (?v\<lparr>wr_blk_os := 0, wr_blk_len := 504\<rparr>) ?t"
        using False c(1,2,5) na nx l1
        by (cases "fh_size (hnd fd s) < wr_offset v + n"; subst write_data_loop.simps; simp add: Let_def gh)
      from more[OF False this, of "[]"] w(1,3) sz v na show thesis by simp
    qed
  qed
  show thesis
  proof (cases "wr_len v = n \<or> Suc k < length ys")
    case True
    then show thesis by (rule in_place)
  next
    case False
    then have m: "wr_len v \<noteq> n" "Suc k = length ys" using kl by simp_all
    have fit: "504 * Suc (length ys) < unat (wr_offset v) + unat (wr_len v) + 504"
      using m un p(2,6) by (auto simp: min_def word_unat_eq_iff m(2)[symmetric] split: if_splits)
    then have big: "504 * Suc (length ys) < 2 ^ 32" using p(8) by linarith
    have "Suc (length ys) \<le> blocks_for (unat (wr_offset v) + unat (wr_len v))"
      using fit by (simp add: less_eq_div_iff_mult_less_eq)
    then have room: "length ys < length xs + card (free_set (cont s0) (blk_count s0))" using p(9) by simp
    obtain b B s1 where c: "write_chunk P fd v s = Some ((past_chunk n v)\<lparr>wr_append := True\<rparr>, s1)" "last_error s1 = TFS_ERR_OK"
      "blk_buf s1 = B" "blk_next B = b" "length B = TFS_BLOCKSIZE" "hnd fd s1 = hnd fd s" "fd < length (handles s1)"
      "\<forall>z. writing s0 (upd_hnd fd (\<lambda>h. h\<lparr>fh_size := z h, curr_blk := b, curr_pos := curr_pos h + 504\<rparr>)
        (s1\<lparr>blk_buf := mem_set (set_next (set_prev B (curr_blk (hnd fd s))) 0) 8 0 TFS_DATA_LEN\<rparr>)) fd xs (ys @ [b]) (Suc k)
        (D1 @ replicate 504 0)"
      unfolding D1_def by (rule write_chunk_new[OF p(1) nn os data p(6) m big room])
    let ?v = "if wr_offset v + n > fh_size (hnd fd s) then (past_chunk n v)\<lparr>wr_append := True, wr_update_item := True\<rparr>
      else (past_chunk n v)\<lparr>wr_append := True\<rparr>"
    have v: "wr_len ?v = wr_len v - n" "wr_append ?v" "wr_ret ?v = wr_ret v + n" "wr_update_item ?v = upd"
      "wr_data ?v = drop (unat n) (wr_data v)" "wr_offset ?v = wr_offset v + n"
      by (simp_all add: upd_def)
    define z :: "filehandle \<Rightarrow> u32" where "z = (\<lambda>h. if fh_size (hnd fd s) < wr_offset v + n then wr_offset v + n else fh_size h)"
    have self: "h\<lparr>fh_size := fh_size h\<rparr> = h" for h :: filehandle by simp
    let ?t = "upd_hnd fd (\<lambda>h. h\<lparr>fh_size := z h, curr_blk := b, curr_pos := curr_pos h + 504\<rparr>)
        (s1\<lparr>blk_buf := mem_set (set_next (set_prev B (curr_blk (hnd fd s))) 0) 8 0 TFS_DATA_LEN\<rparr>)"
    note gh = grow_handle[OF c(7), of "wr_offset v + n", unfolded c(6)]
    have eq: "write_data_loop P fd v s = write_data_loop P fd (?v\<lparr>wr_blk_os := 0, wr_blk_len := 504\<rparr>) ?t"
      using m c(1-7) by (cases "fh_size (hnd fd s) < wr_offset v + n"; subst write_data_loop.simps;
          simp add: Let_def upd_hnd_buf upd_hnd_upd_hnd comp_def z_def self)
    have sz: "fh_size (hnd fd ?t) = sz1" using c(6,7) by (auto simp: sz1_def z_def max.absorb2 max.absorb1 not_less)
    have ww: "writing s0 ?t fd xs (ys @ [b]) (Suc k) (D1 @ replicate (504 * length [b]) 0)"
      using c(8)[rule_format, of z] by simp
    show thesis by (rule more[OF m(1) eq ww _ _ sz]) (use v m(2) in simp_all)
  qed
qed

lemma word_le_of_nat: "unat z \<le> m \<Longrightarrow> m < 2 ^ 32 \<Longrightarrow> z \<le> (of_nat m :: u32)"
  by (simp add: word_le_nat_alt unat_of_nat)

lemma write_data_loop_spec:
  assumes "loop_pre s0 s fd xs ys k D v"
  shows "\<exists>v' s'. write_data_loop P fd v s = Some (LoopDone, v', s') \<and>
    put_done s0 fd xs ys D (fh_size (hnd fd s)) (unat (wr_offset v)) (take (unat (wr_len v)) (wr_data v)) s' \<and>
    wr_ret v' = wr_ret v + wr_len v \<and> (wr_update_item v' \<longleftrightarrow> wr_update_item v \<or> wr_offset v + wr_len v > fh_size (hnd fd s))"
  using assms
proof (induction "unat (wr_len v)" arbitrary: s ys k D v rule: less_induct)
  case less
  let ?n = "if wr_blk_len v > wr_len v then wr_len v else wr_blk_len v"
  let ?off = "unat (wr_offset v)" and ?sz = "fh_size (hnd fd s)"
  have p: "writing s0 s fd xs ys k D" "unat (wr_blk_os v) < 504" "wr_blk_len v = 504 - wr_blk_os v" "wr_len v \<noteq> 0"
    "unat (wr_len v) \<le> length (wr_data v)" "?off = 504 * k + unat (wr_blk_os v)"
    "?off + unat (wr_len v) + 504 < 2 ^ 32"
    "blocks_for (?off + unat (wr_len v)) \<le> length xs + card (free_set (cont s0) (blk_count s0))"
    using less.prems unfolding loop_pre_def by blast+
  have bl: "unat (wr_blk_len v) = 504 - unat (wr_blk_os v)" using p(2) by (simp add: p(3) unat_sub word_le_nat_alt)
  have un: "unat ?n = min (unat (wr_len v)) (504 - unat (wr_blk_os v))"
    using bl by (auto simp: word_less_nat_alt min_def)
  have pos: "0 < unat (wr_len v)" using p(4) by (simp add: unat_gt_0)
  note kl = at_block_pos(2)[OF writingD(4)[OF p(1)]]
  have lD: "length D = 504 * length ys"
    using length_chain_view[OF writingD(1)[OF p(1)], of fd ys] writingD(8)[OF p(1)] by simp
  show ?case
  proof (cases rule: write_data_step[OF less.prems])
    case (1 v1 s1)
    have "?off + unat (wr_len v) \<le> 504 * Suc k" using 1(1) un p(2,6) by simp
    moreover have "504 * Suc k \<le> 504 * length ys" using kl by simp
    ultimately have "?off + unat (wr_len v) \<le> 504 * length ys" by (rule le_trans)
    then have "blocks_for (?off + unat (wr_len v)) \<le> length ys" by linarith
    then have "put_done s0 fd xs ys D ?sz ?off (take (unat (wr_len v)) (wr_data v)) s1"
      unfolding put_done_def using 1 p(5) by (intro exI[of _ "[]"] exI[of _ k]) simp
    with 1 show ?thesis by auto
  next
    case (2 v1 s1 us)
    have lt: "unat ?n < unat (wr_len v)" using 2(1) un by (auto simp: min_def word_unat_eq_iff split: if_splits)
    then have nn: "unat ?n = 504 - unat (wr_blk_os v)" using un by simp
    have len1: "unat (wr_len v1) = unat (wr_len v) - unat ?n" using lt by (simp add: 2(10) unat_sub word_le_nat_alt)
    have off1: "unat (wr_offset v1) = ?off + unat ?n"
      using p(7) lt by (simp add: 2(11) unat_word_ariths)
    have offk: "?off + unat ?n = 504 * Suc k" using nn p(2,6) by simp
    have pre1: "loop_pre s0 s1 fd xs (ys @ us) (Suc k)
        (put_bytes D ?off (take (unat ?n) (wr_data v)) @ replicate (504 * length us) 0) v1"
    proof -
      have "wr_len v1 \<noteq> 0" using len1 lt by auto
      moreover have "unat (wr_len v1) \<le> length (wr_data v1)" using p(5) by (simp add: 2(9) len1)
      moreover have "unat (wr_offset v1) + unat (wr_len v1) = ?off + unat (wr_len v)" using lt by (simp add: off1 len1)
      ultimately show ?thesis unfolding loop_pre_def using 2(3,5,7,8) p(7,8) off1 offk by simp
    qed
    have "unat (wr_len v1) < unat (wr_len v)" using len1 nn p(2) pos by simp
    then obtain v' s' where r: "write_data_loop P fd v1 s1 = Some (LoopDone, v', s')"
      "put_done s0 fd xs (ys @ us) (put_bytes D ?off (take (unat ?n) (wr_data v)) @ replicate (504 * length us) 0)
        (fh_size (hnd fd s1)) (unat (wr_offset v1)) (take (unat (wr_len v1)) (wr_data v1)) s'"
      "wr_ret v' = wr_ret v1 + wr_len v1" "wr_update_item v' \<longleftrightarrow> wr_update_item v1 \<or> wr_offset v1 + wr_len v1 > fh_size (hnd fd s1)"
      using less.hyps[OF _ pre1] by blast
    let ?as = "take (unat ?n) (wr_data v)" and ?bs = "take (unat (wr_len v1)) (wr_data v1)"
    have la: "length ?as = unat ?n" "length ?bs = unat (wr_len v1)" using p(5) lt len1 by (simp_all add: 2(9))
    have split: "?as @ ?bs = take (unat (wr_len v)) (wr_data v)"
      using lt take_add[of "unat ?n" "unat (wr_len v) - unat ?n" "wr_data v"] by (simp add: 2(9) len1)
    have "put_done s0 fd xs ys D ?sz ?off (?as @ ?bs) s'"
    proof (rule put_done_after)
      show "put_done s0 fd xs (ys @ us) (put_bytes D ?off ?as @ replicate (504 * length us) 0) (max ?sz (wr_offset v + ?n)) (?off + length ?as) ?bs s'"
        using r(2) unfolding 2(6) off1 la(1) .
      have "?off + length ?as + length ?bs < 2 ^ 32" using p(7) lt la len1 by linarith
      then show "wr_offset v + ?n \<le> of_nat (?off + length ?as + length ?bs)"
        by (intro word_le_of_nat) (use off1 la in \<open>simp_all add: 2(11)\<close>)
      show "?off + length ?as \<le> length D" using offk kl by (simp add: la lD)
      have "504 * Suc (Suc k) = ?off + unat ?n + 504" unfolding offk by simp
      then have "504 * Suc (Suc k) \<le> ?off + unat (wr_len v) + 503" using lt by linarith
      then have "Suc (Suc k) \<le> blocks_for (?off + unat (wr_len v))" by (simp only: less_eq_div_iff_mult_less_eq zero_less_numeral mult.commute)
      then show "length ys + length us \<le> max (length ys) (blocks_for (?off + length (?as @ ?bs)))"
        using 2(4) p(5) unfolding split by auto
    qed (rule lD)
    moreover have w: "wr_offset v1 + wr_len v1 = wr_offset v + wr_len v" by (simp add: 2(10,11))
    moreover have "unat (wr_offset v + wr_len v) = ?off + unat (wr_len v)" using p(7) by (simp add: unat_word_ariths)
    then have "wr_offset v + ?n < wr_offset v + wr_len v" using off1 lt by (simp add: 2(11) word_less_nat_alt)
    then have "wr_update_item v' \<longleftrightarrow> wr_update_item v \<or> wr_offset v + wr_len v > ?sz"
      unfolding r(4) w 2(6,13) by (auto simp: max_def)
    moreover have "wr_ret v' = wr_ret v + wr_len v" by (simp add: r(3) 2(10,12))
    ultimately show ?thesis using 2(2) r(1) split by auto
  qed
qed

section \<open>tfs_write\<close>

lemma update_dir_item_spec:
  assumes "ready s" and "dir_blk (hnd fd s) = d" and "dir_item (hnd fd s) = Some i" and "i < TFS_DIR_BLK_ITEMS"
    and "d < blk_count s" and "\<not> is_bitmap_blk d"
  obtains s' where "update_dir_item P fd s = Some s'" "ready s'" "fs_frame s s'" "hnd fd s' = hnd fd s"
    "cont s' = (cont s)(d := set_item_size (set_item_blk (cont s d) i (first_blk (hnd fd s))) i (fh_size (hnd fd s)))"
proof -
  let ?b = "set_item_size (set_item_blk (cont s d) i (first_blk (hnd fd s))) i (fh_size (hnd fd s))"
  let ?s = "write_buf P d ((read_buf P d s)\<lparr>blk_buf := ?b\<rparr>)"
  have rd: "ready (read_buf P d s)" "cont (read_buf P d s) = cont s" "blk_buf (read_buf P d s) = cont s d"
    "last_error (read_buf P d s) = TFS_ERR_OK"
    using assms(1,5) by simp_all
  have lb: "length ?b = TFS_BLOCKSIZE" using assms(4) by simp
  have "update_dir_item P fd s = Some ?s" using assms(2,3) rd by (simp add: update_dir_item_def Let_def)
  moreover have "hnd fd ?s = hnd fd s" by (simp add: hnd_def write_buf_def)
  ultimately show thesis using that[of ?s] rd lb assms(5,6) by simp
qed

text \<open>The directory entry of the handle, on its own block.\<close>

definition entry_on :: "'d fs \<Rightarrow> nat \<Rightarrow> u32 list \<Rightarrow> u32 \<Rightarrow> nat \<Rightarrow> bool" where
  "entry_on s fd xs d i \<longleftrightarrow> dir_blk (hnd fd s) = d \<and> dir_item (hnd fd s) = Some i \<and> i < TFS_DIR_BLK_ITEMS \<and>
     owned (cont s) (blk_count s) (d # xs) \<and> d \<notin> set xs \<and>
     item_blk (cont s d) i = first_blk (hnd fd s) \<and> item_size (cont s d) i = fh_size (hnd fd s)"

text \<open>The file of handle \<open>fd\<close> has changed from \<open>D\<close> in \<open>xs\<close> to \<open>D'\<close> in \<open>xs @ zs\<close>; all other blocks are as they were.\<close>

definition rewritten :: "'d fs \<Rightarrow> 'd fs \<Rightarrow> nat \<Rightarrow> u32 list \<Rightarrow> u32 list \<Rightarrow> u32 \<Rightarrow> nat \<Rightarrow> byte list \<Rightarrow> bool" where
  "rewritten s s' fd xs zs d i D' \<longleftrightarrow> same_handle s s' fd \<and> handle_on s' fd (xs @ zs) \<and> entry_on s' fd (xs @ zs) d i \<and>
     chain_data (cont s') (xs @ zs) = D' \<and> (\<forall>z \<in> set zs. \<not> blk_used (cont s) z) \<and>
     (\<forall>n. blk_used (cont s') n \<longleftrightarrow> blk_used (cont s) n \<or> n \<in> set zs) \<and>
     (\<forall>n. \<not> is_bitmap_blk n \<longrightarrow> n \<notin> set (d # xs @ zs) \<longrightarrow> cont s' n = cont s n) \<and>
     (\<forall>j. j < TFS_DIR_BLK_ITEMS \<longrightarrow> j \<noteq> i \<longrightarrow> get_item (cont s' d) j = get_item (cont s d) j) \<and>
     get_item (cont s' d) i = (get_item (cont s d) i)\<lparr>it_blk := first_blk (hnd fd s'), it_size := fh_size (hnd fd s')\<rparr> \<and>
     blk_next (cont s' d) = blk_next (cont s d) \<and> blk_prev (cont s' d) = blk_prev (cont s d)"

lemma writing_saved:
  assumes "writing s0 s fd xs ys k D" and "cont s = view s fd"
  shows "handle_on s fd ys" "chain_data (cont s) ys = D"
  using assms(1) unfolding writing_def handle_on_def assms(2)[symmetric] by (auto simp: at_block_def owned_def)

lemma first_of_chain: "chain C p xs \<Longrightarrow> p = (if xs = [] then 0 else hd xs)"
  by (cases xs) auto

lemma rewritten_saved:
  assumes w: "writing s s1 fd xs (xs @ zs) k D" and c: "cont s1 = view s1 fd" and e: "entry_on s fd xs d i"
    and upd: "upd \<or> zs = [] \<and> fh_size (hnd fd s1) = fh_size (hnd fd s) \<and> first_blk (hnd fd s1) = first_blk (hnd fd s)"
  obtains s2 where "(if upd then update_dir_item P fd s1 else Some s1) = Some s2" "ready s2" "rewritten s s2 fd xs zs d i D"
    "fh_size (hnd fd s2) = fh_size (hnd fd s1)"
proof -
  note w' = writingD[OF w]
  note sh = same_handleD[OF w'(2)]
  note sv = writing_saved[OF w c]
  have e': "dir_blk (hnd fd s1) = d" "dir_item (hnd fd s1) = Some i" "i < TFS_DIR_BLK_ITEMS" "d < blk_count s1" "\<not> is_bitmap_blk d"
    "blk_used (cont s) d" "d \<notin> set xs"
    using e sh by (simp_all add: entry_on_def owned_def)
  have dz: "d \<notin> set (xs @ zs)" using e'(6,7) w'(11) by auto
  have cd: "cont s1 d = cont s d" using w'(13)[OF e'(5) dz] .
  let ?b = "set_item_size (set_item_blk (cont s d) i (first_blk (hnd fd s1))) i (fh_size (hnd fd s1))"
  have zs: "\<forall>z \<in> set zs. \<not> blk_used (cont s) z" using w'(11) by auto
  have xu: "\<forall>x \<in> set xs. blk_used (cont s) x" by (rule w'(10))
  have fin: "rewritten s s2 fd xs zs d i D" if s2: "ready s2" "fs_frame s1 s2" "hnd fd s2 = hnd fd s1" "cont s2 = (cont s1)(d := b)"
    and b: "get_item b i = (get_item (cont s d) i)\<lparr>it_blk := first_blk (hnd fd s1), it_size := fh_size (hnd fd s1)\<rparr>" "blk_next b = blk_next (cont s d)"
      "blk_prev b = blk_prev (cont s d)" "\<forall>j < TFS_DIR_BLK_ITEMS. j \<noteq> i \<longrightarrow> get_item b j = get_item (cont s d) j"
    for s2 b
  proof -
    note f = fs_frameD[OF s2(2)]
    have same: "cont s2 x = cont s1 x" if "x \<in> set (xs @ zs)" for x using that dz s2(4) by auto
    have u: "blk_used (cont s2) n = blk_used (cont s1) n" for n using e'(5) by (simp add: s2(4) blk_used_upd)
    have "same_handle s s2 fd"
      using w'(2) fs_frame_trans[OF _ s2(2)] s2(3) by (simp add: same_handle_def)
    moreover have "handle_on s2 fd (xs @ zs)"
      using sv(1) f s2(3) same chain_cong[of "xs @ zs" "cont s2" "cont s1"] back_links_cong[of "xs @ zs" "cont s2" "cont s1"]
      by (simp add: handle_on_def)
    moreover have "chain_data (cont s2) (xs @ zs) = D" using sv(2) chain_data_cong[of "xs @ zs" "cont s2" "cont s1"] same by simp
    moreover have "entry_on s2 fd (xs @ zs) d i"
      using e' dz w'(9,12) b(1) s2(3,4) u f by (simp add: entry_on_def owned_def get_item_def)
    ultimately show ?thesis
      unfolding rewritten_def using zs u w'(12,13) xu s2(3,4) b by auto
  qed
  show thesis
  proof (cases upd)
    case True
    obtain s2 where s2: "update_dir_item P fd s1 = Some s2" "ready s2" "fs_frame s1 s2" "hnd fd s2 = hnd fd s1" "cont s2 = (cont s1)(d := ?b)"
      by (rule update_dir_item_spec[OF w'(1) e'(1-5)]) (simp add: cd)
    have "rewritten s s2 fd xs zs d i D"
      by (rule fin[OF s2(2-5)]) (use e'(3) in \<open>auto simp: get_item_def\<close>)
    with True s2 show thesis by (intro that[of s2]) simp_all
  next
    case False
    then have h: "zs = []" "fh_size (hnd fd s1) = fh_size (hnd fd s)" "first_blk (hnd fd s1) = first_blk (hnd fd s)" using upd by simp_all
    have "rewritten s s1 fd xs zs d i D"
      by (rule fin[OF w'(1), of "cont s d"]) (use h cd e in \<open>auto simp: entry_on_def\<close>)
    with False w'(1) show thesis by (intro that[of s1]) simp_all
  qed
qed

text \<open>\<open>seek\<close> with \<open>append\<close> set: the file as the data loop takes it over.\<close>

lemma seek_for_write:
  assumes "ready s" and "handle_on s fd xs" and "owned (cont s) (blk_count s) xs" and "unat pos + 504 < 2 ^ 32"
    and "Suc (unat pos div 504) \<le> length xs + card (free_set (cont s) (blk_count s))"
  obtains r s1 us where "seek P fd pos True s = Some (r, s1)"
    "writing s s1 fd xs (xs @ us) (unat pos div 504) (chain_data (cont s) xs @ replicate (504 * length us) 0)"
    "fh_size (hnd fd s1) = fh_size (hnd fd s)" "length (xs @ us) = max (length xs) (Suc (unat pos div 504))"
    "r = (if unat pos div 504 < length xs then SEEK_OK else SEEK_APPEND)"
proof (cases "unat pos div 504 < length xs")
  case True
  then obtain s1 where s1: "seek P fd pos True s = Some (SEEK_OK, s1)" "moved s s1 fd" "handle_on s1 fd xs"
    "at_block s1 fd xs (unat pos div 504)" "blk_buf s1 = cont s (xs ! (unat pos div 504))"
    using seek_spec(1)[OF assms(1,2)] by blast
  have "blk_buf s1 = cont s1 (xs ! (unat pos div 504))" using s1(5) movedD(2)[OF s1(2)] by simp
  note w = writing_start(1)[OF s1(2-4) this assms(3)]
  have "fh_size (hnd fd s1) = fh_size (hnd fd s)" using movedD(6)[OF s1(2)] assms(2) by (simp add: handle_on_def)
  with True s1(1) w show thesis by (intro that[of SEEK_OK s1 "[]"]) simp_all
next
  case False
  then obtain s1 us where "seek P fd pos True s = Some (SEEK_APPEND, s1)"
    "writing s s1 fd xs (xs @ us) (unat pos div 504) (chain_data (cont s) xs @ replicate (504 * length us) 0)"
    "length (xs @ us) = Suc (unat pos div 504)" "fh_size (hnd fd s1) = fh_size (hnd fd s)"
    using seek_append_end[OF assms(1-3) _ assms(4,5)] by auto
  with False show thesis by (intro that[of SEEK_APPEND s1 us]) simp_all
qed

theorem tfs_write_spec:
  fixes len offset :: u32
  assumes m: "mounted s" and v: "valid_fd (int fd) s" and on: "handle_on s fd xs" and en: "entry_on s fd xs d i"
    and sz: "unat (fh_size (hnd fd s)) \<le> 504 * length xs" and len: "len \<noteq> 0" "unat len \<le> length data"
    and big: "unat offset + unat len + 504 < 2 ^ 32"
    and room: "blocks_for (unat offset + unat len) \<le> length xs + card (free_set (cont s) (blk_count s))"
  shows "\<exists>s' zs. tfs_write P (int fd) data len offset s = Some (len, drive_deselect P s') \<and> ready s' \<and>
    rewritten s s' fd xs zs d i
      (put_bytes (chain_data (cont s) xs @ replicate (504 * length zs) 0) (unat offset) (take (unat len) data)) \<and>
    length (xs @ zs) = max (length xs) (blocks_for (unat offset + unat len)) \<and>
    fh_size (hnd fd s') = max (fh_size (hnd fd s)) (offset + len)"
proof -
  note [simp] = assms(1) mounted_select[OF assms(1)]
  let ?s = "entered s" and ?q = "unat offset div 504" and ?D = "chain_data (cont s) xs" and ?sz = "fh_size (hnd fd s)"
  have r: "ready ?s" and on0: "handle_on ?s fd xs" and c0: "cont ?s = cont s" using m on by (simp_all add: ready_entered)
  have dev: "last_error s \<noteq> TFS_ERR_NO_DEV" using m by (simp add: mounted_def)
  have v0: "valid_fd (int fd) ?s" using v by (simp add: valid_fd_def)
  have own: "owned (cont ?s) (blk_count ?s) xs" using en by (simp add: entry_on_def owned_def)
  have pos: "0 < unat len" using len(1) by (simp add: unat_gt_0)
  have "504 * q \<le> a \<Longrightarrow> 0 < b \<Longrightarrow> 504 * Suc q \<le> a + b + 503" for q a b :: nat by simp
  then have "504 * Suc ?q \<le> unat offset + unat len + 503" using pos times_div_less_eq_dividend by blast
  then have need: "Suc ?q \<le> blocks_for (unat offset + unat len)"
    by (simp only: less_eq_div_iff_mult_less_eq zero_less_numeral mult.commute)
  have rm: "Suc ?q \<le> length xs + card (free_set (cont ?s) (blk_count ?s))" using need room by simp
  have big0: "unat offset + 504 < 2 ^ 32" using big by linarith
  obtain k s1 us where s1: "seek P fd offset True ?s = Some (k, s1)"
    "writing ?s s1 fd xs (xs @ us) ?q (?D @ replicate (504 * length us) 0)"
    "fh_size (hnd fd s1) = ?sz" "length (xs @ us) = max (length xs) (Suc ?q)" "k = (if ?q < length xs then SEEK_OK else SEEK_APPEND)"
    using seek_for_write[OF r on0 own big0 rm] by auto
  note w1 = writingD[OF s1(2)]
  have ap: "k = SEEK_APPEND \<longleftrightarrow> us \<noteq> []" using s1(4,5) by (cases us) auto
  let ?os = "offset - curr_pos (hnd fd s1)"
  have cp: "unat (curr_pos (hnd fd s1)) = 504 * ?q" using w1(4) by (simp add: at_block_def)
  have os: "unat ?os = unat offset mod 504" using cp by (simp add: unat_sub word_le_nat_alt minus_mult_div_eq_mod)
  let ?v = "\<lparr>wr_data = data, wr_len = len, wr_offset = offset, wr_ret = 0, wr_append = (k = SEEK_APPEND),
    wr_update_item = (k = SEEK_APPEND), wr_blk_os = ?os, wr_blk_len = 504 - ?os\<rparr>"
  have pre: "loop_pre ?s s1 fd xs (xs @ us) ?q (?D @ replicate (504 * length us) 0) ?v"
    unfolding loop_pre_def using s1(2,4,5) os len big room by (auto simp: max_def)
  obtain v' s2 where l: "write_data_loop P fd ?v s1 = Some (LoopDone, v', s2)"
    "put_done ?s fd xs (xs @ us) (?D @ replicate (504 * length us) 0) ?sz (unat offset) (take (unat len) data) s2"
    "wr_ret v' = len" "wr_update_item v' \<longleftrightarrow> k = SEEK_APPEND \<or> offset + len > ?sz"
    using write_data_loop_spec[OF pre] s1(3) by auto
  obtain ws j where z: "writing ?s s2 fd xs (xs @ us @ ws) j
      (put_bytes (?D @ replicate (504 * length (us @ ws)) 0) (unat offset) (take (unat len) data))"
    "cont s2 = view s2 fd" "length (xs @ us @ ws) = max (length (xs @ us)) (blocks_for (unat offset + unat len))"
    "fh_size (hnd fd s2) = max ?sz (offset + len)"
    using l(2) len(2) by (auto simp: put_done_def replicate_add distrib_left)
  have lz: "length (xs @ us @ ws) = max (length xs) (blocks_for (unat offset + unat len))"
    unfolding z(3) s1(4) using need by (simp only: max.assoc max_absorb2)
  have en0: "entry_on ?s fd xs d i" using en by (simp add: entry_on_def)
  have sum: "unat (offset + len) = unat offset + unat len" using big by (simp add: unat_word_ariths)
  have upd: "wr_update_item v' \<or> us @ ws = [] \<and> fh_size (hnd fd s2) = fh_size (hnd fd ?s) \<and> first_blk (hnd fd s2) = first_blk (hnd fd ?s)"
  proof (cases "wr_update_item v'")
    case False
    then have n: "us = []" "offset + len \<le> ?sz" using l(4) ap by (simp_all add: not_less)
    then have "unat offset + unat len \<le> 504 * length xs" using sz sum by (simp add: word_le_nat_alt)
    then have "blocks_for (unat offset + unat len) \<le> length xs" by linarith
    then have e: "us @ ws = []" using lz by (simp add: max_def split: if_splits)
    have "first_blk (hnd fd s2) = (if xs = [] then 0 else hd xs)" using first_of_chain[OF writingD(6)[OF z(1)]] e by simp
    moreover have "first_blk (hnd fd s) = (if xs = [] then 0 else hd xs)"
      using on first_of_chain[of "cont s" "first_blk (hnd fd s)" xs] by (simp add: handle_on_def)
    ultimately show ?thesis using e z(4) n(2) by (simp add: max_absorb1)
  qed simp
  obtain s3 where s3: "(if wr_update_item v' then update_dir_item P fd s2 else Some s2) = Some s3" "ready s3"
    "rewritten ?s s3 fd xs (us @ ws) d i (put_bytes (?D @ replicate (504 * length (us @ ws)) 0) (unat offset) (take (unat len) data))"
    "fh_size (hnd fd s3) = fh_size (hnd fd s2)"
    by (rule rewritten_saved[OF z(1,2) en0 upd])
  have "tfs_write P (int fd) data len offset s = Some (len, drive_deselect P s3)"
    using dev v0 s1(1) readyD(3)[OF w1(1)] len(1) l(1,3) s3(1) by (simp add: tfs_write_def write_update_def Let_def)
  moreover have "rewritten s s3 fd xs (us @ ws) d i
      (put_bytes (?D @ replicate (504 * length (us @ ws)) 0) (unat offset) (take (unat len) data))"
    using s3(3) unfolding rewritten_def same_handle_def by (simp add: fs_frame_def upd_hnd_def)
  ultimately show ?thesis using s3(2,4) z(4) lz by (intro exI[of _ s3] exI[of _ "us @ ws"]) simp
qed

end

end
