(* ===== verification/Open_Writes.thy ===== *)
theory Open_Writes
  imports Open_Files Write_Specs
begin

text \<open>
  Writing through a handle seen from the directory: an open file whose entry, handle and blocks agree keeps doing so,
  with its new bytes, and the other files of the directory are left alone.
\<close>

context block_device
begin

text \<open>Handle \<open>fd\<close> is on the file in slot \<open>(d, i)\<close> of the directory \<open>ds\<close>, with blocks \<open>xs\<close> and bytes \<open>bs\<close>.\<close>

definition file_open :: "'d fs \<Rightarrow> nat \<Rightarrow> u32 list \<Rightarrow> u32 \<Rightarrow> nat \<Rightarrow> u32 list \<Rightarrow> byte list \<Rightarrow> bool" where
  "file_open s fd ds d i xs bs \<longleftrightarrow> valid_fd (int fd) s \<and> handle_on s fd xs \<and> entry_on s fd xs d i \<and> d \<in> set ds \<and>
     file_at s ds (get_item (cont s d) i) xs bs"

lemma file_openD:
  assumes "file_open s fd ds d i xs bs"
  shows "valid_fd (int fd) s" "handle_on s fd xs" "entry_on s fd xs d i" "d \<in> set ds" "file_at s ds (get_item (cont s d) i) xs bs"
    "unat (fh_size (hnd fd s)) = length bs" "file_bytes s fd xs = bs" "length bs \<le> 504 * length xs" "length xs = blocks_for (length bs)"
    "take (length bs) (chain_data (cont s) xs) = bs" "i < TFS_DIR_BLK_ITEMS"
proof -
  show a: "valid_fd (int fd) s" "handle_on s fd xs" "entry_on s fd xs d i" "d \<in> set ds" "file_at s ds (get_item (cont s d) i) xs bs"
    using assms by (simp_all add: file_open_def)
  show i: "i < TFS_DIR_BLK_ITEMS" using a(3) by (simp add: entry_on_def)
  have h: "unat (it_size (get_item (cont s d) i)) = length bs" "length xs = blocks_for (length bs)" "take (length bs) (chain_data (cont s) xs) = bs"
    using a(5) by (simp_all add: file_at_def file_holds_def)
  then show l: "length xs = blocks_for (length bs)" "take (length bs) (chain_data (cont s) xs) = bs" by simp_all
  show sz: "unat (fh_size (hnd fd s)) = length bs" using h(1) a(3) by (simp add: entry_on_def get_item_def)
  show "file_bytes s fd xs = bs" using l(2) sz by (simp add: file_bytes_def)
  show "length bs \<le> 504 * length xs" unfolding l(1) by (rule blocks_for_enough)
qed

lemma file_open_deselect [simp]: "file_open (drive_deselect P s) fd ds d i xs bs = file_open s fd ds d i xs bs"
  by (simp add: file_open_def entry_on_def valid_fd_def)

text \<open>\<open>tfs_open\<close> of a file that is not open, with a handle left, makes it so.\<close>

lemma open_file_open:
  assumes "mounted s" and "dir_ok s ds" and "c_at name 0 \<noteq> 0" and "length (handles s) = TFS_MAX_FDS"
    and "dir_find (cont s) (pf_filename_cmp P name) ds = Some it" and f: "file_at s ds it xs bs" and "length bs + 504 < 2 ^ 32"
    and "\<exists>h \<in> set (handles s). \<not> usage_count h > 0"
    and "\<And>d i. dir_lookup (cont s) (pf_filename_cmp P name) ds = Some (d, i) \<Longrightarrow>
      \<forall>h \<in> set (handles s). fh_key h = (d, Some i) \<longrightarrow> \<not> usage_count h > 0"
  obtains fd s' d i where "tfs_open P name s = Some (int fd, s')" "last_error s' = TFS_ERR_OK" "mounted s'" "cont s' = cont s"
    "dir_ok s' ds" "drive_info s' = drive_info s" "dir_lookup (cont s') (pf_filename_cmp P name) ds = Some (d, i)" "file_open s' fd ds d i xs bs"
proof (rule open_file_slot[OF assms])
  fix fd s' d i
  assume a: "tfs_open P name s = Some (int fd, s')" "last_error s' = TFS_ERR_OK" "mounted s'" "cont s' = cont s"
    "valid_fd (int fd) s'" "handle_on s' fd xs" "drive_info s' = drive_info s" "current_dir_blk s' = current_dir_blk s"
    "dir_lookup (cont s) (pf_filename_cmp P name) ds = Some (d, i)" "get_item (cont s d) i = it" "hnd fd s' = opened d i it"
  note sl = dir_lookup_SomeD[OF a(9)]
  have ok: "dir_ok s' ds" using assms(2) a by (simp add: dir_ok_def)
  have fs: "file_at s' ds it xs bs" using f a by (simp add: file_at_def)
  have "d \<notin> set xs" using f sl(1) by (auto simp: file_at_def)
  moreover have "owned (cont s) (blk_count s) (d # xs)" using f dir_okD[OF assms(2) sl(1)] by (simp add: file_at_def owned_def)
  ultimately have "entry_on s' fd xs d i" using a sl(2) by (auto simp: entry_on_def get_item_def)
  then have "file_open s' fd ds d i xs bs" using a sl(1) fs by (simp add: file_open_def)
  with a ok show thesis by (intro that[of fd s' d i]) simp_all
qed

text \<open>Overwriting bytes of a file, at its end at the latest, and appending what goes beyond.\<close>

lemma take_put_bytes:
  assumes "off \<le> n" and "n \<le> length D" and "off + length xs \<le> length (D @ R)"
  shows "take (max n (off + length xs)) (put_bytes (D @ R) off xs) = put_bytes (take n D) off xs"
proof (cases "off + length xs \<le> n")
  case True
  then have "put_bytes (take n D @ drop n D @ R) off xs = put_bytes (take n D) off xs @ drop n D @ R"
    using assms(2) by (intro put_bytes_append_right) simp
  moreover have "D @ R = take n D @ drop n D @ R" by simp
  ultimately have "put_bytes (D @ R) off xs = put_bytes (take n D) off xs @ drop n D @ R" by (simp only:)
  then show ?thesis using assms(2) True by (simp add: max_absorb1)
next
  case False
  then show ?thesis using assms by (simp add: put_bytes_def max_def min_def) linarith
qed

lemma rewritten_replaced:
  assumes r: "rewritten s s' fd xs zs d i D" and ok: "dir_ok s ds" and "d \<in> set ds" and "set xs \<inter> set ds = {}"
    and xu: "\<forall>x \<in> set xs. blk_used (cont s) x" and "fd < length (handles s)"
  shows "replaced (upd_hnd fd (\<lambda>_. hnd fd s') s) s' ds d i
    ((get_item (cont s d) i)\<lparr>it_blk := first_blk (hnd fd s'), it_size := fh_size (hnd fd s')\<rparr>) (set xs) (set (xs @ zs))"
proof -
  let ?s = "upd_hnd fd (\<lambda>_. hnd fd s') s"
  have q: "same_handle s s' fd" "\<forall>z \<in> set zs. \<not> blk_used (cont s) z"
    "\<forall>n. blk_used (cont s') n \<longleftrightarrow> blk_used (cont s) n \<or> n \<in> set zs"
    "\<forall>n. \<not> is_bitmap_blk n \<longrightarrow> n \<notin> set (d # xs @ zs) \<longrightarrow> cont s' n = cont s n"
    "\<forall>j. j < TFS_DIR_BLK_ITEMS \<longrightarrow> j \<noteq> i \<longrightarrow> get_item (cont s' d) j = get_item (cont s d) j"
    "get_item (cont s' d) i = (get_item (cont s d) i)\<lparr>it_blk := first_blk (hnd fd s'), it_size := fh_size (hnd fd s')\<rparr>"
    "blk_next (cont s' d) = blk_next (cont s d)" "blk_prev (cont s' d) = blk_prev (cont s d)" "entry_on s' fd (xs @ zs) d i"
    using r unfolding rewritten_def by blast+
  then have ow: "owned (cont s') (blk_count s') (xs @ zs)" by (simp add: entry_on_def owned_def)
  have f: "fs_frame ?s s'" using q(1) by (simp add: same_handle_def)
  have zd: "n \<notin> set ds" if "n \<in> set (xs @ zs)" for n using that assms(4) q(2) dir_okD(3)[OF ok] by auto
  have dirs: "cont s' e = cont s e" if "e \<in> set ds" "e \<noteq> d" for e
    using q(4) dir_okD(2)[OF ok that(1)] zd that by auto
  have ok0: "dir_ok ?s ds" using ok by (simp add: dir_ok_def)
  have "dir_ok s' ds"
  proof (rule dir_ok_cong[OF ok0 f])
    fix e assume e: "e \<in> set ds"
    show "blk_next (cont s' e) = blk_next (cont ?s e)" "blk_prev (cont s' e) = blk_prev (cont ?s e)"
      using dirs[OF e] q(7,8) by (cases "e = d"; simp)+
    show "blk_used (cont s') e" if "blk_used (cont ?s) e" using that q(3) by simp
  qed
  moreover have "get_item (cont s' e) j = get_item (cont s e) j" if "e \<in> set ds" "j < TFS_DIR_BLK_ITEMS" "(e, j) \<noteq> (d, i)" for e j
    using that q(5) dirs[of e] by (cases "e = d") auto
  ultimately show ?thesis
    unfolding replaced_def using f q(2-4,6) ow zd xu by (auto simp: owned_def same_handleD(1)[OF q(1)])
qed

theorem write_open_file:
  fixes len offset :: u32
  assumes m: "mounted s" and ok: "dir_ok s ds" and op: "file_open s fd ds d i xs bs" and len: "len \<noteq> 0" "length data = unat len"
    and off: "unat offset \<le> length bs" and big: "unat offset + unat len + 504 < 2 ^ 32"
    and room: "blocks_for (unat offset + unat len) \<le> length xs + card (free_set (cont s) (blk_count s))"
  obtains s' zs where "tfs_write P (int fd) data len offset s = Some (len, s')" "last_error s' = TFS_ERR_OK" "mounted s'"
    "dir_ok s' ds" "file_open s' fd ds d i (xs @ zs) (put_bytes bs (unat offset) data)"
    "get_item (cont s' d) i = (get_item (cont s d) i)\<lparr>it_blk := first_blk (hnd fd s'), it_size := fh_size (hnd fd s')\<rparr>"
    "\<And>it ys cs. file_at s ds it ys cs \<Longrightarrow> set ys \<inter> set xs = {} \<Longrightarrow> file_at s' ds it ys cs"
    "\<And>cmp. dir_lookup (cont s) cmp ds = Some (d, i) \<Longrightarrow> dir_find (cont s') cmp ds = Some (get_item (cont s' d) i)"
proof -
  note o = file_openD[OF op]
  let ?D = "chain_data (cont s) xs" and ?new = "put_bytes bs (unat offset) data" and ?it = "get_item (cont s d) i"
  have ld: "unat len \<le> length data" and sz0: "unat (fh_size (hnd fd s)) \<le> 504 * length xs" using len(2) o(6,8) by simp_all
  obtain s' zs where w: "tfs_write P (int fd) data len offset s = Some (len, drive_deselect P s')" "ready s'"
    "rewritten s s' fd xs zs d i (put_bytes (?D @ replicate (504 * length zs) 0) (unat offset) (take (unat len) data))"
    "length (xs @ zs) = max (length xs) (blocks_for (unat offset + unat len))"
    "fh_size (hnd fd s') = max (fh_size (hnd fd s)) (offset + len)"
    using tfs_write_spec[OF m o(1-3) sz0 len(1) ld big room] by blast
  let ?it' = "?it\<lparr>it_blk := first_blk (hnd fd s'), it_size := fh_size (hnd fd s')\<rparr>"
  let ?s = "upd_hnd fd (\<lambda>_. hnd fd s') s"
  have fl: "fd < length (handles s)" using o(2) by (simp add: handle_on_def)
  have f: "file_holds (cont s) ?it xs bs" "owned (cont s) (blk_count s) xs" "set xs \<inter> set ds = {}"
    using o(5) by (simp_all add: file_at_def)
  have rp: "replaced ?s s' ds d i ?it' (set xs) (set (xs @ zs))"
    by (rule rewritten_replaced[OF w(3) ok o(4) f(3) _ fl]) (use f(2) in \<open>simp add: owned_def\<close>)
  have q: "handle_on s' fd (xs @ zs)" "entry_on s' fd (xs @ zs) d i" "same_handle s s' fd"
    "chain_data (cont s') (xs @ zs) = put_bytes (?D @ replicate (504 * length zs) 0) (unat offset) data"
    "get_item (cont s' d) i = ?it'"
    using w(3) len(2) by (simp_all add: rewritten_def)
  have sum: "unat (offset + len) = unat offset + unat len" using big by (simp add: unat_word_ariths)
  have nl: "length ?new = max (length bs) (unat offset + unat len)" using off len(2) by (simp add: put_bytes_def max_def)
  have sz: "unat (fh_size (hnd fd s')) = length ?new"
    using o(6) sum nl by (simp add: w(5) max_def word_le_nat_alt)
  have "blocks_for (max a b) = max (blocks_for a) (blocks_for b)" for a b
    by (cases a b rule: le_cases) (simp_all add: max_absorb1 max_absorb2 div_le_mono)
  then have nb: "length (xs @ zs) = blocks_for (length ?new)" unfolding w(4) nl o(9) by (simp only:)
  have "unat offset + length data \<le> 504 * length (xs @ zs)"
    using nl len(2) blocks_for_enough[of "length ?new"] unfolding nb by linarith
  then have "take (max (length bs) (unat offset + length data)) (put_bytes (?D @ replicate (504 * length zs) 0) (unat offset) data) =
      put_bytes (take (length bs) ?D) (unat offset) data"
    by (intro take_put_bytes[OF off]) (use o(8) in simp_all)
  then have dat: "take (length ?new) (chain_data (cont s') (xs @ zs)) = ?new"
    using o(10) nl len(2) by (simp add: q(4))
  have "file_holds (cont s') ?it' (xs @ zs) ?new"
    using f(1) q(1) sz nb dat by (simp add: file_holds_def handle_on_def)
  moreover have "owned (cont s') (blk_count s') (xs @ zs)" using q(2) by (simp add: entry_on_def owned_def)
  moreover have "set (xs @ zs) \<inter> set ds = {}" using rp by (auto simp: replaced_def)
  ultimately have fa: "file_at s' ds ?it' (xs @ zs) ?new" by (simp add: file_at_def)
  have v: "valid_fd (int fd) s'" using o(1) same_handleD(4)[OF q(3)] by (simp add: valid_fd_def)
  have op': "file_open s' fd ds d i (xs @ zs) ?new"
    using v q(1,2,5) o(4) fa by (simp add: file_open_def)
  have ok': "dir_ok s' ds" using rp by (simp add: replaced_def)
  have ok0: "dir_ok ?s ds" using ok by (simp add: dir_ok_def)
  have kept: "file_at s' ds it ys cs" if "file_at s ds it ys cs" "set ys \<inter> set xs = {}" for it ys cs
    by (rule file_kept_replaced[OF _ rp that(2) o(4)]) (use that(1) in \<open>simp add: file_at_def\<close>)
  have found: "dir_find (cont s') cmp ds = Some (get_item (cont s' d) i)" if lk: "dir_lookup (cont s) cmp ds = Some (d, i)" for cmp
  proof -
    have "it_type ?it' \<noteq> TFS_DIR_ITEM_FREE" using f(1) by (simp add: file_holds_def)
    moreover have "cmp (it_name ?it')" using dir_lookup_SomeD[OF lk] by (simp add: get_item_def)
    ultimately show ?thesis using replaced_find(1)[OF ok0 _ rp, of cmp] lk q(5) by simp
  qed
  show thesis
    by (rule that[of "drive_deselect P s'" zs])
      (use w(1) readyD(3)[OF w(2)] mounted_ready[OF w(2)] op' ok' q(5) kept found in simp_all)
qed

end

end
