(* ===== verification/Truncate.thy ===== *)
theory Truncate
  imports Open_Writes
begin

text \<open>
  \<open>tfs_trunc\<close> to a position inside an open file: the blocks behind the one that holds the position are given
  back, all of them for position 0, and the rest of the file stays.  The new size is not recorded, neither in the
  handle nor in the directory.
\<close>

section \<open>Cutting a chain\<close>

lemma chain_cut:
  "chain C p xs \<Longrightarrow> k < length xs \<Longrightarrow> (\<And>x. x \<in> set (take k xs) \<Longrightarrow> blk_next (C' x) = blk_next (C x)) \<Longrightarrow>
   blk_next (C' (xs ! k)) = 0 \<Longrightarrow> chain C' p (take (Suc k) xs)"
proof (induction xs arbitrary: p k)
  case (Cons x xs)
  show ?case
  proof (cases k)
    case (Suc j)
    with Cons.IH[of "blk_next (C x)" j] Cons.prems show ?thesis by simp
  qed (use Cons.prems in simp)
qed simp

lemma chain_behind: "chain C p xs \<Longrightarrow> k < length xs \<Longrightarrow> chain C (blk_next (C (xs ! k))) (drop (Suc k) xs)"
proof (induction xs arbitrary: p k)
  case (Cons x xs)
  then show ?case by (cases k) auto
qed simp

lemma back_links_take: "back_links C p xs \<Longrightarrow> back_links C p (take k xs)"
proof (induction xs arbitrary: p k)
  case (Cons x xs)
  then show ?case by (cases k) auto
qed simp

lemma chain_data_take:
  assumes "\<And>x. length (C x) = TFS_BLOCKSIZE"
  shows "chain_data C (take k xs) = take (504 * k) (chain_data C xs)"
proof (induction xs arbitrary: k)
  case (Cons x xs)
  have "length (data_bytes (C x)) = 504" using assms by (simp add: data_bytes_def)
  with Cons show ?case by (cases k) simp_all
qed simp

context block_device
begin

text \<open>The file of handle \<open>fd\<close> has shrunk from \<open>xs\<close> to its first blocks \<open>ys\<close>, on the medium but not yet in the directory.\<close>

definition shrunk :: "'d fs \<Rightarrow> 'd fs \<Rightarrow> nat \<Rightarrow> u32 list \<Rightarrow> u32 list \<Rightarrow> bool" where
  "shrunk s s' fd xs ys \<longleftrightarrow> ready s' \<and> same_handle s s' fd \<and> fh_size (hnd fd s') = fh_size (hnd fd s) \<and>
     ys = take (length ys) xs \<and> handle_on s' fd ys \<and> chain_data (cont s') ys = take (504 * length ys) (chain_data (cont s) xs) \<and>
     (\<forall>n. blk_used (cont s') n \<longleftrightarrow> blk_used (cont s) n \<and> n \<notin> set (drop (length ys) xs)) \<and>
     (\<forall>n. \<not> is_bitmap_blk n \<longrightarrow> n \<notin> set ys \<longrightarrow> cont s' n = cont s n)"

lemma same_handle_trans:
  assumes "same_handle s t fd" and "same_handle t u fd"
  shows "same_handle s u fd"
  using assms same_handle_step[OF assms(1)] by (simp add: same_handle_def)

text \<open>The blocks from index \<open>m\<close> on are freed; before that the chain has been cut there.\<close>

lemma shrunk_free:
  assumes r: "ready s1" and sh: "same_handle s s1 fd" "fh_size (hnd fd s1) = fh_size (hnd fd s)" and on: "handle_on s1 fd (take m xs)"
    and m: "m \<le> length xs" and ch: "chain (cont s1) p (drop m xs)" and own: "owned (cont s1) (blk_count s1) xs" and dist: "distinct xs"
    and dat: "chain_data (cont s1) (take m xs) = take (504 * m) (chain_data (cont s) xs)"
    and u: "\<And>n. blk_used (cont s1) n = blk_used (cont s) n"
    and c: "\<And>n. \<not> is_bitmap_blk n \<Longrightarrow> n \<notin> set (take m xs) \<Longrightarrow> cont s1 n = cont s n"
  obtains s2 where "free_file_blocks P p s1 = Some s2" "shrunk s s2 fd xs (take m xs)"
proof -
  have o: "x < blk_count s1 \<and> \<not> is_bitmap_blk x" if "x \<in> set xs" for x using own that by (simp add: owned_def)
  have "\<forall>x \<in> set (drop m xs). x < blk_count s1 \<and> \<not> is_bitmap_blk x" using o set_drop_subset by fast
  then obtain s2 where f: "free_file_blocks P p s1 = Some s2" "ready s2" "fs_frame s1 s2"
    "\<forall>n. \<not> is_bitmap_blk n \<longrightarrow> cont s2 n = cont s1 n" "\<forall>n. blk_used (cont s2) n \<longleftrightarrow> blk_used (cont s1) n \<and> n \<notin> set (drop m xs)"
    using free_file_blocks_spec[OF r ch] by blast
  have h: "hnd fd s2 = hnd fd s1" "length (handles s2) = length (handles s1)" using fs_frameD(5)[OF f(3)] by (simp_all add: hnd_def)
  have same: "cont s2 x = cont s1 x" if "x \<in> set (take m xs)" for x using f(4) o that in_set_takeD by fast
  have sh2: "same_handle s s2 fd"
    by (rule same_handle_trans[OF sh(1)]) (use f(3) h in \<open>simp add: same_handle_def upd_hnd_def hnd_def fs_frame_def\<close>)
  have on2: "handle_on s2 fd (take m xs)"
    using on h same fs_frameD(1)[OF f(3)] chain_cong[of "take m xs" "cont s2" "cont s1"] back_links_cong[of "take m xs" "cont s2" "cont s1"]
    unfolding handle_on_def by simp
  have "shrunk s s2 fd xs (take m xs)"
    unfolding shrunk_def using f(2,4,5) sh2 on2 sh(2) h m dat u c same chain_data_cong[of "take m xs" "cont s2" "cont s1"]
    by (simp add: min_absorb2)
  with f(1) show thesis by (rule that)
qed

lemma shrunk_start:
  assumes m: "moved s s1 fd" and on: "handle_on s1 fd xs" and at: "at_block s1 fd xs k" and b: "blk_buf s1 = cont s1 (xs ! k)"
    and own: "owned (cont s1) (blk_count s1) xs"
  defines "p \<equiv> blk_next (blk_buf s1)" and "t \<equiv> s1\<lparr>blk_buf := set_next (blk_buf s1) 0\<rparr>"
  obtains s2 where "(if p \<noteq> 0 then write_buf P (curr_blk (hnd fd t)) t else t) = s2" "last_error s2 = TFS_ERR_OK"
    "\<exists>s3. free_file_blocks P p s2 = Some s3 \<and> shrunk s s3 fd xs (take (Suc k) xs)"
proof -
  note m1 = movedD[OF m]
  have h: "fd < length (handles s1)" "chain (cont s1) (first_blk (hnd fd s1)) xs" "back_links (cont s1) 0 xs" "\<forall>x \<in> set xs. x < blk_count s1"
    "504 * length xs < 2 ^ 32"
    using on by (simp_all add: handle_on_def)
  have k: "k < length xs" "curr_blk (hnd fd s1) = xs ! k" using at by (simp_all add: at_block_def)
  have d: "distinct xs" using h(2) by (rule chain_distinct)
  have ok: "xs ! k < blk_count s1" "\<not> is_bitmap_blk (xs ! k)" "xs ! k \<in> set xs" using own k(1) by (simp_all add: owned_def)
  have lb: "length (set_next (blk_buf s1) 0) = TFS_BLOCKSIZE" using m1(1) by simp
  have p: "p = (if Suc k < length xs then xs ! Suc k else 0)" unfolding p_def b by (rule chain_nth_next[OF h(2) k(1)])
  define s2 where "s2 = (if p \<noteq> 0 then write_buf P (curr_blk (hnd fd t)) t else t)"
  have t: "ready t" "cont t = cont s1" "hnd fd t = hnd fd s1" "fs_frame s1 t" using m1(1) lb by (simp_all add: t_def)
  have s2: "ready s2" "fs_frame s1 s2" using t ok k(2) by (simp_all add: s2_def t_def)
  have h2: "hnd fd s2 = hnd fd s1" using fs_frameD(5)[OF s2(2)] by (simp add: hnd_def)
  have c2: "cont s2 x = (if x = xs ! k \<and> p \<noteq> 0 then set_next (cont s1 x) 0 else cont s1 x)" for x
    using t ok k(2) b by (auto simp: s2_def t_def)
  have nx: "blk_next (cont s2 (xs ! k)) = 0" using m1(1) by (simp add: c2 b[symmetric]) (simp add: p_def)
  have u: "blk_used (cont s2) n = blk_used (cont s1) n" for n
  proof -
    have "cont s2 = (if p \<noteq> 0 then (cont s1)(xs ! k := set_next (cont s1 (xs ! k)) 0) else cont s1)" by (auto simp: fun_eq_iff c2)
    then show ?thesis using ok(2) by (simp add: blk_used_upd)
  qed
  have lk: "blk_prev (cont s2 x) = blk_prev (cont s1 x)" "data_bytes (cont s2 x) = data_bytes (cont s1 x)" for x
    using m1(1) by (simp_all add: c2)
  have nk: "xs ! k \<notin> set (take k xs)" "xs ! k \<notin> set (drop (Suc k) xs)"
    using d k(1) by (auto simp: in_set_conv_nth nth_eq_iff_index_eq)
  have lens: "length (cont s1 x) = TFS_BLOCKSIZE" for x by simp
  have on2: "handle_on s2 fd (take (Suc k) xs)"
    unfolding handle_on_def h2
  proof (intro conjI)
    show "chain (cont s2) (first_blk (hnd fd s1)) (take (Suc k) xs)"
      by (rule chain_cut[OF h(2) k(1)]) (use nk(1) nx in \<open>auto simp: c2\<close>)
    show "back_links (cont s2) 0 (take (Suc k) xs)"
      using back_links_take[OF h(3)] back_links_cong[of "take (Suc k) xs" "cont s2" "cont s1"] lk(1) by simp
    show "curr_blk (hnd fd s1) \<noteq> 0 \<longrightarrow> (\<exists>j < length (take (Suc k) xs). curr_blk (hnd fd s1) = take (Suc k) xs ! j \<and>
        unat (curr_pos (hnd fd s1)) = 504 * j)"
      using at k(1) by (intro impI exI[of _ k]) (simp add: at_block_def)
    show "fd < length (handles s2)" using h(1) fs_frameD(5)[OF s2(2)] by simp
    show "\<forall>x \<in> set (take (Suc k) xs). x < blk_count s2" using h(4) fs_frameD(1)[OF s2(2)] by (auto dest: in_set_takeD)
    have "504 * length (take (Suc k) xs) \<le> 504 * length xs" by simp
    then show "504 * length (take (Suc k) xs) < 2 ^ 32" using h(5) by (rule le_less_trans)
  qed
  have ch2: "chain (cont s2) p (drop (Suc k) xs)"
  proof -
    have "chain (cont s1) p (drop (Suc k) xs)" unfolding p_def b by (rule chain_behind[OF h(2) k(1)])
    moreover have "blk_next (cont s2 x) = blk_next (cont s1 x)" if "x \<in> set (drop (Suc k) xs)" for x using that nk(2) by (auto simp: c2)
    ultimately show ?thesis using chain_cong[of "drop (Suc k) xs" "cont s2" "cont s1"] by simp
  qed
  have dat: "chain_data (cont s2) (take (Suc k) xs) = take (504 * Suc k) (chain_data (cont s) xs)"
  proof -
    have "chain_data (cont s2) (take (Suc k) xs) = chain_data (cont s1) (take (Suc k) xs)" by (simp add: chain_data_def lk(2))
    then show ?thesis using chain_data_take[of "cont s1" "Suc k" xs, OF lens] m1(2) by simp
  qed
  have sh: "same_handle s s2 fd"
    by (rule same_handle_trans[OF same_handle_moved[OF m h(1)]])
      (use s2(2) h2 in \<open>simp add: same_handle_def upd_hnd_def hnd_def fs_frame_def\<close>)
  have sz: "fh_size (hnd fd s2) = fh_size (hnd fd s)" using m1(4,6) h(1) h2 by simp
  have own2: "owned (cont s2) (blk_count s2) xs" using own u fs_frameD(1)[OF s2(2)] by (simp add: owned_def)
  obtain s3 where "free_file_blocks P p s2 = Some s3" "shrunk s s3 fd xs (take (Suc k) xs)"
    by (rule shrunk_free[OF s2(1) sh sz on2 _ ch2 own2 d dat])
      (use k(1) u m1(2) c2 in \<open>auto simp: Suc_le_eq take_Suc_conv_app_nth\<close>)
  then show thesis using that[OF s2_def[symmetric] readyD(3)[OF s2(1)]] by blast
qed

lemma shrunk_all:
  assumes r: "ready s" and on: "handle_on s fd xs" and own: "owned (cont s) (blk_count s) xs"
  obtains s1 where "free_file_blocks P (first_blk (hnd fd s)) s = Some s1" "last_error s1 = TFS_ERR_OK"
    "shrunk s (upd_hnd fd init_pos (upd_hnd fd (\<lambda>h. h\<lparr>first_blk := 0\<rparr>) s1)) fd xs []"
proof -
  have ch: "chain (cont s) (first_blk (hnd fd s)) xs" and l: "fd < length (handles s)" using on by (simp_all add: handle_on_def)
  have "\<forall>x \<in> set xs. x < blk_count s \<and> \<not> is_bitmap_blk x" using own by (simp add: owned_def)
  then obtain s1 where f: "free_file_blocks P (first_blk (hnd fd s)) s = Some s1" "ready s1" "fs_frame s s1"
    "\<forall>n. \<not> is_bitmap_blk n \<longrightarrow> cont s1 n = cont s n" "\<forall>n. blk_used (cont s1) n \<longleftrightarrow> blk_used (cont s) n \<and> n \<notin> set xs"
    using free_file_blocks_spec[OF r ch] by blast
  let ?s = "upd_hnd fd init_pos (upd_hnd fd (\<lambda>h. h\<lparr>first_blk := 0\<rparr>) s1)"
  have h: "hnd fd ?s = (hnd fd s)\<lparr>first_blk := 0, curr_blk := 0, curr_pos := 0\<rparr>"
    using l fs_frameD(5)[OF f(3)] by (simp add: hnd_def upd_hnd_def init_pos_def)
  have "fs_frame (upd_hnd fd (\<lambda>_. hnd fd ?s) s) ?s"
    unfolding h using f(3) l by (simp add: fs_frame_def upd_hnd_def hnd_def init_pos_def)
  then have "same_handle s ?s fd" by (simp add: same_handle_def h)
  then have "shrunk s ?s fd xs []"
    unfolding shrunk_def using f(2,4,5) l fs_frameD(5)[OF f(3)] by (simp add: h handle_on_def)
  with f(1) readyD(3)[OF f(2)] show thesis by (rule that)
qed

text \<open>The directory entry: only the first block can change.\<close>

lemma shrunk_update:
  assumes sh: "shrunk s s1 fd xs ys" and e: "entry_on s fd xs d i" and ok: "dir_ok s ds" and d: "d \<in> set ds" "set xs \<inter> set ds = {}"
    and own: "owned (cont s) (blk_count s) xs" and dist: "distinct xs"
  obtains s2 where "update_dir_item P fd s1 = Some s2" "ready s2" "same_handle s s2 fd" "handle_on s2 fd ys"
    "fh_size (hnd fd s2) = fh_size (hnd fd s)" "chain_data (cont s2) ys = take (504 * length ys) (chain_data (cont s) xs)"
    "\<forall>n. blk_used (cont s2) n \<longleftrightarrow> blk_used (cont s) n \<and> n \<notin> set (drop (length ys) xs)"
    "replaced (upd_hnd fd (\<lambda>_. hnd fd s2) s) s2 ds d i ((get_item (cont s d) i)\<lparr>it_blk := if ys = [] then 0 else hd ys\<rparr>) (set xs) (set ys)"
proof -
  have q: "ready s1" "same_handle s s1 fd" "fh_size (hnd fd s1) = fh_size (hnd fd s)" "ys = take (length ys) xs" "handle_on s1 fd ys"
    "chain_data (cont s1) ys = take (504 * length ys) (chain_data (cont s) xs)"
    "\<forall>n. blk_used (cont s1) n \<longleftrightarrow> blk_used (cont s) n \<and> n \<notin> set (drop (length ys) xs)"
    "\<forall>n. \<not> is_bitmap_blk n \<longrightarrow> n \<notin> set ys \<longrightarrow> cont s1 n = cont s n"
    using sh unfolding shrunk_def by blast+
  note sd = same_handleD[OF q(2)]
  have e1: "dir_blk (hnd fd s1) = d" "dir_item (hnd fd s1) = Some i" "i < TFS_DIR_BLK_ITEMS" "d < blk_count s1" "\<not> is_bitmap_blk d"
    and es: "item_size (cont s d) i = fh_size (hnd fd s)" and dx: "d \<notin> set xs"
    using e sd by (simp_all add: entry_on_def owned_def)
  have ysx: "set ys \<subseteq> set xs" using q(4) by (metis set_take_subset)
  then have cd: "cont s1 d = cont s d" using q(8) e1(5) dx by blast
  have fb: "first_blk (hnd fd s1) = (if ys = [] then 0 else hd ys)"
    using q(5) first_of_chain[of "cont s1" _ ys] by (simp add: handle_on_def)
  obtain s2 where s2: "update_dir_item P fd s1 = Some s2" "ready s2" "fs_frame s1 s2" "hnd fd s2 = hnd fd s1"
    "cont s2 = (cont s1)(d := set_item_size (set_item_blk (cont s d) i (first_blk (hnd fd s1))) i (fh_size (hnd fd s1)))"
    by (rule update_dir_item_spec[OF q(1) e1]) (simp add: cd)
  have it: "get_item (cont s2 d) i = (get_item (cont s d) i)\<lparr>it_blk := if ys = [] then 0 else hd ys\<rparr>"
    using e1(3) es by (simp add: s2(5) get_item_def q(3) fb)
  have others: "get_item (cont s2 d) j = get_item (cont s d) j" if "j < TFS_DIR_BLK_ITEMS" "j \<noteq> i" for j
    using that e1(3) by (simp add: s2(5) get_item_def)
  have same: "cont s2 x = cont s1 x" if "x \<noteq> d" for x using that by (simp add: s2(5))
  have ymem: "x \<noteq> d" if "x \<in> set ys" for x using that ysx dx by auto
  have u: "blk_used (cont s2) n \<longleftrightarrow> blk_used (cont s) n \<and> n \<notin> set (drop (length ys) xs)" for n
    using q(7) e1(5) by (simp add: s2(5) blk_used_upd)
  have sh2: "same_handle s s2 fd"
    by (rule same_handle_trans[OF q(2)]) (use s2(3,4) in \<open>simp add: same_handle_def upd_hnd_def hnd_def fs_frame_def\<close>)
  have on2: "handle_on s2 fd ys"
    using q(5) s2(4) fs_frameD(1,5)[OF s2(3)] same ymem chain_cong[of ys "cont s2" "cont s1"] back_links_cong[of ys "cont s2" "cont s1"]
    by (simp add: handle_on_def)
  have dat: "chain_data (cont s2) ys = take (504 * length ys) (chain_data (cont s) xs)"
    using q(6) same ymem chain_data_cong[of ys "cont s2" "cont s1"] by simp
  let ?s = "upd_hnd fd (\<lambda>_. hnd fd s2) s"
  have fr: "fs_frame ?s s2" using sh2 by (simp add: same_handle_def)
  have dirs: "cont s2 f = cont s f" if "f \<in> set ds" "f \<noteq> d" for f
  proof -
    have "f \<notin> set ys" using that(1) d(2) ysx by auto
    then show ?thesis using same[OF that(2)] q(8)[rule_format, OF dir_okD(2)[OF ok that(1)]] by simp
  qed
  have dok: "dir_ok s2 ds"
  proof (rule dir_ok_cong[OF _ fr])
    show "dir_ok ?s ds" using ok by (simp add: dir_ok_def)
    fix f assume f: "f \<in> set ds"
    show "blk_next (cont s2 f) = blk_next (cont ?s f)" "blk_prev (cont s2 f) = blk_prev (cont ?s f)"
      using dirs[OF f] e1(3) by (cases "f = d"; simp add: s2(5))+
    show "blk_used (cont s2) f" if "blk_used (cont ?s) f"
      using that u f d(2) by (auto dest: in_set_dropD)
  qed
  have items: "get_item (cont s2 f) j = get_item (cont s f) j" if "f \<in> set ds" "j < TFS_DIR_BLK_ITEMS" "(f, j) \<noteq> (d, i)" for f j
    using that others dirs[of f] by (cases "f = d") auto
  have ux: "blk_used (cont s2) n \<longleftrightarrow> blk_used (cont s) n \<and> n \<notin> set xs \<or> n \<in> set ys" for n
  proof -
    have x: "xs = ys @ drop (length ys) xs" using append_take_drop_id[of "length ys" xs] q(4) by simp
    have sx: "set xs = set ys \<union> set (drop (length ys) xs)" by (subst x) simp
    have "set ys \<inter> set (drop (length ys) xs) = {}" using dist by (subst (asm) x) simp
    moreover have "\<forall>x \<in> set ys. blk_used (cont s) x" using own ysx by (auto simp: owned_def)
    ultimately show ?thesis unfolding u sx by blast
  qed
  have "replaced ?s s2 ds d i ((get_item (cont s d) i)\<lparr>it_blk := if ys = [] then 0 else hd ys\<rparr>) (set xs) (set ys)"
    unfolding replaced_def using fr dok it items ux q(8) same ysx own d(2) by (auto simp: owned_def)
  with s2(1,2) sh2 on2 dat u q(3) s2(4) show thesis by (intro that[of s2]) simp_all
qed

theorem trunc_open_file:
  fixes sz :: u32
  assumes m: "mounted s" and ok: "dir_ok s ds" and op: "file_open s fd ds d i xs bs" and inside: "sz = 0 \<or> unat sz div 504 < length xs"
  defines "ys \<equiv> (if sz = 0 then [] else take (Suc (unat sz div 504)) xs)"
  obtains s' where "tfs_trunc P (int fd) sz s = Some s'" "last_error s' = TFS_ERR_OK" "mounted s'" "dir_ok s' ds" "handle_on s' fd ys"
    "fh_size (hnd fd s') = fh_size (hnd fd s)" "chain_data (cont s') ys = take (504 * length ys) (chain_data (cont s) xs)"
    "\<And>n. blk_used (cont s') n \<longleftrightarrow> blk_used (cont s) n \<and> n \<notin> set (drop (length ys) xs)"
    "get_item (cont s' d) i = (get_item (cont s d) i)\<lparr>it_blk := if ys = [] then 0 else hd ys\<rparr>"
    "\<And>it zs cs. file_at s ds it zs cs \<Longrightarrow> set zs \<inter> set xs = {} \<Longrightarrow> file_at s' ds it zs cs"
proof -
  note [simp] = assms(1) mounted_select[OF assms(1)]
  note o = file_openD[OF op]
  let ?s = "entered s"
  have r: "ready ?s" and on: "handle_on ?s fd xs" and c0: "cont ?s = cont s" using m o(2) by (simp_all add: ready_entered)
  have v: "valid_fd (int fd) ?s" using o(1) by (simp add: valid_fd_def)
  have own: "owned (cont ?s) (blk_count ?s) xs" and dd: "set xs \<inter> set ds = {}" using o(5) by (simp_all add: file_at_def)
  have e: "entry_on ?s fd xs d i" using o(3) by (simp add: entry_on_def)
  have dist: "distinct xs" using o(2) chain_distinct by (auto simp: handle_on_def)
  have ok0: "dir_ok ?s ds" using ok by (simp add: dir_ok_def)
  have "\<exists>s1. trunc_body P (int fd) sz ?s = update_dir_item P fd s1 \<and> shrunk ?s s1 fd xs ys"
  proof (cases "sz = 0")
    case True
    obtain s1 where "free_file_blocks P (first_blk (hnd fd ?s)) ?s = Some s1" "last_error s1 = TFS_ERR_OK"
      "shrunk ?s (upd_hnd fd init_pos (upd_hnd fd (\<lambda>h. h\<lparr>first_blk := 0\<rparr>) s1)) fd xs []"
      by (rule shrunk_all[OF r on own])
    with True v show ?thesis by (intro exI) (simp add: trunc_body_def ys_def Let_def)
  next
    case False
    let ?k = "unat sz div 504"
    have k: "?k < length xs" using inside False by simp
    obtain s1 where s1: "seek P fd sz True ?s = Some (SEEK_OK, s1)" "moved ?s s1 fd" "handle_on s1 fd xs" "at_block s1 fd xs ?k"
      "blk_buf s1 = cont ?s (xs ! ?k)"
      using seek_spec(1)[OF r on k] by blast
    note m1 = movedD[OF s1(2)]
    have b: "blk_buf s1 = cont s1 (xs ! ?k)" using s1(5) m1(2) by simp
    have own1: "owned (cont s1) (blk_count s1) xs" using own m1(2,3) by (simp add: owned_def)
    let ?p = "blk_next (blk_buf s1)" and ?t = "s1\<lparr>blk_buf := set_next (blk_buf s1) 0\<rparr>"
    obtain s2 where s2: "(if ?p \<noteq> 0 then write_buf P (curr_blk (hnd fd ?t)) ?t else ?t) = s2" "last_error s2 = TFS_ERR_OK"
      "\<exists>s3. free_file_blocks P ?p s2 = Some s3 \<and> shrunk ?s s3 fd xs (take (Suc ?k) xs)"
      by (rule shrunk_start[OF s1(2-4) b own1])
    then obtain s3 where s3: "free_file_blocks P ?p s2 = Some s3" "shrunk ?s s3 fd xs ys" using False by (auto simp: ys_def)
    have "last_error s3 = TFS_ERR_OK" using s3(2) readyD(3) by (simp add: shrunk_def)
    then have "trunc_tail P fd (?p \<noteq> 0) ?p ?t = update_dir_item P fd s3"
      using s2(2) s3(1) unfolding trunc_tail_def s2(1) by (simp add: Let_def)
    then have "trunc_body P (int fd) sz ?s = update_dir_item P fd s3"
      using False v s1(1) readyD(3)[OF m1(1)] by (simp add: trunc_body_def Let_def)
    with s3(2) show ?thesis by blast
  qed
  then obtain s1 where s1: "trunc_body P (int fd) sz ?s = update_dir_item P fd s1" "shrunk ?s s1 fd xs ys" by blast
  obtain s2 where s2: "update_dir_item P fd s1 = Some s2" "ready s2" "same_handle ?s s2 fd" "handle_on s2 fd ys"
    "fh_size (hnd fd s2) = fh_size (hnd fd ?s)" "chain_data (cont s2) ys = take (504 * length ys) (chain_data (cont ?s) xs)"
    "\<forall>n. blk_used (cont s2) n \<longleftrightarrow> blk_used (cont ?s) n \<and> n \<notin> set (drop (length ys) xs)"
    "replaced (upd_hnd fd (\<lambda>_. hnd fd s2) ?s) s2 ds d i ((get_item (cont ?s d) i)\<lparr>it_blk := if ys = [] then 0 else hd ys\<rparr>) (set xs) (set ys)"
    by (rule shrunk_update[OF s1(2) e ok0 o(4) dd own dist])
  have t: "tfs_trunc P (int fd) sz s = Some (drive_deselect P s2)"
    using api_void_mounted[where body = "trunc_body P (int fd) sz", OF m, of s2] s1(1) s2(1) by (simp add: tfs_trunc_def)
  have kept: "file_at s2 ds it zs cs" if "file_at s ds it zs cs" "set zs \<inter> set xs = {}" for it zs cs
    by (rule file_kept_replaced[OF _ s2(8) that(2) o(4)]) (use that(1) in \<open>simp add: file_at_def\<close>)
  have "get_item (cont s2 d) i = (get_item (cont s d) i)\<lparr>it_blk := if ys = [] then 0 else hd ys\<rparr>" "dir_ok s2 ds"
    using s2(8) by (simp_all add: replaced_def)
  with t s2(2-7) kept show thesis
    by (intro that[of "drive_deselect P s2"]) (simp_all add: readyD mounted_ready)
qed

end

end
