(* ===== verification/Handle_Props.thy ===== *)
theory Handle_Props
  imports Moved_Files Handle_Table Truncate
begin

text \<open>
  Properties of the functions that work through a file handle, on the Linux platform: what reading, writing and
  truncating through a handle do, and where the handle table fails to protect open files.
\<close>

section \<open>Reading through a handle\<close>

text \<open>C21: \<open>tfs_open\<close> of a file that is not open, with a handle left, returns a descriptor through which
  \<open>tfs_read\<close> gives the file's bytes from the offset on, up to the length asked for and the end of the
  file; neither call changes a block.\<close>

theorem open_read:
  fixes len offset :: u32
  assumes "ld.mounted s" and "ld.dir_ok s ds" and "c_at name 0 \<noteq> 0" and "length (handles s) = TFS_MAX_FDS"
    and df: "dir_find (linux_contents (dev s)) (strncmp_filename_cmp name) ds = Some it"
    and f: "ld.file_at s ds it xs bs" and "length bs + 504 < 2 ^ 32"
    and "\<exists>h \<in> set (handles s). \<not> usage_count h > 0"
    and "\<And>d i. dir_lookup (linux_contents (dev s)) (strncmp_filename_cmp name) ds = Some (d, i) \<Longrightarrow>
      \<forall>h \<in> set (handles s). fh_key h = (d, Some i) \<longrightarrow> \<not> usage_count h > 0"
  shows "\<exists>fd s1 s2. tfs_open linux_platform name s = Some (int fd, s1) \<and> last_error s1 = TFS_ERR_OK \<and>
    valid_fd (int fd) s1 \<and>
    tfs_read linux_platform (int fd) len offset s1 =
      Some ((of_nat (length (take (unat len) (drop (unat offset) bs))), take (unat len) (drop (unat offset) bs)), s2) \<and>
    last_error s2 = TFS_ERR_OK \<and> linux_contents (dev s2) = linux_contents (dev s)"
proof (rule ld.open_file_at[OF assms(1-4) _ f assms(7,8)])
  fix fd s1
  assume a: "tfs_open linux_platform name s = Some (int fd, s1)" "last_error s1 = TFS_ERR_OK" "ld.mounted s1"
    "linux_contents (dev s1) = linux_contents (dev s)" "valid_fd (int fd) s1" "ld.handle_on s1 fd xs"
    "fh_size (hnd fd s1) = it_size it" "ld.file_bytes s1 fd xs = bs"
  have "file_holds (linux_contents (dev s)) it xs bs" using f by (simp add: ld.file_at_def)
  then have "unat (fh_size (hnd fd s1)) \<le> 504 * length xs"
    using ld.file_blocks(2) by (auto simp: a(7) file_holds_def)
  then obtain s2 where r: "tfs_read linux_platform (int fd) len offset s1 =
      Some ((of_nat (length (take (unat len) (drop (unat offset) bs))), take (unat len) (drop (unat offset) bs)), drive_deselect linux_platform s2)"
    "ld.moved s1 s2 fd"
    using ld.tfs_read_spec[OF a(3,5,6)] a(8) by metis
  have "last_error s2 = TFS_ERR_OK" "linux_contents (dev s2) = linux_contents (dev s)"
    using r(2) a(4) ld.readyD(3)[of s2] by (simp_all add: ld.moved_def)
  with a(1,2,5) r(1) show ?thesis by (intro exI conjI) (assumption | simp add: linux_drive_deselect_def)+
qed (use assms(9) df in simp_all)

lemma open_read_witness:
  "\<exists>fd s1 s2. tfs_open linux_platform demo_name demo_file_fs = Some (int fd, s1) \<and>
    tfs_read linux_platform (int fd) 10 1 s1 = Some ((2, [2, 3]), s2)"
proof (rule demo_file)
  fix pos xs ds
  assume a: "ld.mounted demo_file_fs" "ld.dir_ok demo_file_fs ds"
    "dir_find (linux_contents (dev demo_file_fs)) (strncmp_filename_cmp demo_name) ds = Some (demo_item pos)"
    "ld.file_at demo_file_fs ds (demo_item pos) xs [1, 2, 3]" "handles demo_file_fs = replicate TFS_MAX_FDS zero_handle"
  have h: "length (handles demo_file_fs) = TFS_MAX_FDS" "length [1, 2, 3 :: byte] + 504 < 2 ^ 32"
    "\<exists>h \<in> set (handles demo_file_fs). \<not> usage_count h > 0"
    "\<And>d i. \<forall>h \<in> set (handles demo_file_fs). fh_key h = (d, Some i) \<longrightarrow> \<not> usage_count h > 0"
    by (simp_all add: a(5) zero_handle_def)
  show ?thesis
    using open_read[OF a(1,2) demo_name_nonempty h(1) a(3,4) h(2,3,4), where len = 10 and offset = 1]
    by (elim exE conjE) (intro exI conjI, assumption, simp)
qed

section \<open>Writing through a handle\<close>

text \<open>C17: \<open>tfs_write\<close> through a handle at an offset inside the file or at its end, with enough free blocks for
  what goes beyond it, returns the length.  The file then holds the old bytes with the new ones in their place,
  both for \<open>tfs_read\<close> through the handle and for \<open>tfs_read_file\<close> under the file's name, and every other file
  of the directory is as it was.\<close>

theorem write_through_handle:
  fixes len offset :: u32
  assumes "ld.mounted s" and "ld.dir_ok s ds" and "c_at name 0 \<noteq> 0"
    and lk: "dir_lookup (linux_contents (dev s)) (strncmp_filename_cmp name) ds = Some (d, i)"
    and op: "ld.file_open s fd ds d i xs bs" and "len \<noteq> 0" and "length data = unat len"
    and "unat offset \<le> length bs" and "unat offset + unat len + 504 < 2 ^ 32"
    and "blocks_for (unat offset + unat len) \<le> length xs + card (free_set (linux_contents (dev s)) (blk_count s))"
  defines "new \<equiv> take (unat offset) bs @ data @ drop (unat offset + unat len) bs"
  shows "\<exists>s1 s2 s3. tfs_write linux_platform (int fd) data len offset s = Some (len, s1) \<and> last_error s1 = TFS_ERR_OK \<and>
    tfs_read linux_platform (int fd) n pos s1 =
      Some ((of_nat (length (take (unat n) (drop (unat pos) new))), take (unat n) (drop (unat pos) new)), s2) \<and>
    (\<exists>k. tfs_read_file linux_platform name max_len s1 = Some ((k, take (unat max_len) new), s3)) \<and> last_error s3 = TFS_ERR_OK \<and>
    (\<forall>it ys cs. ld.file_at s ds it ys cs \<longrightarrow> set ys \<inter> set xs = {} \<longrightarrow> ld.file_at s1 ds it ys cs)"
proof (rule ld.write_open_file[OF assms(1,2,5-10)])
  fix s1 zs
  assume a: "tfs_write linux_platform (int fd) data len offset s = Some (len, s1)" "last_error s1 = TFS_ERR_OK" "ld.mounted s1"
    "ld.dir_ok s1 ds" "ld.file_open s1 fd ds d i (xs @ zs) (put_bytes bs (unat offset) data)"
    "\<And>it ys cs. ld.file_at s ds it ys cs \<Longrightarrow> set ys \<inter> set xs = {} \<Longrightarrow> ld.file_at s1 ds it ys cs"
    "\<And>cmp. dir_lookup (linux_contents (dev s)) cmp ds = Some (d, i) \<Longrightarrow>
      dir_find (linux_contents (dev s1)) cmp ds = Some (get_item (linux_contents (dev s1) d) i)"
  have new: "put_bytes bs (unat offset) data = new" "new \<noteq> []" using assms(6,7) by (auto simp: new_def put_bytes_def unat_eq_0)
  note o = ld.file_openD[OF a(5), unfolded new]
  have "unat (fh_size (hnd fd s1)) \<le> 504 * length (xs @ zs)" using o(6,8) by simp
  from ld.tfs_read_spec[OF a(3) o(1,2) this, of n pos, unfolded o(7)]
  obtain s2 where r: "tfs_read linux_platform (int fd) n pos s1 =
      Some ((of_nat (length (take (unat n) (drop (unat pos) new))), take (unat n) (drop (unat pos) new)), s2)" by blast
  have "dir_find (linux_contents (dev s1)) (pf_filename_cmp linux_platform name) ds = Some (get_item (linux_contents (dev s1) d) i)"
    using a(7) lk by simp
  then obtain s3 k where "tfs_read_file linux_platform name max_len s1 = Some ((k, take (unat max_len) new), s3)" "last_error s3 = TFS_ERR_OK"
    using ld.read_file_at[OF a(3,4) assms(3) _ o(5) new(2), of max_len] by metis
  with a(1,2,6) r show ?thesis by blast
qed

text \<open>The demonstration file, opened.\<close>

lemma demo_open:
  obtains fd s0 d i xs ds where "tfs_open linux_platform demo_name demo_file_fs = Some (int fd, s0)" "ld.mounted s0" "ld.dir_ok s0 ds"
    "dir_lookup (linux_contents (dev s0)) (strncmp_filename_cmp demo_name) ds = Some (d, i)" "ld.file_open s0 fd ds d i xs [1, 2, 3]"
proof (rule demo_file)
  fix pos xs ds
  assume a: "ld.mounted demo_file_fs" "ld.dir_ok demo_file_fs ds"
    "dir_find (linux_contents (dev demo_file_fs)) (strncmp_filename_cmp demo_name) ds = Some (demo_item pos)"
    "ld.file_at demo_file_fs ds (demo_item pos) xs [1, 2, 3]" "handles demo_file_fs = replicate TFS_MAX_FDS zero_handle"
  have h: "length (handles demo_file_fs) = TFS_MAX_FDS" "length [1, 2, 3 :: byte] + 504 < 2 ^ 32"
    "\<exists>h \<in> set (handles demo_file_fs). \<not> usage_count h > 0"
    "\<And>d i. \<forall>h \<in> set (handles demo_file_fs). fh_key h = (d, Some i) \<longrightarrow> \<not> usage_count h > 0"
    by (simp_all add: a(5) zero_handle_def)
  show thesis
  proof (rule ld.open_file_open[OF a(1,2) demo_name_nonempty h(1) _ a(4) h(2,3)])
    fix fd s0 d i
    assume "tfs_open linux_platform demo_name demo_file_fs = Some (int fd, s0)" "ld.mounted s0" "ld.dir_ok s0 ds"
      "dir_lookup (linux_contents (dev s0)) (pf_filename_cmp linux_platform demo_name) ds = Some (d, i)" "ld.file_open s0 fd ds d i xs [1, 2, 3]"
    then show thesis using that by simp
  qed (use a(3) h(4) in auto)
qed

lemma write_through_handle_witness:
  "\<exists>fd s0 s1 s2. tfs_open linux_platform demo_name demo_file_fs = Some (int fd, s0) \<and>
    tfs_write linux_platform (int fd) [9, 9] 2 2 s0 = Some (2, s1) \<and>
    tfs_read linux_platform (int fd) 10 0 s1 = Some ((4, [1, 2, 9, 9]), s2)"
proof (rule demo_open)
  fix fd s0 d i xs ds
  assume o: "tfs_open linux_platform demo_name demo_file_fs = Some (int fd, s0)" "ld.mounted s0" "ld.dir_ok s0 ds"
    "dir_lookup (linux_contents (dev s0)) (strncmp_filename_cmp demo_name) ds = Some (d, i)" "ld.file_open s0 fd ds d i xs [1, 2, 3]"
  have "length xs = 1" using ld.file_openD(9)[OF o(5)] by simp
  then have "\<exists>s1 s2. tfs_write linux_platform (int fd) [9, 9] 2 2 s0 = Some (2, s1) \<and>
    tfs_read linux_platform (int fd) 10 0 s1 = Some ((4, [1, 2, 9, 9]), s2)"
    using write_through_handle[OF o(2,3) demo_name_nonempty o(4,5), of 2 "[9, 9]" 2 10 0 0] by auto
  with o(1) show ?thesis by blast
qed

section \<open>Truncating through a handle\<close>

text \<open>C29: \<open>tfs_trunc\<close> to a position inside the file gives back exactly the blocks behind the one that holds the
  position (all of them for 0), keeps the bytes of the others and leaves the other files alone; but the
  size in the directory entry and in the handle stays what it was, although the bytes are gone.\<close>

theorem trunc_keeps_size:
  assumes "ld.mounted s" and "ld.dir_ok s ds" and "ld.file_open s fd ds d i xs bs" and "sz = 0 \<or> unat sz div 504 < length xs"
  defines "ys \<equiv> (if sz = 0 then [] else take (Suc (unat sz div 504)) xs)"
  shows "\<exists>s1. tfs_trunc linux_platform (int fd) sz s = Some s1 \<and> last_error s1 = TFS_ERR_OK \<and> ld.dir_ok s1 ds \<and>
    (\<forall>n. blk_used (linux_contents (dev s1)) n \<longleftrightarrow> blk_used (linux_contents (dev s)) n \<and> n \<notin> set (drop (length ys) xs)) \<and>
    chain (linux_contents (dev s1)) (item_blk (linux_contents (dev s1) d) i) ys \<and>
    chain_data (linux_contents (dev s1)) ys = take (504 * length ys) (chain_data (linux_contents (dev s)) xs) \<and>
    unat (item_size (linux_contents (dev s1) d) i) = length bs \<and> unat (fh_size (hnd fd s1)) = length bs \<and>
    (\<forall>it zs cs. ld.file_at s ds it zs cs \<longrightarrow> set zs \<inter> set xs = {} \<longrightarrow> ld.file_at s1 ds it zs cs)"
proof (rule ld.trunc_open_file[OF assms(1-4)])
  note o = ld.file_openD[OF assms(3)]
  fix s1
  assume a: "tfs_trunc linux_platform (int fd) sz s = Some s1" "last_error s1 = TFS_ERR_OK" "ld.dir_ok s1 ds"
    "ld.handle_on s1 fd (if sz = 0 then [] else take (Suc (unat sz div 504)) xs)" "fh_size (hnd fd s1) = fh_size (hnd fd s)"
    "chain_data (linux_contents (dev s1)) (if sz = 0 then [] else take (Suc (unat sz div 504)) xs) =
      take (504 * length (if sz = 0 then [] else take (Suc (unat sz div 504)) xs)) (chain_data (linux_contents (dev s)) xs)"
    "\<And>n. blk_used (linux_contents (dev s1)) n \<longleftrightarrow> blk_used (linux_contents (dev s)) n \<and>
      n \<notin> set (drop (length (if sz = 0 then [] else take (Suc (unat sz div 504)) xs)) xs)"
    "get_item (linux_contents (dev s1) d) i = (get_item (linux_contents (dev s) d) i)
      \<lparr>it_blk := if (if sz = 0 then [] else take (Suc (unat sz div 504)) xs) = [] then 0
        else hd (if sz = 0 then [] else take (Suc (unat sz div 504)) xs)\<rparr>"
    "\<And>it zs cs. ld.file_at s ds it zs cs \<Longrightarrow> set zs \<inter> set xs = {} \<Longrightarrow> ld.file_at s1 ds it zs cs"
  note b = a[folded ys_def]
  have "item_size (linux_contents (dev s) d) i = fh_size (hnd fd s)" using o(3) by (simp add: ld.entry_on_def)
  then have "item_blk (linux_contents (dev s1) d) i = (if ys = [] then 0 else hd ys)"
    "item_size (linux_contents (dev s1) d) i = fh_size (hnd fd s)"
    using b(8) by (simp_all add: get_item_def)
  moreover have "chain (linux_contents (dev s1)) (if ys = [] then 0 else hd ys) ys"
    using b(4) ld.first_of_chain[of "linux_contents (dev s1)" "first_blk (hnd fd s1)" ys] by (simp add: ld.handle_on_def)
  ultimately show ?thesis using b o(6) by (intro exI[of _ s1]) simp
qed

lemma trunc_keeps_size_witness:
  "\<exists>fd d i s0 s1. tfs_open linux_platform demo_name demo_file_fs = Some (int fd, s0) \<and>
    tfs_trunc linux_platform (int fd) 0 s0 = Some s1 \<and> last_error s1 = TFS_ERR_OK \<and>
    item_blk (linux_contents (dev s1) d) i = 0 \<and> unat (item_size (linux_contents (dev s1) d) i) = 3"
proof (rule demo_open)
  fix fd s0 d i xs ds
  assume o: "tfs_open linux_platform demo_name demo_file_fs = Some (int fd, s0)" "ld.mounted s0" "ld.dir_ok s0 ds"
    "ld.file_open s0 fd ds d i xs [1, 2, 3]"
  have "\<exists>s1. tfs_trunc linux_platform (int fd) 0 s0 = Some s1 \<and> last_error s1 = TFS_ERR_OK \<and>
    item_blk (linux_contents (dev s1) d) i = 0 \<and> unat (item_size (linux_contents (dev s1) d) i) = 3"
    using trunc_keeps_size[OF o(2-4), of 0] by auto
  with o(1) show ?thesis by blast
qed

section \<open>The handle table\<close>

text \<open>C22: a handle remembers the directory block and the slot of its file, and nothing tells it when the file moves.
  File \<open>b\<close> in the second block of a directory is opened, and \<open>tfs_delete\<close> refuses to delete it.  Then \<open>a\<close>, the only entry of
  the first block, is deleted, and \<open>write_dir_cleanup\<close> moves the second block into the place of the first.  Now
  \<open>tfs_delete\<close> of \<open>b\<close> succeeds and frees its blocks, while the handle is still in use.\<close>

theorem open_file_deleted:
  assumes "ld.mounted s" and "ld.dir_ok s (d # e # ds)" and "c_at a 0 \<noteq> 0" and "c_at b 0 \<noteq> 0"
    and "dir_lookup (linux_contents (dev s)) (strncmp_filename_cmp a) (d # e # ds) = Some (d, i)"
    and "\<forall>k < TFS_DIR_BLK_ITEMS. k \<noteq> i \<longrightarrow> item_type (linux_contents (dev s) d) k = TFS_DIR_ITEM_FREE"
    and "dir_lookup (linux_contents (dev s)) (strncmp_filename_cmp b) (d # e # ds) = Some (e, j)"
    and "ld.file_at s (d # e # ds) (get_item (linux_contents (dev s) d) i) ys old"
    and "ld.file_at s (d # e # ds) (get_item (linux_contents (dev s) e) j) xs bs" and "set xs \<inter> set ys = {}"
    and "length bs + 504 < 2 ^ 32" and "length (handles s) = TFS_MAX_FDS" and "\<forall>h \<in> set (handles s). usage_count h = 0"
  shows "\<exists>fd s0 s1 s2 s3. tfs_open linux_platform b s = Some (int fd, s0) \<and>
    tfs_delete linux_platform b TFS_DIR_ITEM_FILE s0 = Some s1 \<and> last_error s1 = TFS_FILE_BUSY \<and>
    tfs_delete linux_platform a TFS_DIR_ITEM_FILE s1 = Some s2 \<and> last_error s2 = TFS_ERR_OK \<and>
    tfs_delete linux_platform b TFS_DIR_ITEM_FILE s2 = Some s3 \<and> last_error s3 = TFS_ERR_OK \<and>
    valid_fd (int fd) s3 \<and> (\<forall>n \<in> set xs. \<not> blk_used (linux_contents (dev s3)) n)"
proof -
  let ?C = "linux_contents (dev s)" and ?ds = "d # e # ds"
  have "chain ?C (current_dir_blk s) ?ds" using assms(2) by (simp only: ld.dir_ok_def)
  from chain_distinct[OF this] have dist: "e \<noteq> d" by auto
  obtain s0 where o: "tfs_open linux_platform b s = Some (int 0, s0)" "ld.mounted s0" "linux_contents (dev s0) = ?C"
    "drive_info s0 = drive_info s" "current_dir_blk s0 = current_dir_blk s" "valid_fd (int 0) s0" "usage_at (handles s0) e j > 0"
    "\<forall>d i. (d, i) \<noteq> (e, j) \<longrightarrow> usage_at (handles s0) d i = 0"
    by (rule open_only_handle[OF assms(1,2,4,7,9,11-13)])
  have keep: "ld.dir_ok t ?ds" "ld.file_at t ?ds it zs cs \<longleftrightarrow> ld.file_at s ?ds it zs cs"
    if "linux_contents (dev t) = ?C" "drive_info t = drive_info s" "current_dir_blk t = current_dir_blk s" for t it zs cs
    using that assms(2) by (simp_all add: ld.dir_ok_def ld.file_at_def)
  note k0 = keep[OF o(3-5)]
  obtain s1 where s1: "tfs_delete linux_platform b TFS_DIR_ITEM_FILE s0 = Some s1" "last_error s1 = TFS_FILE_BUSY" "ld.mounted s1"
    "fs_frame s0 s1" "linux_contents (dev s1) = linux_contents (dev s0)"
    by (rule ld.delete_open_file[OF o(2) k0(1) assms(4), of e j xs bs TFS_DIR_ITEM_FILE]) (use o(3,7) k0(2) assms(7,9) in simp_all)
  note f1 = fs_frameD[OF s1(4)]
  have c1: "linux_contents (dev s1) = ?C" using s1(5) o(3) by simp
  have k1: "drive_info s1 = drive_info s" "current_dir_blk s1 = current_dir_blk s" "handles s1 = handles s0" using s1(4) o(4,5) by (simp_all add: fs_frame_def)
  note k1' = keep[OF c1 k1(1,2)]
  obtain s2 where s2: "tfs_delete linux_platform a TFS_DIR_ITEM_FILE s1 = Some s2" "last_error s2 = TFS_ERR_OK" "ld.mounted s2"
    "ld.dir_ok s2 (d # ds)" "e \<notin> set (d # ds)" "handles s2 = handles s1"
    "dir_find (linux_contents (dev s2)) (strncmp_filename_cmp b) (d # ds) = Some (get_item (?C e) j)"
    "ld.file_at s2 (d # ds) (get_item (?C e) j) xs bs"
  proof (rule delete_first_entry[OF s1(3) k1'(1) assms(3), of i b j ys old xs bs])
    show "usage_at (handles s1) d i = 0" using o(8) dist by (simp add: k1(3))
  qed (use assms(5-10) k1'(2) in \<open>simp_all add: c1\<close>)
  obtain d2 j2 where l2: "dir_lookup (linux_contents (dev s2)) (strncmp_filename_cmp b) (d # ds) = Some (d2, j2)"
    "get_item (linux_contents (dev s2) d2) j2 = get_item (?C e) j" using s2(7) by (auto simp: dir_find_def slot_item_def)
  have "d2 \<noteq> e" using dir_lookup_SomeD(1)[OF l2(1)] s2(5) by auto
  then have u2: "usage_at (handles s2) d2 j2 = 0" using o(8) by (simp add: s2(6) k1(3))
  obtain s3 ds3 where s3: "tfs_delete linux_platform b TFS_DIR_ITEM_FILE s2 = Some s3" "last_error s3 = TFS_ERR_OK"
    "ld.removed s2 s3 (d # ds) ds3 (pf_filename_cmp linux_platform b) (get_item (linux_contents (dev s2) d2) j2) (set xs)"
    by (rule ld.delete_closed_file[OF s2(3,4) assms(4), of d2 j2 xs bs TFS_DIR_ITEM_FILE]) (use l2 s2(8) u2 in simp_all)
  have "handles s3 = handles s0" "\<forall>n \<in> set xs. \<not> blk_used (linux_contents (dev s3)) n"
    using s3(3) s2(6) k1(3) by (simp_all add: ld.removed_def fs_frame_def)
  with o(1,6) s1(1,2) s2(1,2) s3(1,2) show ?thesis by (intro exI conjI) (assumption | simp add: valid_fd_def hnd_def)+
qed

lemma open_file_deleted_witness:
  "\<exists>fd s0 s1 s2 s3. tfs_open linux_platform demo_other two_fs = Some (int fd, s0) \<and>
    tfs_delete linux_platform demo_other TFS_DIR_ITEM_FILE s0 = Some s1 \<and> last_error s1 = TFS_FILE_BUSY \<and>
    tfs_delete linux_platform demo_name TFS_DIR_ITEM_FILE s1 = Some s2 \<and>
    tfs_delete linux_platform demo_other TFS_DIR_ITEM_FILE s2 = Some s3 \<and> last_error s3 = TFS_ERR_OK \<and>
    valid_fd (int fd) s3 \<and> \<not> blk_used (linux_contents (dev s3)) 3"
proof -
  have d: "dev two_fs = two_dev" "length (handles two_fs) = TFS_MAX_FDS" "\<forall>h \<in> set (handles two_fs). usage_count h = 0"
    by (simp_all add: two_fs_def zero_handle_def)
  have "\<forall>k < TFS_DIR_BLK_ITEMS. k \<noteq> 0 \<longrightarrow> item_type (linux_contents two_dev 1) k = TFS_DIR_ITEM_FREE" using two_free by simp
  from open_file_deleted[OF two_mounted two_dir_ok demo_name_nonempty demo_other_nonempty, unfolded d(1), OF two_lookup(1) this
      two_lookup(2) two_files _ _ d(2,3)]
  show ?thesis by auto
qed

text \<open>C23: a file opened again shares its handle, and the count of the handle is a byte: the 256th open of
  a file brings it to 0, so that the file counts as closed although 256 descriptors are in use.\<close>

theorem open_again_shares:
  assumes "ld.mounted s" and "ld.dir_ok s ds" and "c_at name 0 \<noteq> 0" and "handles_ok (handles s)"
    and lk: "dir_lookup (linux_contents (dev s)) (strncmp_filename_cmp name) ds = Some (d, i)"
    and "item_type (linux_contents (dev s) d) i = TFS_DIR_ITEM_FILE"
    and fd: "fd < length (handles s)" "fh_key (handles s ! fd) = (d, Some i)" "usage_count (handles s ! fd) > 0"
  shows "\<exists>s1. tfs_open linux_platform name s = Some (int fd, s1) \<and> last_error s1 = TFS_ERR_OK \<and>
    handles s1 = (handles s)[fd := (handles s ! fd)\<lparr>usage_count := usage_count (handles s ! fd) + 1\<rparr>] \<and>
    (usage_count (handles s ! fd) = 255 \<longrightarrow> \<not> valid_fd (int fd) s1)"
proof -
  note live = live_fd[OF assms(4) fd]
  show ?thesis using assms(1-3)
  proof (cases rule: ld.open_cases)
    case (missing s')
    with lk assms(6) show ?thesis by auto
  next
    case (again d' i' fd' s1)
    then have "fd' = fd" using lk live by simp
    moreover have "handles s1 = handles s" using fs_frameD[OF again(6)] by simp
    ultimately show ?thesis using again(4) ld.readyD(3)[OF again(5)]
      by (intro exI[of _ "drive_deselect linux_platform (upd_hnd fd (\<lambda>h. h\<lparr>usage_count := usage_count h + 1\<rparr>) s1)"])
        (auto simp: upd_hnd_def valid_fd_def hnd_def fd(1))
  next
    case (none_left d' i' s')
    with lk live show ?thesis by simp
  next
    case (fresh d' i' fd' s1)
    with lk live show ?thesis by simp
  qed
qed

lemma open_again_shares_witness:
  "\<exists>d i s1. tfs_open linux_platform demo_name
      (demo_file_fs\<lparr>handles := [zero_handle\<lparr>usage_count := 255, dir_blk := d, dir_item := Some i\<rparr>]\<rparr>) = Some (0, s1) \<and>
    \<not> valid_fd 0 s1"
proof (rule demo_slot)
  fix pos xs ds d i
  assume a: "ld.mounted demo_file_fs" "ld.dir_ok demo_file_fs ds"
    "dir_lookup (linux_contents (dev demo_file_fs)) (strncmp_filename_cmp demo_name) ds = Some (d, i)"
    "get_item (linux_contents (dev demo_file_fs) d) i = demo_item pos"
  let ?s = "demo_file_fs\<lparr>handles := [zero_handle\<lparr>usage_count := 255, dir_blk := d, dir_item := Some i\<rparr>]\<rparr>"
  have h: "ld.mounted ?s" "ld.dir_ok ?s ds" "handles_ok (handles ?s)"
    "dir_lookup (linux_contents (dev ?s)) (strncmp_filename_cmp demo_name) ds = Some (d, i)"
    "item_type (linux_contents (dev ?s) d) i = TFS_DIR_ITEM_FILE"
    "0 < length (handles ?s)" "fh_key (handles ?s ! 0) = (d, Some i)" "usage_count (handles ?s ! 0) > 0"
    using a by (simp_all add: ld.dir_ok_def handles_ok_def fh_key_def get_item_def)
  have "usage_count (handles ?s ! 0) = 255" by simp
  with open_again_shares[OF h(1,2) demo_name_nonempty h(3-8)] show ?thesis by (auto simp del: One_nat_def)
qed

end
