(* ===== verification/Decimal.thy ===== *)
theory Decimal
  imports Prelude
begin

text \<open>
  Decimal numerals as the programs print them.  \<open>decimal\<close> is the reference, the digits of a number
  without leading zeros; \<open>digits k\<close> is a numeral of fixed length, which the loops of the front ends
  produce from the left.
\<close>

definition digit :: "nat \<Rightarrow> byte" where
  "digit d = of_nat (48 + d)"

fun decimal :: "nat \<Rightarrow> byte list" where
  "decimal n = (if n < 10 then [digit n] else decimal (n div 10) @ [digit (n mod 10)])"

declare decimal.simps [simp del]

fun digits :: "nat \<Rightarrow> nat \<Rightarrow> byte list" where
  "digits 0 n = []"
| "digits (Suc k) n = digit (n div 10 ^ k) # digits k (n mod 10 ^ k)"

lemma length_digits [simp]: "length (digits k n) = k"
  by (induction k arbitrary: n) simp_all

lemma digits_snoc: "digits (Suc k) n = digits k (n div 10) @ [digit (n mod 10)]" if "n < 10 ^ Suc k"
  using that
proof (induction k arbitrary: n)
  case (Suc k)
  have "n div 10 div 10 ^ k = n div 10 ^ Suc k" by (simp add: div_mult2_eq)
  moreover have "n mod 10 ^ Suc k div 10 = n div 10 mod 10 ^ k" "n mod 10 ^ Suc k mod 10 = n mod 10"
    by (simp_all add: mod_mult2_eq mod_mod_cancel)
  moreover have "n mod 10 ^ Suc k < 10 ^ Suc k" by simp
  ultimately show ?case
    using Suc.IH[of "n mod 10 ^ Suc k"] by (subst digits.simps(2)) (simp del: digits.simps(2) add: digits.simps(2)[of k "n div 10"])
qed simp

text \<open>A number with \<open>k + 1\<close> digits.\<close>

lemma decimal_digits:
  "n < 10 ^ Suc k \<Longrightarrow> k = 0 \<or> 10 ^ k \<le> n \<Longrightarrow> decimal n = digits (Suc k) n"
proof (induction k arbitrary: n)
  case 0
  then show ?case by (simp add: decimal.simps)
next
  case (Suc k)
  then have big: "10 ^ Suc k \<le> n" by simp
  have "(1 :: nat) \<le> 10 ^ k" by simp
  with big have "\<not> n < 10" unfolding power_Suc by linarith
  have "n div 10 < 10 ^ Suc k" using Suc.prems(1) by (simp add: less_mult_imp_div_less)
  have "10 ^ k \<le> n div 10" using big by (simp add: less_eq_div_iff_mult_less_eq)
  show ?case using \<open>\<not> n < 10\<close> \<open>n div 10 < 10 ^ Suc k\<close> \<open>10 ^ k \<le> n div 10\<close> Suc.IH[of "n div 10"] digits_snoc[OF Suc.prems(1)] by (subst decimal.simps) (simp del: digits.simps)
qed

lemma length_decimal_le: "n < 10 ^ Suc k \<Longrightarrow> length (decimal n) \<le> Suc k"
proof (induction k arbitrary: n)
  case (Suc k)
  show ?case
  proof (cases "10 ^ Suc k \<le> n")
    case True
    with Suc.prems show ?thesis using decimal_digits[of n "Suc k"] by (simp del: digits.simps)
  next
    case False
    with Suc.IH[of n] show ?thesis by simp
  qed
qed (simp add: decimal.simps)

text \<open>A numeral is text: no NUL and no newline in it.\<close>

lemma digit_text: "d < 10 \<Longrightarrow> digit d \<noteq> 0 \<and> digit d \<noteq> 0x0A"
proof -
  assume "d < 10"
  then have "d \<in> {0, 1, 2, 3, 4, 5, 6, 7, 8, 9}" by auto
  then show ?thesis by (auto simp: digit_def)
qed

lemma decimal_text: "0 \<notin> set (decimal n)" "decimal n \<noteq> []"
proof -
  show "0 \<notin> set (decimal n)"
  proof (induction n rule: decimal.induct)
    case (1 n)
    then show ?case using digit_text[of n] digit_text[of "n mod 10"] by (subst decimal.simps) auto
  qed
  show "decimal n \<noteq> []" by (subst decimal.simps) simp
qed

end
