(* ===== verification/Mktfs.thy ===== *)
theory Mktfs
  imports Linux_Drive Format Decimal
begin

text \<open>\<open>linux/mktfs.c\<close>: the program that formats a disk image, and what it prints.\<close>

section \<open>The callbacks\<close>

definition tfs_format_state :: "byte \<Rightarrow> byte list" where
  "tfs_format_state st =
     (if st = TFS_FORMAT_STATE_START then ascii ''formating disk, please wait...'' @ [10]
      else if st = TFS_FORMAT_STATE_BITMAP_START then ascii ''writing bitmap-blocks:'' @ [10]
      else if st = TFS_FORMAT_STATE_BITMAP_DONE then [10]
      else if st = TFS_FORMAT_STATE_ROOTDIR then ascii ''creating root-directory.'' @ [10]
      else if st = TFS_FORMAT_STATE_DONE then ascii ''DONE!'' @ [10]
      else [])"

definition tfs_format_progress :: "u32 \<Rightarrow> u32 \<Rightarrow> byte list" where
  "tfs_format_progress pos mx = ascii ''  '' @ decimal (unat pos) @ ascii ''/'' @ decimal (unat mx) @ [13]"

text \<open>What the calls recorded in \<open>callbacks\<close> print.\<close>

fun printed :: "format_event list \<Rightarrow> byte list" where
  "printed [] = []"
| "printed (FormatState st # es) = tfs_format_state st @ printed es"
| "printed (FormatProgress pos mx # es) = tfs_format_progress pos mx @ printed es"

section \<open>main\<close>

text \<open>\<open>argv\<close> is the list of the arguments, the name of the program first.  The result is the exit code.\<close>

definition mktfs_main :: "byte list list \<Rightarrow> linux_dev fs \<Rightarrow> (int \<times> linux_dev fs) option" where
  "mktfs_main argv s =
     (if length argv \<noteq> 2 then Some (1, s)
      else case drive_open (dev s) of (r, d) \<Rightarrow>
        let s = s\<lparr>dev := d\<rparr>
        in if r < 0 then Some (1, s)
           else do {
             s \<leftarrow> tfs_format linux_platform (tfs_init linux_platform s);
             let ret = (if check_error (last_error s) \<noteq> 0 then 1 else 0)
             in Some (ret, s\<lparr>dev := snd (drive_close (dev s))\<rparr>)
           })"

section \<open>An image file stays the file it is\<close>

text \<open>The contract of the drive on a regular file of \<open>z\<close> bytes.\<close>

definition image_ok :: "nat \<Rightarrow> drive_info \<Rightarrow> linux_dev \<Rightarrow> bool" where
  "image_ok z di d \<longleftrightarrow> linux_ok di d \<and> ld_mode d = S_IFREG \<and> ld_size d = z"

interpretation img: block_device linux_platform linux_contents "image_ok z" for z
proof unfold_locales
  fix di d and n :: u32 and buf :: block
  assume a: "image_ok z di d" "n < di_blk_count di" "length buf = TFS_BLOCKSIZE"
  then have l: "linux_ok di d" by (simp add: image_ok_def)
  note r = linux_read_block_ok[OF l a(2,3)] and w = linux_write_block_ok[OF l a(2,3)]
  show "snd (pf_read linux_platform di n buf d) = (linux_contents d n, None)"
    "linux_contents (fst (pf_read linux_platform di n buf d)) = linux_contents d"
    "snd (pf_write linux_platform di n buf d) = None"
    "linux_contents (fst (pf_write linux_platform di n buf d)) = (linux_contents d)(n := buf)"
    using l a(2,3) ld.pf_read_ok ld.pf_read_dev ld.pf_write_ok ld.pf_write_dev by simp_all
  show "image_ok z di (fst (pf_read linux_platform di n buf d))"
    using a(1) by (simp add: r image_ok_def linux_ok_def)
  show "image_ok z di (fst (pf_write linux_platform di n buf d))"
    using a(1) by (simp add: w Let_def image_ok_def linux_ok_def)
qed (simp_all add: linux_drive_select_def linux_drive_deselect_def)

lemma init_image:
  assumes "ld_outcomes (dev s) = []" and "ld_mode (dev s) = S_IFREG"
    and "0 < ld_size (dev s) div TFS_BLOCKSIZE" and "ld_size (dev s) div TFS_BLOCKSIZE < 2 ^ 32"
  obtains d di where "pf_init linux_platform (drive_info s) (dev s) = (d, di, TFS_ERR_OK)" "image_ok (ld_size (dev s)) di d"
    "linux_contents d = linux_contents (dev s)" "unat (di_blk_count di) = ld_size (dev s) div TFS_BLOCKSIZE" "0 < di_blk_count di"
proof -
  have u: "unat (of_nat (ld_size (dev s) div TFS_BLOCKSIZE) :: u32) = ld_size (dev s) div TFS_BLOCKSIZE"
    using assms(4) by (simp add: unat_of_nat take_bit_nat_eq_self)
  let ?r = "linux_drive_init (drive_info s) (dev s)"
  show thesis
  proof (rule that)
    show "pf_init linux_platform (drive_info s) (dev s) = (fst ?r, fst (snd ?r), TFS_ERR_OK)"
      "image_ok (ld_size (dev s)) (fst (snd ?r)) (fst ?r)" "linux_contents (fst ?r) = linux_contents (dev s)"
      "unat (di_blk_count (fst (snd ?r))) = ld_size (dev s) div TFS_BLOCKSIZE" "0 < di_blk_count (fst (snd ?r))"
      using assms u by (simp_all add: linux_drive_init_def Let_def image_ok_def linux_ok_def sys_step_def fun_eq_iff
        linux_contents_def word_less_nat_alt)
  qed
qed

end
