(* ===== verification/Tool_Props.thy ===== *)
theory Tool_Props
  imports Mktfs Demo Cleanup
begin

text \<open>What the program \<open>mktfs\<close> does to an image file.\<close>

text \<open>A run of the program, and the image it leaves behind.\<close>

lemma mktfs_run:
  assumes argv: "length argv = 2" and "ld_outcomes (dev s) = []" and "ld_mode (dev s) = S_IFREG"
    and sz: "2 \<le> ld_size (dev s) div TFS_BLOCKSIZE" "ld_size (dev s) div TFS_BLOCKSIZE < 2 ^ 32"
    and "length (blk_buf s) = TFS_BLOCKSIZE" and "length (bitmap_blk s) = TFS_BLOCKSIZE"
  obtains s3 where "mktfs_main argv s = Some (0, s3)" "ld_outcomes (dev s3) = []" "ld_mode (dev s3) = S_IFREG"
    "ld_size (dev s3) = ld_size (dev s)" "length (blk_buf s3) = TFS_BLOCKSIZE" "length (bitmap_blk s3) = TFS_BLOCKSIZE"
    "linux_contents (dev s3) 1 = replicate TFS_BLOCKSIZE 0"
    "\<forall>n. unat n < ld_size (dev s) div TFS_BLOCKSIZE \<longrightarrow> (blk_used (linux_contents (dev s3)) n \<longleftrightarrow> is_bitmap_blk n \<or> n = 1)"
proof -
  define d where "d = (sys_step (dev s))\<lparr>ld_pos := 0\<rparr>"
  define z where "z = ld_size (dev s)"
  have d: "ld_outcomes d = []" "ld_mode d = S_IFREG" "ld_size d = z"
    using assms(2,3) by (simp_all add: d_def z_def sys_step_def)
  let ?s = "s\<lparr>dev := d\<rparr>"
  have h: "ld_outcomes (dev ?s) = []" "ld_mode (dev ?s) = S_IFREG" "0 < ld_size (dev ?s) div TFS_BLOCKSIZE"
    "ld_size (dev ?s) div TFS_BLOCKSIZE < 2 ^ 32" using d sz by (simp_all add: z_def)
  obtain d' di where i: "pf_init linux_platform (drive_info ?s) (dev ?s) = (d', di, TFS_ERR_OK)" "image_ok z di d'"
    "linux_contents d' = linux_contents (dev ?s)" "unat (di_blk_count di) = z div TFS_BLOCKSIZE" "0 < di_blk_count di"
    by (rule init_image[OF h]) (simp add: d(3))
  have b: "length (blk_buf ?s) = TFS_BLOCKSIZE" "length (bitmap_blk ?s) = TFS_BLOCKSIZE" using assms(6,7) by simp_all
  have sel: "image_ok z di (pf_select linux_platform d')" using i(2) by simp
  note t = img.init_io[OF b i(1) sel i(5)]
  have c2: "2 \<le> blk_count (tfs_init linux_platform ?s)" using sz(1) i(4) by (simp add: t(5) word_le_nat_alt z_def)
  have ne: "last_error (tfs_init linux_platform ?s) \<noteq> TFS_ERR_NO_DEV" by (simp add: t(2))
  obtain s2 where f: "tfs_format linux_platform (tfs_init linux_platform ?s) = Some s2" "img.mounted z s2" "last_error s2 = TFS_ERR_OK"
    "format_frame (tfs_init linux_platform ?s) s2" "linux_contents (dev s2) 1 = replicate TFS_BLOCKSIZE 0"
    "\<forall>n < blk_count (tfs_init linux_platform ?s). blk_used (linux_contents (dev s2)) n \<longleftrightarrow> is_bitmap_blk n \<or> n = 1"
    using img.format_spec[OF t(1) ne t(3) c2] by blast
  have io2: "img.io_ok z s2" using f(2) by (simp add: img.mounted_def)
  then have ok2: "image_ok z (drive_info s2) (dev s2)" "length (blk_buf s2) = TFS_BLOCKSIZE" "length (bitmap_blk s2) = TFS_BLOCKSIZE"
    by (simp_all add: img.io_ok_def del: img.io_ok_lengths)
  define s3 where "s3 = s2\<lparr>dev := snd (drive_close (dev s2))\<rparr>"
  have cl: "dev s3 = sys_step (dev s2)" by (simp add: s3_def drive_close_def)
  have d3: "linux_contents (dev s3) = linux_contents (dev s2)" "ld_outcomes (dev s3) = []" "ld_mode (dev s3) = S_IFREG"
    "ld_size (dev s3) = z"
    using ok2(1) by (simp_all add: cl sys_step_def fun_eq_iff linux_contents_def image_ok_def linux_ok_def)
  have main: "mktfs_main argv s = Some (0, s3)"
    using argv assms(2) f(1,3) by (simp add: mktfs_main_def drive_open_def Let_def check_error_def s3_def flip: d_def)
  have "length (blk_buf s3) = TFS_BLOCKSIZE" "length (bitmap_blk s3) = TFS_BLOCKSIZE" using ok2 by (simp_all add: s3_def)
  moreover have "blk_used (linux_contents (dev s3)) n \<longleftrightarrow> is_bitmap_blk n \<or> n = 1" if "unat n < ld_size (dev s) div TFS_BLOCKSIZE" for n
    using f(6) that by (simp add: d3(1) t(5) word_less_nat_alt i(4) z_def)
  moreover have "linux_contents (dev s3) 1 = replicate TFS_BLOCKSIZE 0" by (simp add: d3(1) f(5))
  ultimately show thesis using main d3 by (intro that[of s3]) (simp_all add: z_def)
qed

text \<open>C24: on an image file of at least two blocks, without faults, \<open>mktfs\<close> ends with exit code 0, and the image
  then mounts as an empty file system: the root directory has no entry, and only the bitmap blocks and
  the root directory are in use.\<close>

theorem mktfs_makes_empty_volume:
  assumes argv: "length argv = 2" and "ld_outcomes (dev s) = []" and "ld_mode (dev s) = S_IFREG"
    and sz: "2 \<le> ld_size (dev s) div TFS_BLOCKSIZE" "ld_size (dev s) div TFS_BLOCKSIZE < 2 ^ 32"
    and "length (blk_buf s) = TFS_BLOCKSIZE" and "length (bitmap_blk s) = TFS_BLOCKSIZE"
  shows "\<exists>s1. mktfs_main argv s = Some (0, s1) \<and>
    (let t = tfs_init linux_platform s1 in ld.mounted t \<and> last_error t = TFS_ERR_OK \<and> ld.dir_ok t [1] \<and>
       unat (blk_count t) = ld_size (dev s) div TFS_BLOCKSIZE \<and> dir_items (linux_contents (dev t)) [1] = [] \<and>
       (\<forall>n < blk_count t. blk_used (linux_contents (dev t)) n \<longleftrightarrow> is_bitmap_blk n \<or> n = 1))"
proof -
  obtain s3 where s3: "mktfs_main argv s = Some (0, s3)" "ld_outcomes (dev s3) = []" "ld_mode (dev s3) = S_IFREG"
    "ld_size (dev s3) = ld_size (dev s)" "length (blk_buf s3) = TFS_BLOCKSIZE" "length (bitmap_blk s3) = TFS_BLOCKSIZE"
    "linux_contents (dev s3) 1 = replicate TFS_BLOCKSIZE 0"
    "\<forall>n. unat n < ld_size (dev s) div TFS_BLOCKSIZE \<longrightarrow> (blk_used (linux_contents (dev s3)) n \<longleftrightarrow> is_bitmap_blk n \<or> n = 1)"
    by (rule mktfs_run[OF assms]) blast
  have h3: "0 < ld_size (dev s3) div TFS_BLOCKSIZE" "ld_size (dev s3) div TFS_BLOCKSIZE < 2 ^ 32" using sz by (simp_all add: s3(4))
  obtain d4 di4 where j: "pf_init linux_platform (drive_info s3) (dev s3) = (d4, di4, TFS_ERR_OK)" "image_ok (ld_size (dev s3)) di4 d4"
    "linux_contents d4 = linux_contents (dev s3)" "unat (di_blk_count di4) = ld_size (dev s3) div TFS_BLOCKSIZE" "0 < di_blk_count di4"
    by (rule init_image[OF s3(2,3) h3])
  have used: "\<forall>n < di_blk_count di4. blk_used (linux_contents d4) n \<longleftrightarrow> is_bitmap_blk n \<or> n = 1"
    using s3(8) by (simp add: j(3,4) word_less_nat_alt s3(4))
  have "linux_ok di4 (pf_select linux_platform d4)" using j(2) by (simp add: image_ok_def)
  note m = ld.init_spec[OF s3(5,6) j(1) this j(5)]
  let ?t = "tfs_init linux_platform s3"
  have "\<forall>n. is_bitmap_blk n \<longrightarrow> n < di_blk_count di4 \<longrightarrow> blk_used (linux_contents d4) n" using used by simp
  note m = m[OF this]
  have one: "linux_contents (dev ?t) 1 = replicate TFS_BLOCKSIZE 0" by (simp add: m(4) j(3) s3(7))
  have lt: "1 < di_blk_count di4" using sz(1) j(4) by (simp add: word_less_nat_alt s3(4))
  have "ld.dir_ok ?t [1]" using used lt one by (simp add: ld.dir_ok_def m(4-6) owned_def is_bitmap_iff)
  moreover have "dir_items (linux_contents (dev ?t)) [1] = []"
    by (simp add: dir_items_def block_items_def get_item_def one filter_empty_conv)
  ultimately show ?thesis
    unfolding s3(1) Let_def using m(1,2) used j(4) m(4,5)
    by (intro exI[of _ s3] conjI) (simp_all add: s3(4))
qed

lemma mktfs_makes_empty_volume_witness:
  "\<exists>s1. mktfs_main [ascii ''mktfs'', ascii ''image''] demo_fs = Some (0, s1) \<and> ld.mounted (tfs_init linux_platform s1)"
proof -
  have "length [ascii ''mktfs'', ascii ''image''] = 2" "ld_outcomes (dev demo_fs) = []" "ld_mode (dev demo_fs) = S_IFREG"
    "2 \<le> ld_size (dev demo_fs) div TFS_BLOCKSIZE" "ld_size (dev demo_fs) div TFS_BLOCKSIZE < 2 ^ 32"
    "length (blk_buf demo_fs) = TFS_BLOCKSIZE" "length (bitmap_blk demo_fs) = TFS_BLOCKSIZE"
    by (simp_all add: demo_dev_def)
  from mktfs_makes_empty_volume[OF this] show ?thesis by (auto simp: Let_def)
qed

end
