(* ===== verification/Fuse.thy ===== *)
theory Fuse
  imports Linux_Drive Handles
begin

text \<open>
  \<open>linux/tfs_fuse.c\<close>: the FUSE file system over the extended interface.  A path is the list of its
  characters without the NUL.  Three things come from outside the repository and are arguments: whether
  \<open>strdup\<close> gets its memory (\<open>mem\<close>), the user and group of the process (\<open>ids\<close>), and what libfuse does:
  the directory filler, and the three calls of \<open>fuse_main_st\<close>.  Every operation returns its result and the
  new state.
\<close>

section \<open>Paths\<close>

abbreviation slash :: byte where
  "slash \<equiv> 0x2F"

lemma c_at_less: "c_at xs i = c \<Longrightarrow> c \<noteq> 0 \<Longrightarrow> i < length xs"
  by (auto simp: c_at_def split: if_splits)

text \<open>The loop of \<open>travel_path\<close>: \<open>rw\<close> is the copy in which the slashes are overwritten, \<open>tok\<close> the start
  of the current name.  The result is the index of the last name, or \<open>None\<close> for a null pointer.\<close>

function travel_loop :: "'d platform \<Rightarrow> byte list \<Rightarrow> byte list \<Rightarrow> nat \<Rightarrow> nat \<Rightarrow> 'd fs \<Rightarrow> (nat option \<times> 'd fs) option" where
  "travel_loop P path rw tok pos s =
     (if c_at path pos = 0 then Some (Some tok, s)
      else if c_at path pos = slash
      then let rw = rw[pos := 0];
               name = c_str (drop tok rw)
           in if c_at rw tok \<noteq> 0
              then if length name > TFS_NAME_LEN then Some (None, set_error TFS_ERR_NOT_EXIST s)
                   else do {
                     s \<leftarrow> tfs_change_dir P name s;
                     if last_error s \<noteq> TFS_ERR_OK then Some (None, s)
                     else travel_loop P path rw (pos + 1) (pos + 1) s
                   }
              else travel_loop P path rw (pos + 1) (pos + 1) s
      else travel_loop P path rw tok (pos + 1) s)"
  by pat_completeness auto
termination by (relation "measure (\<lambda>(P, path, rw, tok, pos, s). length path - pos)") (use c_at_less in fastforce)+

declare travel_loop.simps [simp del]

definition travel_path :: "'d platform \<Rightarrow> bool \<Rightarrow> byte list \<Rightarrow> 'd fs \<Rightarrow> (nat option \<times> 'd fs) option" where
  "travel_path P mem path s =
     (let absolute = (c_at path 0 = slash);
          pos = (if absolute then 1 else 0);
          s = (if absolute then tfs_change_dir_root s else s)
      in if absolute \<and> last_error s \<noteq> TFS_ERR_OK then Some (None, s)
         else if \<not> mem then Some (None, set_error TFS_ERR_IO s)
         else travel_loop P path path pos pos s)"

text \<open>
  The head of the operations that take a path: the operation goes on with the last name, unless the path
  could not be followed or the name is too long (\<open>-ENAMETOOLONG\<close>).
\<close>

definition with_path :: "'d platform \<Rightarrow> bool \<Rightarrow> byte list \<Rightarrow> (nat \<Rightarrow> 'd fs \<Rightarrow> (int \<times> 'r \<times> 'd fs) option) \<Rightarrow> 'r \<Rightarrow> 'd fs
    \<Rightarrow> (int \<times> 'r \<times> 'd fs) option" where
  "with_path P mem path body r s = do {
     (tok, s) \<leftarrow> travel_path P mem path s;
     case tok of
       None \<Rightarrow> Some (check_error (last_error s), r, s)
     | Some tok \<Rightarrow>
         if length (drop tok path) > TFS_NAME_LEN then Some (- 36, r, s) else body tok s
   }"

section \<open>Attributes\<close>

record stat =
  st_mode :: u32
  st_nlink :: nat
  st_uid :: u32
  st_gid :: u32
  st_size :: int

abbreviation "mode_dir \<equiv> 0x4000 OR 0x1ED :: u32"
abbreviation "mode_reg \<equiv> 0x8000 OR 0x1ED :: u32"

definition item_to_stat :: "dir_item \<Rightarrow> stat \<Rightarrow> int \<times> stat" where
  "item_to_stat item st =
     (if it_type item = TFS_DIR_ITEM_DIR then (0, st\<lparr>st_mode := mode_dir\<rparr>)
      else if it_type item = TFS_DIR_ITEM_FILE
      then (0, st\<lparr>st_mode := mode_reg, st_size := uint (it_size item)\<rparr>)
      else (1, st))"

text \<open>\<open>ids\<close> is \<open>my_uid\<close> and \<open>my_gid\<close>.\<close>

definition op_getattr :: "'d platform \<Rightarrow> bool \<Rightarrow> u32 \<times> u32 \<Rightarrow> byte list \<Rightarrow> stat \<Rightarrow> 'd fs \<Rightarrow> (int \<times> stat \<times> 'd fs) option" where
  "op_getattr P mem ids path st s =
     (let st = st\<lparr>st_uid := fst ids, st_gid := snd ids, st_nlink := 1\<rparr>
      in if path = [slash] then Some (0, st\<lparr>st_mode := mode_dir\<rparr>, s)
         else with_path P mem path (\<lambda>tok s. do {
           (item, s) \<leftarrow> tfs_stat P (drop tok path) s;
           let err = check_error (last_error s)
           in if err < 0 then Some (err, st, s)
              else case item of
                     None \<Rightarrow> Some (- 2, st, s)
                   | Some i \<Rightarrow> (case item_to_stat (get_item (blk_buf s) i) st of (r, st) \<Rightarrow> Some (r, st, s))
         }) st s)"

section \<open>Directories\<close>

text \<open>\<open>fill\<close> is the filler of libfuse: what it does to the listing with a name and its attributes.\<close>

definition tfs_dir_handler :: "u32 \<times> u32 \<Rightarrow> ('b \<Rightarrow> byte list \<Rightarrow> stat option \<Rightarrow> 'b) \<Rightarrow> 'b \<Rightarrow> dir_item \<Rightarrow> 'b \<times> bool" where
  "tfs_dir_handler ids fill buf item =
     (let st = \<lparr>st_mode = 0, st_nlink = 1, st_uid = fst ids, st_gid = snd ids, st_size = 0\<rparr>
      in case item_to_stat item st of (r, st) \<Rightarrow>
           (if r = 0 then fill buf (c_str (strncpy TFS_NAME_LEN (it_name item))) (Some st) else buf, True))"

definition op_readdir :: "'d platform \<Rightarrow> bool \<Rightarrow> u32 \<times> u32 \<Rightarrow> byte list \<Rightarrow> ('b \<Rightarrow> byte list \<Rightarrow> stat option \<Rightarrow> 'b) \<Rightarrow> 'b
    \<Rightarrow> 'd fs \<Rightarrow> (int \<times> 'b \<times> 'd fs) option" where
  "op_readdir P mem ids path fill buf s = with_path P mem path (\<lambda>tok s. do {
     s \<leftarrow> (if c_at path tok \<noteq> 0 then tfs_change_dir P (drop tok path) s else Some s);
     if c_at path tok \<noteq> 0 \<and> check_error (last_error s) \<noteq> 0 then Some (check_error (last_error s), buf, s)
     else let buf = fill buf (ascii ''.'') None;
              buf = fill buf (ascii ''..'') None
          in do {
            ((ok, buf), s) \<leftarrow> tfs_read_dir P (tfs_dir_handler ids fill) buf s;
            Some (check_error (last_error s), buf, s)
          }
   }) buf s"

text \<open>The operations that end with a call of the file system and its error number.\<close>

definition path_call :: "'d platform \<Rightarrow> bool \<Rightarrow> byte list \<Rightarrow> (byte list \<Rightarrow> 'd fs \<Rightarrow> 'd fs option) \<Rightarrow> 'd fs \<Rightarrow> (int \<times> 'd fs) option" where
  "path_call P mem path call s = do {
     (r, u, s) \<leftarrow> with_path P mem path (\<lambda>tok s. do {
       s \<leftarrow> call (drop tok path) s;
       Some (check_error (last_error s), (), s)
     }) () s;
     Some (r, s)
   }"

definition op_mkdir :: "'d platform \<Rightarrow> bool \<Rightarrow> byte list \<Rightarrow> 'd fs \<Rightarrow> (int \<times> 'd fs) option" where
  "op_mkdir P mem path s = path_call P mem path (tfs_create_dir P) s"

definition op_unlink :: "'d platform \<Rightarrow> bool \<Rightarrow> byte list \<Rightarrow> 'd fs \<Rightarrow> (int \<times> 'd fs) option" where
  "op_unlink P mem path s = path_call P mem path (\<lambda>name. tfs_delete P name TFS_DIR_ITEM_FILE) s"

definition op_rmdir :: "'d platform \<Rightarrow> bool \<Rightarrow> byte list \<Rightarrow> 'd fs \<Rightarrow> (int \<times> 'd fs) option" where
  "op_rmdir P mem path s = path_call P mem path (\<lambda>name. tfs_delete P name TFS_DIR_ITEM_DIR) s"

definition op_mknod :: "'d platform \<Rightarrow> bool \<Rightarrow> byte list \<Rightarrow> 'd fs \<Rightarrow> (int \<times> 'd fs) option" where
  "op_mknod P mem path s = path_call P mem path (\<lambda>name. tfs_write_file P name [] 0 False) s"

text \<open>A file can only be renamed within its directory: the new path has to start like the old one, and
  the rest of it has to be a name.\<close>

definition op_rename :: "'d platform \<Rightarrow> bool \<Rightarrow> byte list \<Rightarrow> byte list \<Rightarrow> 'd fs \<Rightarrow> (int \<times> 'd fs) option" where
  "op_rename P mem path newpath s = do {
     (r, u, s) \<leftarrow> with_path P mem path (\<lambda>tok s.
       let new = drop tok newpath
       in if \<not> strncmp_eq tok path newpath then Some (- 22, (), s)
          else if slash \<in> set new then Some (- 22, (), s)
          else if length new > TFS_NAME_LEN then Some (- 36, (), s)
          else do {
            s \<leftarrow> tfs_rename P (drop tok path) new s;
            Some (check_error (last_error s), (), s)
          }) () s;
     Some (r, s)
   }"

record statvfs =
  f_bsize :: nat
  f_frsize :: nat
  f_blocks :: u32
  f_bfree :: u32
  f_bavail :: u32
  f_namemax :: nat

definition op_statfs :: "'d platform \<Rightarrow> 'd fs \<Rightarrow> (int \<times> statvfs \<times> 'd fs) option" where
  "op_statfs P s = do {
     let statv = \<lparr>f_bsize = 0, f_frsize = 0, f_blocks = 0, f_bfree = 0, f_bavail = 0, f_namemax = 0\<rparr>;
     (used, s) \<leftarrow> tfs_get_used P s;
     let blk_free = blk_count s - used;
         err = check_error (last_error s)
     in if err \<noteq> 0 then Some (err, statv, s)
        else Some (0, \<lparr>f_bsize = TFS_BLOCKSIZE, f_frsize = TFS_BLOCKSIZE, f_blocks = blk_count s,
                       f_bfree = blk_free, f_bavail = blk_free, f_namemax = TFS_NAME_LEN\<rparr>, s)
   }"

section \<open>Open files\<close>

text \<open>
  \<open>fi->fh\<close> has 64 bits, and the file system takes the low eight, as a signed number; sizes and offsets
  are cut to 32 bits; the count that \<open>tfs_read\<close> and \<open>tfs_write\<close> return becomes an \<open>int\<close>.
\<close>

type_synonym fuse_fh = "64 word"

definition fh_fd :: "fuse_fh \<Rightarrow> int" where
  "fh_fd fh = sint (ucast fh :: byte)"

definition op_open :: "'d platform \<Rightarrow> bool \<Rightarrow> byte list \<Rightarrow> fuse_fh \<Rightarrow> 'd fs \<Rightarrow> (int \<times> fuse_fh \<times> 'd fs) option" where
  "op_open P mem path fh s = with_path P mem path (\<lambda>tok s. do {
     (fd, s) \<leftarrow> tfs_open P (drop tok path) s;
     Some (check_error (last_error s), of_int fd, s)
   }) fh s"

definition op_truncate :: "'d platform \<Rightarrow> bool \<Rightarrow> byte list \<Rightarrow> int \<Rightarrow> 'd fs \<Rightarrow> (int \<times> 'd fs) option" where
  "op_truncate P mem path newsize s = do {
     (r, u, s) \<leftarrow> with_path P mem path (\<lambda>tok s. do {
       (fh, s) \<leftarrow> tfs_open P (drop tok path) s;
       let err = check_error (last_error s)
       in if err \<noteq> 0 then Some (err, (), s)
          else do {
            s \<leftarrow> tfs_trunc P fh (of_int newsize) s;
            let err = check_error (last_error s);
                s = tfs_close fh s
            in Some (err, (), s)
          }
     }) () s;
     Some (r, s)
   }"

definition op_ftruncate :: "'d platform \<Rightarrow> int \<Rightarrow> fuse_fh \<Rightarrow> 'd fs \<Rightarrow> (int \<times> 'd fs) option" where
  "op_ftruncate P newsize fh s = do {
     s \<leftarrow> tfs_trunc P (fh_fd fh) (of_int newsize) s;
     Some (check_error (last_error s), s)
   }"

definition op_read :: "'d platform \<Rightarrow> nat \<Rightarrow> int \<Rightarrow> fuse_fh \<Rightarrow> 'd fs \<Rightarrow> (int \<times> byte list \<times> 'd fs) option" where
  "op_read P sz offset fh s = do {
     ((len, buf), s) \<leftarrow> tfs_read P (fh_fd fh) (of_nat sz) (of_int offset) s;
     let err = check_error (last_error s)
     in Some (if err \<noteq> 0 then err else sint len, buf, s)
   }"

definition op_write :: "'d platform \<Rightarrow> byte list \<Rightarrow> int \<Rightarrow> fuse_fh \<Rightarrow> 'd fs \<Rightarrow> (int \<times> 'd fs) option" where
  "op_write P buf offset fh s = do {
     (len, s) \<leftarrow> tfs_write P (fh_fd fh) buf (of_nat (length buf)) (of_int offset) s;
     let err = check_error (last_error s)
     in Some (if err \<noteq> 0 then err else sint len, s)
   }"

definition op_release :: "fuse_fh \<Rightarrow> 'd fs \<Rightarrow> int \<times> 'd fs" where
  "op_release fh s = (let s = tfs_close (fh_fd fh) s in (check_error (last_error s), s))"

section \<open>The table of operations\<close>

text \<open>A request of libfuse, with what the operation gets through pointers, and the reply.\<close>

datatype 'b request =
    GetAttr "byte list" stat | MkNod "byte list" | MkDir "byte list" | Unlink "byte list" | RmDir "byte list"
  | Rename "byte list" "byte list" | Truncate "byte list" int | FTruncate int fuse_fh | Open "byte list" fuse_fh
  | Read nat int fuse_fh | Write "byte list" int fuse_fh | StatFs | Release fuse_fh
  | ReadDir "byte list" "'b \<Rightarrow> byte list \<Rightarrow> stat option \<Rightarrow> 'b" 'b

datatype 'b reply =
  Code int | Attr int stat | Data int "byte list" | Vfs int statvfs | Handle int fuse_fh | Listed int 'b

fun ops :: "'d platform \<Rightarrow> bool \<Rightarrow> u32 \<times> u32 \<Rightarrow> 'b request \<Rightarrow> 'd fs \<Rightarrow> ('b reply \<times> 'd fs) option" where
  "ops P mem ids (GetAttr path st) s = do {(r, st, s) \<leftarrow> op_getattr P mem ids path st s; Some (Attr r st, s)}"
| "ops P mem ids (MkNod path) s = do {(r, s) \<leftarrow> op_mknod P mem path s; Some (Code r, s)}"
| "ops P mem ids (MkDir path) s = do {(r, s) \<leftarrow> op_mkdir P mem path s; Some (Code r, s)}"
| "ops P mem ids (Unlink path) s = do {(r, s) \<leftarrow> op_unlink P mem path s; Some (Code r, s)}"
| "ops P mem ids (RmDir path) s = do {(r, s) \<leftarrow> op_rmdir P mem path s; Some (Code r, s)}"
| "ops P mem ids (Rename path new) s = do {(r, s) \<leftarrow> op_rename P mem path new s; Some (Code r, s)}"
| "ops P mem ids (Truncate path sz) s = do {(r, s) \<leftarrow> op_truncate P mem path sz s; Some (Code r, s)}"
| "ops P mem ids (FTruncate sz fh) s = do {(r, s) \<leftarrow> op_ftruncate P sz fh s; Some (Code r, s)}"
| "ops P mem ids (Open path fh) s = do {(r, fh, s) \<leftarrow> op_open P mem path fh s; Some (Handle r fh, s)}"
| "ops P mem ids (Read n os fh) s = do {(r, buf, s) \<leftarrow> op_read P n os fh s; Some (Data r buf, s)}"
| "ops P mem ids (Write buf os fh) s = do {(r, s) \<leftarrow> op_write P buf os fh s; Some (Code r, s)}"
| "ops P mem ids StatFs s = do {(r, v, s) \<leftarrow> op_statfs P s; Some (Vfs r v, s)}"
| "ops P mem ids (Release fh) s = (case op_release fh s of (r, s) \<Rightarrow> Some (Code r, s))"
| "ops P mem ids (ReadDir path fill buf) s = do {(r, buf, s) \<leftarrow> op_readdir P mem ids path fill buf s; Some (Listed r buf, s)}"

section \<open>main\<close>

text \<open>
  \<open>setup\<close> says whether \<open>fuse_setup\<close> returns a session for the arguments, and \<open>loop\<close> is \<open>fuse_loop\<close>,
  which serves the requests with \<open>ops\<close>.
\<close>

definition fuse_main_st :: "(byte list list \<Rightarrow> bool) \<Rightarrow> ('d fs \<Rightarrow> int \<times> 'd fs) \<Rightarrow> byte list list \<Rightarrow> 'd fs \<Rightarrow> int \<times> 'd fs" where
  "fuse_main_st setup loop argv s =
     (if \<not> setup argv then (1, s)
      else case loop s of (res, s) \<Rightarrow> (if res = -1 then 1 else 0, s))"

definition dash :: "byte list \<Rightarrow> bool" where
  "dash arg \<longleftrightarrow> c_at arg 0 = 0x2D"

definition fuse_main :: "(byte list list \<Rightarrow> bool) \<Rightarrow> (linux_dev fs \<Rightarrow> int \<times> linux_dev fs) \<Rightarrow> byte list list \<Rightarrow> linux_dev fs
    \<Rightarrow> int \<times> linux_dev fs" where
  "fuse_main setup loop argv s =
     (let argc = length argv
      in if argc < 3 \<or> dash (argv ! (argc - 2)) \<or> dash (argv ! (argc - 1)) then (1, s)
         else case drive_open (dev s) of (r, d) \<Rightarrow>
           let s = s\<lparr>dev := d\<rparr>
           in if r < 0 then (1, s)
              else let argv = take (argc - 1) (argv[argc - 2 := argv ! (argc - 1)]);
                       s = tfs_init linux_platform s
                   in if last_error s \<noteq> TFS_ERR_OK then (1, s\<lparr>dev := snd (drive_close (dev s))\<rparr>)
                      else case fuse_main_st setup loop argv s of (ret, s) \<Rightarrow>
                             (ret, s\<lparr>dev := snd (drive_close (dev s))\<rparr>))"

end
