(* ===== verification/Fuse_Paths.thy ===== *)
theory Fuse_Paths
  imports Fuse Open_Files
begin

text \<open>
  How \<open>travel_path\<close> reads a path, and the effect of a walk along it: a list of directory names
  against the directories on the medium.
\<close>

section \<open>The characters of a path\<close>

definition name_ok :: "byte list \<Rightarrow> bool" where
  "name_ok c \<longleftrightarrow> slash \<notin> set c \<and> 0 \<notin> set c"

text \<open>\<open>/c1/c2/.../name\<close>\<close>

definition path_of :: "byte list list \<Rightarrow> byte list \<Rightarrow> byte list" where
  "path_of cs name = slash # concat (map (\<lambda>c. c @ [slash]) cs) @ name"

lemma c_at_append: "c_at (xs @ ys) (length xs + i) = c_at ys i"
  by (simp add: c_at_def nth_append)

lemma c_at_append0: "c_at (xs @ ys) (length xs) = c_at ys 0"
  using c_at_append[of xs ys 0] by simp

lemma c_str_name: "0 \<notin> set c \<Longrightarrow> c_str (c @ 0 # ys) = c" "0 \<notin> set c \<Longrightarrow> c_str c = c"
  by (induction c) auto

text \<open>The loop passes over the characters of a name.\<close>

lemma travel_scan:
  "name_ok c \<Longrightarrow> travel_loop P (pre @ c @ post) rw tok (length pre) s =
     travel_loop P (pre @ c @ post) rw tok (length pre + length c) s"
proof (induction c arbitrary: pre)
  case (Cons x c)
  then have x: "x \<noteq> 0" "x \<noteq> slash" "name_ok c" by (auto simp: name_ok_def)
  then have "c_at (pre @ (x # c) @ post) (length pre) = x" by (simp add: c_at_append0)
  with x have "travel_loop P (pre @ (x # c) @ post) rw tok (length pre) s =
      travel_loop P (pre @ (x # c) @ post) rw tok (length pre + 1) s"
    by (subst travel_loop.simps) simp
  then show ?case using Cons.IH[OF x(3), of "pre @ [x]"] by simp
qed simp

text \<open>The last name ends the loop.\<close>

lemma travel_last:
  assumes "name_ok c"
  shows "travel_loop P (pre @ c) rw tok (length pre) s = Some (Some tok, s)"
proof -
  have "c_at (pre @ c) (length pre + length c) = 0" by (simp add: c_at_def)
  then show ?thesis using travel_scan[OF assms, of P pre "[]" rw tok s] by (subst (asm) (2) travel_loop.simps) simp
qed

text \<open>A name that a slash ends is a directory to change to.\<close>

lemma travel_dir:
  assumes c: "name_ok c" "c \<noteq> []" "length c \<le> TFS_NAME_LEN" and rw: "length rw = length (pre @ c @ slash # post)"
    "drop (length pre) rw = c @ slash # post"
  shows "travel_loop P (pre @ c @ slash # post) rw (length pre) (length pre) s = do {
    s \<leftarrow> tfs_change_dir P c s;
    if last_error s \<noteq> TFS_ERR_OK then Some (None, s)
    else travel_loop P (pre @ c @ slash # post) (rw[length pre + length c := 0]) (length pre + length c + 1) (length pre + length c + 1) s
  }"
proof -
  let ?p = "pre @ c @ slash # post" and ?k = "length pre + length c"
  have at: "c_at ?p ?k = slash" using c_at_append0[of "pre @ c" "slash # post"] by simp
  have "drop (length pre) (rw[?k := 0]) = (drop (length pre) rw)[length c := 0]" by (simp add: drop_update_swap)
  then have d: "drop (length pre) (rw[?k := 0]) = c @ 0 # post" by (simp add: rw(2) list_update_append)
  then have n: "c_str (drop (length pre) (rw[?k := 0])) = c" using c(1) by (simp add: c_str_name name_ok_def)
  have "c_at (rw[?k := 0]) (length pre) = c_at (drop (length pre) (rw[?k := 0])) 0" using rw(1) by (simp add: c_at_def)
  also have "\<dots> = c_at (c @ 0 # post) 0" by (simp only: d)
  finally have nz: "c_at (rw[?k := 0]) (length pre) \<noteq> 0" using c by (cases c) (auto simp: name_ok_def)
  show ?thesis
    unfolding travel_scan[OF c(1)] by (subst travel_loop.simps) (use at n nz c(3) in \<open>simp add: Let_def\<close>)
qed

section \<open>Walking through directories\<close>

text \<open>\<open>walk s d cs e\<close>: from the directory at block \<open>d\<close>, the names \<open>cs\<close> lead to the directory at \<open>e\<close>.\<close>

fun walk :: "linux_dev fs \<Rightarrow> u32 \<Rightarrow> byte list list \<Rightarrow> u32 \<Rightarrow> bool" where
  "walk s d [] e \<longleftrightarrow> d = e"
| "walk s d (c # cs) e \<longleftrightarrow> (\<exists>ds it. ld.dir_ok (s\<lparr>current_dir_blk := d\<rparr>) ds \<and>
     dir_find (linux_contents (dev s)) (strncmp_filename_cmp c) ds = Some it \<and> it_type it = TFS_DIR_ITEM_DIR \<and>
     walk s (it_blk it) cs e)"

text \<open>The walk depends on the medium and its size only.\<close>

lemma walk_cong:
  assumes "linux_contents (dev s) = linux_contents (dev t)" and "blk_count s = blk_count t"
  shows "walk s d cs e = walk t d cs e"
  by (induction cs arbitrary: d) (simp_all add: assms ld.dir_ok_def)

definition part_ok :: "byte list \<Rightarrow> bool" where
  "part_ok c \<longleftrightarrow> name_ok c \<and> c \<noteq> [] \<and> length c \<le> TFS_NAME_LEN"

lemma part_nonempty: "part_ok c \<Longrightarrow> c_at c 0 \<noteq> 0"
  by (cases c) (auto simp: part_ok_def name_ok_def)

lemma travel_walk:
  assumes "ld.mounted s" and "last_error s = TFS_ERR_OK" and "walk s (current_dir_blk s) cs e"
    and "\<forall>c \<in> set cs. part_ok c" and "name_ok name"
    and "path = pre @ concat (map (\<lambda>c. c @ [slash]) cs) @ name" and "length rw = length path" and "drop (length pre) rw = drop (length pre) path"
  shows "\<exists>s'. travel_loop linux_platform path rw (length pre) (length pre) s = Some (Some (length path - length name), s') \<and>
    last_error s' = TFS_ERR_OK \<and> ld.mounted s' \<and> linux_contents (dev s') = linux_contents (dev s) \<and>
    blk_count s' = blk_count s \<and> current_dir_blk s' = e \<and> handles s' = handles s"
  using assms
proof (induction cs arbitrary: s pre rw)
  case Nil
  then show ?case by (simp add: travel_last)
next
  case (Cons c cs)
  let ?post = "concat (map (\<lambda>c. c @ [slash]) cs) @ name"
  from Cons.prems(3) obtain ds it where w: "ld.dir_ok (s\<lparr>current_dir_blk := current_dir_blk s\<rparr>) ds"
    "dir_find (linux_contents (dev s)) (strncmp_filename_cmp c) ds = Some it" "it_type it = TFS_DIR_ITEM_DIR"
    "walk s (it_blk it) cs e" by (elim walk.simps(2)[THEN iffD1, elim_format] exE conjE)
  have p: "path = pre @ c @ slash # ?post" using Cons.prems(6) by simp
  have c: "name_ok c" "c \<noteq> []" "length c \<le> TFS_NAME_LEN" "c_at c 0 \<noteq> 0"
    using Cons.prems(4) part_nonempty by (auto simp: part_ok_def)
  have rw: "length rw = length (pre @ c @ slash # ?post)" "drop (length pre) rw = c @ slash # ?post"
    using Cons.prems(7,8) by (simp_all add: p)
  have "ld.dir_ok s ds" using w(1) by simp
  from Cons.prems(1) this c(4) show ?case
  proof (cases rule: ld.change_dir_cases)
    case (none s')
    with w show ?thesis by simp
  next
    case (found it' s1)
    then have it: "it' = it" using w(2) by simp
    let ?rw = "rw[length pre + length c := 0]" and ?pre = "pre @ c @ [slash]"
    have "drop (length ?pre) ?rw = drop (length ?pre) path"
      using rw(2)[THEN arg_cong, of "drop (length c + 1)"] by (simp add: p add.commute)
    moreover have "walk s1 (current_dir_blk s1) cs e" using w(4) found it walk_cong[of s1 s] by simp
    ultimately obtain s2 where "travel_loop linux_platform path ?rw (length ?pre) (length ?pre) s1 = Some (Some (length path - length name), s2)"
      "last_error s2 = TFS_ERR_OK" "ld.mounted s2" "linux_contents (dev s2) = linux_contents (dev s1)"
      "blk_count s2 = blk_count s1" "current_dir_blk s2 = e" "handles s2 = handles s1"
      using Cons.IH[of s1 ?pre ?rw] found Cons.prems(4-8) by auto
    with found show ?thesis
      by (intro exI[of _ s2]) (simp add: p travel_dir[OF c(1-3) rw])
  qed
qed

text \<open>An absolute path from a state without an error.\<close>

lemma travel_path_walk:
  assumes "ld.mounted s" and "last_error s = TFS_ERR_OK" and "walk s TFS_ROOT_DIR_BLK cs e"
    and "\<forall>c \<in> set cs. part_ok c" and "name_ok name"
  obtains s' where "travel_path linux_platform True (path_of cs name) s = Some (Some (length (path_of cs name) - length name), s')"
    "last_error s' = TFS_ERR_OK" "ld.mounted s'" "linux_contents (dev s') = linux_contents (dev s)"
    "blk_count s' = blk_count s" "current_dir_blk s' = e" "handles s' = handles s"
    "drop (length (path_of cs name) - length name) (path_of cs name) = name"
proof -
  let ?r = "tfs_change_dir_root s" and ?p = "path_of cs name"
  have r: "ld.mounted ?r" "last_error ?r = TFS_ERR_OK" "linux_contents (dev ?r) = linux_contents (dev s)" "blk_count ?r = blk_count s"
    "current_dir_blk ?r = TFS_ROOT_DIR_BLK" "handles ?r = handles s"
    using assms(1,2) by (simp_all add: tfs_change_dir_root_def)
  have "walk ?r (current_dir_blk ?r) cs e" using assms(3) r walk_cong[of ?r s] by simp
  from travel_walk[OF r(1,2) this assms(4,5), of ?p "[slash]" ?p] obtain s' where
    s': "travel_loop linux_platform ?p ?p 1 1 ?r = Some (Some (length ?p - length name), s')" "last_error s' = TFS_ERR_OK" "ld.mounted s'"
    "linux_contents (dev s') = linux_contents (dev s)" "blk_count s' = blk_count s" "current_dir_blk s' = e" "handles s' = handles s"
    using r by (auto simp: path_of_def)
  have "c_at ?p 0 = slash" by (simp add: path_of_def)
  with s'(1) r(2) have "travel_path linux_platform True ?p s = Some (Some (length ?p - length name), s')"
    by (simp add: travel_path_def)
  moreover have "drop (length ?p - length name) ?p = name" by (simp add: path_of_def)
  ultimately show thesis using s' by (intro that[of s']) simp_all
qed

text \<open>An operation that takes a path goes on in the directory that the path leads to.\<close>

lemma with_path_walk:
  assumes "ld.mounted s" and "last_error s = TFS_ERR_OK" and "walk s TFS_ROOT_DIR_BLK cs e"
    and "\<forall>c \<in> set cs. part_ok c" and "name_ok name" and "length name \<le> TFS_NAME_LEN"
  obtains s' tok where "\<And>body r. with_path linux_platform True (path_of cs name) body r s = body tok s'"
    "last_error s' = TFS_ERR_OK" "ld.mounted s'" "linux_contents (dev s') = linux_contents (dev s)"
    "blk_count s' = blk_count s" "current_dir_blk s' = e" "handles s' = handles s" "drop tok (path_of cs name) = name"
  by (rule travel_path_walk[OF assms(1-5)]) (use assms(6) that in \<open>simp add: with_path_def\<close>)

context block_device
begin

lemma stat_spec:
  assumes "mounted s" and "dir_ok s ds" and "c_at name 0 \<noteq> 0"
  obtains i s' where "tfs_stat P name s = Some (i, s')" "last_error s' = TFS_ERR_OK" "mounted s'" "cont s' = cont s"
    "blk_count s' = blk_count s" "current_dir_blk s' = current_dir_blk s"
    "map_option (get_item (blk_buf s')) i = dir_find (cont s) (pf_filename_cmp P name) ds"
proof -
  note [simp] = assms(1) mounted_select[OF assms(1)]
  have r: "ready (entered s)" and dk: "dir_ok (entered s) ds" using assms by (simp_all add: ready_entered)
  have st: "tfs_stat P name s = Some (i, drive_deselect P s1)" if "find_file P name False (entered s) = Some (i, s1)" for i s1
    using api_call_mounted[where body = "find_file P name False", OF assms(1) that] by (simp add: tfs_stat_def)
  show thesis using r dk assms(3)
  proof (cases rule: find_file_cases[where want = False])
    case (found d i s1)
    with st readyD(3)[OF found(3)] mounted_ready[OF found(3)] fs_frameD[OF found(4)] show thesis
      by (intro that[of "Some i" "drive_deselect P s1"]) (simp_all add: dir_find_def slot_item_def)
  next
    case (absent s1)
    with st readyD(3)[OF absent(4)] mounted_ready[OF absent(4)] fs_frameD[OF absent(5)] show thesis
      by (intro that[of None "drive_deselect P s1"]) (simp_all add: dir_find_def)
  qed simp_all
qed

end

end
