(* ===== verification/Handle_Counts.thy ===== *)
theory Handle_Counts
  imports Handle_Table
begin

text \<open>
  How often each handle is in use, under every behaviour of the drive: \<open>tfs_open\<close> that succeeds adds one to
  the count of the handle it returns, \<open>tfs_close\<close> that succeeds takes one away, and no other
  function changes a count.
\<close>

definition counts :: "'d fs \<Rightarrow> byte list" where
  "counts s = map usage_count (handles s)"

lemma counts_keys: "keys s' = keys s \<Longrightarrow> counts s' = counts s"
  by (drule arg_cong[of _ _ "map fst"]) (simp add: keys_def counts_def comp_def)

lemma counts_frame [simp]:
  "counts (set_error e s) = counts s" "counts (drive_select P s) = counts s" "counts (drive_deselect P s) = counts s"
  by (simp_all add: counts_def)

lemma length_counts [simp]: "length (counts s) = length (handles s)"
  by (simp add: counts_def)

lemma handles_of_counts: "counts t = xs \<Longrightarrow> length (handles t) = length xs"
  by auto

lemma find_fd_bound: "find_fd Q hs = Some fd \<Longrightarrow> fd < length hs"
  using find_fd_SomeD by blast

text \<open>\<open>tfs_open\<close> fails and takes no handle, or takes the one it returns; when the table is full that can be the one behind it.\<close>

lemma open_counts:
  assumes "tfs_open P name s = Some (x, s')"
  shows "last_error s' \<noteq> TFS_ERR_OK \<and> keys s' = keys s \<or>
    (\<exists>fd \<le> length (handles s). x = int fd \<and> last_error s' = TFS_ERR_OK \<and>
      counts s' = (counts s)[fd := counts s ! fd + 1])"
proof (cases "last_error s = TFS_ERR_NO_DEV")
  case True
  with assms show ?thesis by (simp add: tfs_open_def api_call_def)
next
  case False
  then obtain s2 where b: "open_body P name (drive_select P (set_error TFS_ERR_OK s)) = Some (x, s2)" and
    s': "s' = drive_deselect P s2"
    using assms by (auto simp: tfs_open_def api_call_def bind_eq_Some_conv)
  then obtain item s1 where f: "find_file P name False (drive_select P (set_error TFS_ERR_OK s)) = Some (item, s1)"
    by (auto simp: open_body_def bind_eq_Some_conv)
  have k: "keys s1 = keys s" using keeps_find_file[of "drive_select P (set_error TFS_ERR_OK s)" "keys s" P name False] f
    by (simp add: keeps_def)
  note c = counts_keys[OF k] and l = handles_ok_keys(2)[OF k]
  show ?thesis
  proof (cases "last_error s1 = TFS_ERR_OK \<and> (\<exists>i. item = Some i \<and> item_type (blk_buf s1) i = TFS_DIR_ITEM_FILE)")
    case False
    then have "last_error s2 \<noteq> TFS_ERR_OK \<and> keys s2 = keys s1"
      using b f by (auto simp: open_body_def split: if_splits option.splits)
    with k s' show ?thesis by simp
  next
    case True
    then obtain i where i: "item = Some i" "item_type (blk_buf s1) i = TFS_DIR_ITEM_FILE" by blast
    let ?Q = "\<lambda>h. dir_blk h = loaded_dir_blk s1 \<and> dir_item h = Some i \<and> usage_count h > 0"
    show ?thesis
    proof (cases "find_fd ?Q (handles s1)")
      case (Some fd)
      then have x: "x = int fd" "s2 = upd_hnd fd (\<lambda>h. h\<lparr>usage_count := usage_count h + 1\<rparr>) s1"
        using b f True i by (simp_all add: open_body_def)
      moreover have fd: "fd < length (handles s1)" using Some by (rule find_fd_bound)
      ultimately have "counts s' = (counts s1)[fd := counts s1 ! fd + 1]" using s' by (simp add: counts_def upd_hnd_def map_update)
      then show ?thesis using x fd l s' True unfolding c by (intro disjI2 exI[of _ fd]) simp
    next
      case n: None
      show ?thesis
      proof (cases "empty_fd s1")
        case None
        then have "last_error s2 \<noteq> TFS_ERR_OK" "keys s2 = keys s1"
          using b f True i n by (auto simp: open_body_def)
        with k s' show ?thesis by simp
      next
        case (Some fd)
        let ?h = "opened (loaded_dir_blk s1) i (get_item (blk_buf s1) i)"
        have x: "x = int fd" "s2 = store_hnd fd ?h s1"
          using b f True i n Some by (simp_all add: open_body_def init_pos_def Let_def get_item_def)
        show ?thesis
        proof (cases "find_fd (\<lambda>h. \<not> usage_count h > 0) (handles s1)")
          case None
          then have fd: "fd = length (handles s1)" using Some by (simp add: empty_fd_def split: if_splits)
          then have "counts s' = (counts s1)[fd := counts s1 ! fd + 1]" using x(2) s' by (simp add: counts_def store_hnd_def list_update_beyond)
          then show ?thesis using x fd l s' True unfolding c by (intro disjI2 exI[of _ fd]) (simp add: store_hnd_def)
        next
          case e: (Some fd')
          then have fd: "fd < length (handles s1)" "\<not> usage_count (handles s1 ! fd) > 0"
            using Some find_fd_SomeD by (auto simp: empty_fd_def)
          then have "usage_count (handles s1 ! fd) = 0" by (simp add: word_gt_0)
          then have "counts s' = (counts s1)[fd := counts s1 ! fd + 1]" using x(2) s' fd by (simp add: counts_def store_hnd_def map_update)
          then show ?thesis using x fd l s' True unfolding c by (intro disjI2 exI[of _ fd]) (simp add: store_hnd_def)
        qed
      qed
    qed
  qed
qed

lemma close_counts:
  assumes "int (length (handles s)) = int TFS_MAX_FDS"
  shows "last_error (tfs_close fd s) \<noteq> TFS_ERR_OK \<and> counts (tfs_close fd s) = counts s \<or>
    0 \<le> fd \<and> nat fd < length (handles s) \<and> counts s ! nat fd > 0 \<and> last_error (tfs_close fd s) = TFS_ERR_OK \<and>
    counts (tfs_close fd s) = (counts s)[nat fd := counts s ! nat fd - 1]"
proof (cases "last_error s \<noteq> TFS_ERR_NO_DEV \<and> valid_fd fd (set_error TFS_ERR_OK s)")
  case True
  then have v: "0 \<le> fd" "nat fd < length (handles s)" "usage_count (handles s ! nat fd) > 0"
    using assms by (auto simp: valid_fd_def hnd_def word_gt_0)
  with True show ?thesis
    by (intro disjI2) (simp add: tfs_close_def counts_def upd_hnd_def map_update Let_def set_error_def)
next
  case False
  then show ?thesis by (auto simp: tfs_close_def Let_def)
qed

text \<open>A drive that does not report a missing device once it is initialised, and \<open>tfs_trunc\<close> on it: the device is
  not lost, so that the \<open>tfs_close\<close> that follows is not skipped.\<close>

definition device_stays :: "'d platform \<Rightarrow> bool" where
  "device_stays P \<longleftrightarrow> (\<forall>di n b d. snd (snd (pf_read P di n b d)) \<noteq> Some TFS_ERR_NO_DEV) \<and>
     (\<forall>di n b d. snd (pf_write P di n b d) \<noteq> Some TFS_ERR_NO_DEV)"

abbreviation (input) has_dev :: "'d fs \<Rightarrow> bool" where
  "has_dev s \<equiv> last_error s \<noteq> TFS_ERR_NO_DEV"

lemma has_dev_io [simp]:
  assumes "device_stays P" "has_dev s"
  shows "has_dev (read_buf P n s)" "has_dev (write_buf P n s)" "has_dev (read_bitmap P n s)" "has_dev (write_bitmap P n s)"
  using assms by (auto simp: device_stays_def read_buf_def write_buf_def read_bitmap_def write_bitmap_def write_block_def Let_def
    split: option.splits)


lemma has_dev_bitmap [simp]:
  assumes "device_stays P" "has_dev s"
  shows "has_dev (load_bitmap P n s)" "has_dev (free_block P n s)"
  using assms by (simp_all add: load_bitmap_def free_block_def mark_unused_def Let_def)

lemma has_dev_mark_used: "mark_used P i m b s = (x, s') \<Longrightarrow> device_stays P \<Longrightarrow> has_dev s \<Longrightarrow> has_dev s'"
  by (auto simp: mark_used_def Let_def split: if_splits)

lemma alloc_loop_dev: "alloc_loop P start pos s = Some r \<Longrightarrow> device_stays P \<longrightarrow> has_dev s \<longrightarrow> has_dev (snd r)"
  by (erule alloc_loop.raw_induct[of "\<lambda>(((P, start), pos), s) r. device_stays P \<longrightarrow> has_dev s \<longrightarrow> has_dev (snd r)", rotated,
      unfolded split_beta fst_conv snd_conv])
    (auto simp: run_simps dest: has_dev_mark_used split: option.splits prod.splits if_splits)

lemma alloc_dev: "alloc_block P s = Some r \<Longrightarrow> device_stays P \<Longrightarrow> has_dev s \<Longrightarrow> has_dev (snd r)"
  using alloc_loop_dev[of P _ _ s r] by (auto simp: alloc_block_def split: if_splits)

lemma free_blocks_dev: "free_file_blocks P pos s = Some r \<Longrightarrow> device_stays P \<longrightarrow> has_dev s \<longrightarrow> has_dev (r)"
  by (erule free_file_blocks.raw_induct[of "\<lambda>((P, pos), s) r. device_stays P \<longrightarrow> has_dev s \<longrightarrow> has_dev (r)", rotated,
      unfolded split_beta fst_conv snd_conv])
    (auto simp: run_simps split: if_splits)

lemma seek_backward_dev: "seek_backward P fd pos s = Some r \<Longrightarrow> device_stays P \<longrightarrow> has_dev s \<longrightarrow> has_dev (snd r)"
  by (erule seek_backward.raw_induct[of "\<lambda>(((P, fd), pos), s) r. device_stays P \<longrightarrow> has_dev s \<longrightarrow> has_dev (snd r)", rotated,
      unfolded split_beta fst_conv snd_conv])
    (auto simp: run_simps split: if_splits)

lemma seek_forward_dev: "seek_forward P fd pos lb lp s = Some r \<Longrightarrow> device_stays P \<longrightarrow> has_dev s \<longrightarrow> has_dev (snd (snd (snd r)))"
  by (erule seek_forward.raw_induct[of "\<lambda>(((((P, fd), pos), lb), lp), s) r. device_stays P \<longrightarrow> has_dev s \<longrightarrow> has_dev (snd (snd (snd r)))", rotated,
      unfolded split_beta fst_conv snd_conv])
    (auto simp: run_simps split: if_splits)

lemma seek_append_dev: "seek_append P fd pos s = Some r \<Longrightarrow> device_stays P \<longrightarrow> has_dev s \<longrightarrow> has_dev (snd r)"
  by (erule seek_append.raw_induct[of "\<lambda>(((P, fd), pos), s) r. device_stays P \<longrightarrow> has_dev s \<longrightarrow> has_dev (snd r)", rotated,
      unfolded split_beta fst_conv snd_conv])
    (auto simp: run_simps dest!: alloc_dev split: if_splits)


text \<open>The rules of \<open>keeps\<close> carry this through the functions.\<close>

lemma dev_loops [keys_intros]:
  assumes "device_stays P" and "has_dev s"
  shows "keeps has_dev snd (alloc_block P s)" "keeps has_dev id (free_file_blocks P pos s)" "keeps has_dev snd (seek_backward P fd pos s)"
    "keeps has_dev (snd \<circ> snd \<circ> snd) (seek_forward P fd pos lb lp s)" "keeps has_dev snd (seek_append P fd pos s)"
  using assms by (auto simp: keeps_def dest!: alloc_dev free_blocks_dev seek_backward_dev seek_forward_dev seek_append_dev)

lemma dev_seek [keys_intros]: "device_stays P \<Longrightarrow> has_dev s \<Longrightarrow> keeps has_dev snd (seek P fd pos app s)"
  unfolding seek_def by (rule keys_intros | assumption | simp)+

lemma dev_update_dir_item [keys_intros]: "device_stays P \<Longrightarrow> has_dev s \<Longrightarrow> keeps has_dev id (update_dir_item P fd s)"
  unfolding update_dir_item_def by (rule keys_intros | assumption | simp)+

lemma trunc_keeps_dev:
  assumes "device_stays P" and "has_dev s" and "tfs_trunc P fd sz s = Some s'"
  shows "has_dev s'"
proof -
  have "keeps has_dev id (trunc_body P fd sz t)" if "has_dev t" for t
    using assms(1) that unfolding trunc_body_def trunc_tail_def by - (rule keys_intros | assumption | simp)+
  from this[of "drive_select P (set_error TFS_ERR_OK s)"] assms(2,3) show ?thesis
    by (auto simp: tfs_trunc_def api_void_def keeps_def bind_eq_Some_conv)
qed

lemma linux_device_stays: "device_stays linux_platform"
  by (auto simp: device_stays_def linux_read_block_def linux_write_block_def Let_def split: prod.splits option.splits if_splits)

lemma close_counts_valid:
  assumes "has_dev s" and "fd < length (handles s)" and "length (handles s) = TFS_MAX_FDS" and "counts s ! fd \<noteq> 0"
  shows "counts (tfs_close (int fd) s) = (counts s)[fd := counts s ! fd - 1]"
proof -
  have "valid_fd (int fd) (set_error TFS_ERR_OK s)" using assms by (simp add: valid_fd_def hnd_def counts_def)
  with assms(1,2) show ?thesis by (simp add: tfs_close_def counts_def upd_hnd_def map_update set_error_def)
qed

lemma close_counts_behind:
  "length (handles s) = TFS_MAX_FDS \<Longrightarrow> counts (tfs_close (int TFS_MAX_FDS) s) = counts s"
  by (simp add: tfs_close_def valid_fd_def Let_def)

lemma init_counts: "pf_extended_api P \<Longrightarrow> counts (tfs_init P s) = replicate TFS_MAX_FDS 0"
  by (simp add: counts_def init_handles zero_handle_def)

end
