(* ===== verification/Fuse_Handles.thy ===== *)
theory Fuse_Handles
  imports Fuse_Paths Demo_File Handle_Counts Truncate
begin

text \<open>
  The FUSE server and the file handles, under every behaviour of the drive: what each request of libfuse does
  to the counts of the handle table.
\<close>

section \<open>The server\<close>

text \<open>The server: the replies to a list of requests, and the state after them.\<close>

fun serve :: "'d platform \<Rightarrow> bool \<Rightarrow> u32 \<times> u32 \<Rightarrow> 'b request list \<Rightarrow> 'd fs \<Rightarrow> ('b reply list \<times> 'd fs) option" where
  "serve P mem ids [] s = Some ([], s)"
| "serve P mem ids (q # qs) s = do {
     (r, s) \<leftarrow> ops P mem ids q s;
     (rs, s) \<leftarrow> serve P mem ids qs s;
     Some (r # rs, s)
   }"

text \<open>What libfuse sees of the handles: an \<open>open\<close> that was answered with 0 and the handle \<open>fd\<close>, and a \<open>release\<close> of
  it that was answered with 0.\<close>

fun is_open :: "'b request \<Rightarrow> bool" where
  "is_open (Open path fh) = True"
| "is_open _ = False"

fun opens :: "nat \<Rightarrow> 'b request \<times> 'b reply \<Rightarrow> bool" where
  "opens fd (Open path fh, Handle c fh') \<longleftrightarrow> c = 0 \<and> fh_fd fh' = int fd"
| "opens fd _ \<longleftrightarrow> False"

fun closes :: "nat \<Rightarrow> 'b request \<times> 'b reply \<Rightarrow> bool" where
  "closes fd (Release fh, Code c) \<longleftrightarrow> c = 0 \<and> fh_fd fh = int fd"
| "closes fd _ \<longleftrightarrow> False"

text \<open>The parts of the operations that open and close nothing.\<close>

lemma keeps_calls [keys_intros]:
  assumes "keys s = k"
  shows "keeps_keys k id (tfs_change_dir P name s)" "keeps_keys k id (tfs_create_dir P name s)"
    "keeps_keys k id (tfs_write_file P name data len ov s)" "keeps_keys k id (tfs_delete P name ty s)"
    "keeps_keys k id (tfs_rename P name other s)" "keeps_keys k snd (tfs_stat P name s)"
    "keeps_keys k id (tfs_trunc P fd sz s)" "keeps_keys k snd (tfs_write P fd data sz os s)" "keeps_keys k snd (tfs_read P fd sz os s)"
    "keeps_keys k snd (tfs_get_used P s)" "keeps_keys k snd (tfs_read_dir P h u s)"
  using assms keeps_api[of s P] by auto

lemma keeps_prod_state [keys_intros]: "(\<And>a b. keeps I g (h a b t)) \<Longrightarrow> keeps I g ((case p of (a, b) \<Rightarrow> h a b) t)"
  by (cases p) simp

lemma keys_change_dir_root [simp]: "keys (tfs_change_dir_root s) = keys s"
  by (simp add: tfs_change_dir_root_def)

lemma keeps_travel_loop [keys_intros]: "keys s = k \<Longrightarrow> keeps_keys k snd (travel_loop P path rw tok pos s)"
proof (induction "length path - pos" arbitrary: rw tok pos s rule: less_induct)
  case less
  have nxt: "keeps_keys k snd (travel_loop P path rw' tok' (pos + 1) u)" if "keys u = k" "c_at path pos \<noteq> 0" for rw' tok' u
    using c_at_less[OF refl that(2)] that(1) by (intro less.hyps) auto
  show ?case
  proof (cases "c_at path pos = 0")
    case True
    with less.prems show ?thesis by (simp add: travel_loop.simps[of P path rw tok pos s] keeps_def)
  next
    case False
    have nz: "keeps_keys k snd (if c_at path pos = 0 then Some (Some tok, s) else x)" if "keeps_keys k snd x" for x
      using False that by simp
    show ?thesis unfolding travel_loop.simps[of P path rw tok pos s]
      by (rule nz) (rule keys_intros nxt False | simp add: less.prems)+
  qed
qed

lemma keeps_travel_path [keys_intros]: "keys s = k \<Longrightarrow> keeps_keys k snd (travel_path P mem path s)"
  unfolding travel_path_def by (rule keys_intros | simp)+

lemma keeps_with_path [keys_intros]:
  "keys s = k \<Longrightarrow> (\<And>tok u. keys u = k \<Longrightarrow> keeps_keys k (snd \<circ> snd) (body tok u)) \<Longrightarrow>
   keeps_keys k (snd \<circ> snd) (with_path P mem path body r s)"
  unfolding with_path_def by (rule keys_intros | simp)+

lemmas op_defs = op_getattr_def op_readdir_def path_call_def op_mkdir_def op_unlink_def op_rmdir_def op_mknod_def op_rename_def
  op_statfs_def op_ftruncate_def op_read_def op_write_def

lemma request_keys:
  assumes "ops P mem ids q s = Some (r, t)" and "\<And>path fh. q \<noteq> Open path fh" and "\<And>fh. q \<noteq> Release fh" and "\<And>path n. q \<noteq> Truncate path n"
  shows "keys t = keys s"
proof -
  have "keeps_keys (keys s) snd (ops P mem ids q s)"
  proof (cases q)
    case (Truncate path n)
    with assms(4)[of path n] show ?thesis by simp
  next
    case (Open path fh)
    with assms(2)[of path fh] show ?thesis by simp
  next
    case (Release fh)
    with assms(3)[of fh] show ?thesis by simp
  qed (simp only: ops.simps op_defs; (rule keys_intros refl | simp)+)+
  with assms(1) show ?thesis by (simp add: keeps_def)
qed

text \<open>A path that cannot be followed leaves an error.\<close>

lemma travel_loop_error:
  "travel_loop P path rw tok pos s = Some (None, s') \<Longrightarrow> last_error s' \<noteq> TFS_ERR_OK"
proof (induction "length path - pos" arbitrary: rw tok pos s rule: less_induct)
  case less
  have nz: "c_at path pos \<noteq> 0" using less.prems by (auto simp: travel_loop.simps[of P path rw tok pos s])
  have "length path - (pos + 1) < length path - pos" using c_at_less[OF refl nz] by simp
  note less.hyps[OF this]
  with less.prems show ?case
    by (subst (asm) travel_loop.simps) (auto simp: Let_def bind_eq_Some_conv split: if_splits)
qed

lemma travel_path_error: "travel_path P mem path s = Some (None, s') \<Longrightarrow> last_error s' \<noteq> TFS_ERR_OK"
  by (auto simp: travel_path_def Let_def travel_loop_error split: if_splits)

lemma check_error_ok [simp]: "check_error e = 0 \<longleftrightarrow> e = TFS_ERR_OK"
  using check_error_negative[of e] by (auto simp: check_error_def errors_def)

lemma with_path_keys:
  assumes "with_path P mem path body r s = Some (c, x, t)"
  obtains (failed) "c \<noteq> 0" "x = r" "keys t = keys s" | (name) tok u where "keys u = keys s" "body tok u = Some (c, x, t)"
proof -
  obtain tok u where u: "travel_path P mem path s = Some (tok, u)" using assms by (auto simp: with_path_def bind_eq_Some_conv)
  have k: "keys u = keys s" using keeps_travel_path[of s "keys s" P mem path] u by (simp add: keeps_def)
  show thesis
  proof (cases tok)
    case None
    with u assms travel_path_error[of P mem path s u] k show thesis by (intro failed) (auto simp: with_path_def)
  next
    case (Some i)
    with u assms k show thesis by (cases "length (drop i path) > TFS_NAME_LEN") (auto simp: with_path_def intro: failed name)
  qed
qed

text \<open>\<open>open\<close>, \<open>release\<close> and \<open>truncate\<close>\<close>

lemma fh_fd_of_nat:
  assumes "fd \<le> TFS_MAX_FDS"
  shows "fh_fd (of_int (int fd)) = int fd"
proof -
  have "take_bit 64 fd = fd" using assms by (intro take_bit_nat_eq_self) simp_all
  then have "(ucast (of_int (int fd) :: fuse_fh) :: byte) = word_of_int (int fd)" by (simp add: unsigned_of_nat)
  moreover have "sint (word_of_int (int fd) :: byte) = int fd"
    using assms by (subst signed_of_int) (simp, intro signed_take_bit_int_eq_self; simp)
  ultimately show ?thesis by (simp add: fh_fd_def)
qed

lemma open_request:
  assumes "op_open P mem path fh s = Some (c, fh', t)" and "length (handles s) = TFS_MAX_FDS"
  shows "c \<noteq> 0 \<and> counts t = counts s \<or>
    (\<exists>fd \<le> TFS_MAX_FDS. c = 0 \<and> fh_fd fh' = int fd \<and> counts t = (counts s)[fd := counts s ! fd + 1])"
  using assms(1) unfolding op_open_def
proof (cases rule: with_path_keys)
  case failed
  with counts_keys[OF failed(3)] show ?thesis by simp
next
  case (name tok u)
  then obtain fd where o: "tfs_open P (drop tok path) u = Some (fd, t)" "c = check_error (last_error t)" "fh' = of_int fd"
    by (auto simp: bind_eq_Some_conv)
  from name(1) have "counts u = counts s" by (rule counts_keys)
  then have cu: "counts u = counts s" .
  have l: "length (handles u) = TFS_MAX_FDS" using handles_of_counts[OF cu] assms(2) by simp
  from open_counts[OF o(1)] show ?thesis
  proof (elim disjE exE conjE)
    assume "last_error t \<noteq> TFS_ERR_OK" "keys t = keys u"
    then show ?thesis using o(2) cu counts_keys[of t u] by simp
  next
    fix k assume k: "k \<le> length (handles u)" "fd = int k" "last_error t = TFS_ERR_OK" "counts t = (counts u)[k := counts u ! k + 1]"
    then have "fh_fd fh' = int k" using fh_fd_of_nat[of k] o(3) l by simp
    with k o(2) l cu show ?thesis by (intro disjI2 exI[of _ k]) simp
  qed
qed

lemma truncate_request:
  assumes "op_truncate linux_platform mem path n s = Some (c, t)" and "length (handles s) = TFS_MAX_FDS"
    and "\<forall>fd < TFS_MAX_FDS. counts s ! fd \<noteq> 255"
  shows "counts t = counts s"
proof -
  obtain x where "with_path linux_platform mem path (\<lambda>tok s. do {
       (fh, s) \<leftarrow> tfs_open linux_platform (drop tok path) s;
       let err = check_error (last_error s)
       in if err \<noteq> 0 then Some (err, (), s)
          else do {
            s \<leftarrow> tfs_trunc linux_platform fh (of_int n) s;
            let err = check_error (last_error s);
                s = tfs_close fh s
            in Some (err, (), s)
          }
     }) () s = Some (c, x, t)" using assms(1) by (auto simp: op_truncate_def bind_eq_Some_conv)
  then show ?thesis
  proof (cases rule: with_path_keys)
    case failed
    from failed(3) show ?thesis by (rule counts_keys)
  next
    case (name tok u)
    from name(1) have cu: "counts u = counts s" by (rule counts_keys)
    obtain fh s1 where o: "tfs_open linux_platform (drop tok path) u = Some (fh, s1)" using name(2) by (auto simp: bind_eq_Some_conv)
    from open_counts[OF o] show ?thesis
    proof (elim disjE exE conjE)
      assume e: "last_error s1 \<noteq> TFS_ERR_OK" "keys s1 = keys u"
      then show ?thesis using name(2) o cu counts_keys[OF e(2)] by simp
    next
      fix fd assume fd: "fd \<le> length (handles u)" "fh = int fd" "last_error s1 = TFS_ERR_OK"
        "counts s1 = (counts u)[fd := counts u ! fd + 1]"
      obtain s2 where s2: "tfs_trunc linux_platform fh (of_int n) s1 = Some s2" "t = tfs_close fh s2"
        using name(2) o fd(3) by (auto simp: bind_eq_Some_conv)
      have "keys s2 = keys s1" using keeps_calls(7)[of s1 "keys s1" linux_platform fh "of_int n"] s2(1) by (simp add: keeps_def)
      then have c2: "counts s2 = (counts s)[fd := counts s ! fd + 1]" using fd(4) cu counts_keys[of s2 s1] by simp
      then have l2: "length (handles s2) = TFS_MAX_FDS" using handles_of_counts[OF c2] assms(2) by simp
      have d2: "has_dev s2" using trunc_keeps_dev[OF linux_device_stays _ s2(1)] fd(3) by simp
      show ?thesis
      proof (cases "fd = TFS_MAX_FDS")
        case True
        then show ?thesis using s2(2) fd(2) close_counts_behind[OF l2] c2 assms(2) by (simp add: list_update_beyond)
      next
        case False
        then have f: "fd < TFS_MAX_FDS" using fd(1) assms(2) handles_of_counts[OF cu] by simp
        moreover have "counts s ! fd + 1 \<noteq> 0"
        proof
          assume "counts s ! fd + 1 = 0"
          then have "counts s ! fd = - 1" by (simp add: add_eq_0_iff2)
          moreover have "(- 1 :: byte) = 255" by simp
          ultimately show False using assms(3) f by metis
        qed
        ultimately show ?thesis using close_counts_valid[OF d2, of fd] l2 c2 s2(2) fd(2) assms(2) by simp
      qed
    qed
  qed
qed

lemma byte_succ: "x \<noteq> 255 \<Longrightarrow> unat (x + 1) = unat x + 1" for x :: byte
proof -
  assume "x \<noteq> 255"
  then have "unat x \<noteq> 255" by (simp add: word_unat_eq_iff)
  moreover have "unat x < 256" using unsigned_less[of x] by simp
  ultimately have "unat x + 1 < 256" by simp

  then show ?thesis by (simp add: unat_plus_if_size word_size)
qed

lemma release_request:
  assumes "op_release fh s = (c, t)" and "length (handles s) = TFS_MAX_FDS"
  shows "c \<noteq> 0 \<and> counts t = counts s \<or>
    (\<exists>fd < TFS_MAX_FDS. c = 0 \<and> fh_fd fh = int fd \<and> counts s ! fd > 0 \<and> counts t = (counts s)[fd := counts s ! fd - 1])"
proof -
  have r: "c = check_error (last_error t)" "t = tfs_close (fh_fd fh) s" using assms(1) by (auto simp: op_release_def Let_def)
  have "int (length (handles s)) = int TFS_MAX_FDS" using assms(2) by simp
  from close_counts[OF this, of "fh_fd fh"] show ?thesis
  proof (elim disjE conjE)
    assume k: "0 \<le> fh_fd fh" "nat (fh_fd fh) < length (handles s)"
    assume "counts s ! nat (fh_fd fh) > 0" "last_error (tfs_close (fh_fd fh) s) = TFS_ERR_OK"
      "counts (tfs_close (fh_fd fh) s) = (counts s)[nat (fh_fd fh) := counts s ! nat (fh_fd fh) - 1]"
    with k r assms(2) show ?thesis by (intro disjI2 exI[of _ "nat (fh_fd fh)"]) simp
  qed (simp add: r)
qed

lemma request_counts:
  assumes r: "ops linux_platform mem ids q s = Some (r, t)" and l: "length (handles s) = TFS_MAX_FDS"
    and w: "\<forall>fd < TFS_MAX_FDS. counts s ! fd \<noteq> 255"
  shows "length (handles t) = TFS_MAX_FDS"
    and "fd < TFS_MAX_FDS \<Longrightarrow> unat (counts t ! fd) + of_bool (closes fd (q, r)) = unat (counts s ! fd) + of_bool (opens fd (q, r))"
    and "fd < TFS_MAX_FDS \<Longrightarrow> unat (counts t ! fd) \<le> unat (counts s ! fd) + of_bool (is_open q)"
proof -
  have "length (handles t) = TFS_MAX_FDS \<and> (fd < TFS_MAX_FDS \<longrightarrow>
      unat (counts t ! fd) + of_bool (closes fd (q, r)) = unat (counts s ! fd) + of_bool (opens fd (q, r)) \<and>
      unat (counts t ! fd) \<le> unat (counts s ! fd) + of_bool (is_open q))" for fd
  proof -
    consider (opn) path fh where "q = Open path fh" | (rel) fh where "q = Release fh" | (trn) path n where "q = Truncate path n"
      | (other) "\<And>path fh. q \<noteq> Open path fh" "\<And>fh. q \<noteq> Release fh" "\<And>path n. q \<noteq> Truncate path n" by blast
    then show ?thesis
    proof cases
      case opn
      then obtain c fh' where o: "op_open linux_platform mem path fh s = Some (c, fh', t)" "r = Handle c fh'"
        using r by (auto simp: bind_eq_Some_conv)
      from open_request[OF o(1) l] show ?thesis
      proof (elim disjE exE conjE)
        assume c: "c \<noteq> 0" "counts t = counts s"
        with handles_of_counts[OF c(2)] l opn o show ?thesis by simp
      next
        fix k assume k: "c = 0" "fh_fd fh' = int k" "counts t = (counts s)[k := counts s ! k + 1]"
        have "unat (counts s ! fd + 1) = unat (counts s ! fd) + 1" if "fd < TFS_MAX_FDS"
          using byte_succ w that by blast
        with handles_of_counts[OF k(3)] k l opn o show ?thesis by (auto simp: nth_list_update)
      qed
    next
      case rel
      then obtain c where o: "op_release fh s = (c, t)" "r = Code c" using r by (auto split: prod.splits)
      from release_request[OF o(1) l] show ?thesis
      proof (elim disjE exE conjE)
        assume c: "c \<noteq> 0" "counts t = counts s"
        with handles_of_counts[OF c(2)] l rel o show ?thesis by simp
      next
        fix k assume k: "c = 0" "fh_fd fh = int k" "counts s ! k > 0" "counts t = (counts s)[k := counts s ! k - 1]"
        have "unat (counts s ! k - 1) + 1 = unat (counts s ! k)"
          using k(3) by (simp add: unat_minus_one word_gt_0 unat_gt_0)
        with handles_of_counts[OF k(4)] k l rel o show ?thesis by (auto simp: nth_list_update)
      qed
    next
      case trn
      then obtain c where o: "op_truncate linux_platform mem path n s = Some (c, t)" "r = Code c"
        using r by (auto simp: bind_eq_Some_conv)
      have "counts t = counts s" by (rule truncate_request[OF o(1) l w])
      with handles_of_counts[OF this] l trn o show ?thesis by simp
    next
      case other
      have "counts t = counts s" by (rule counts_keys[OF request_keys[OF r other]])
      moreover have "\<not> opens fd (q, r)" "\<not> closes fd (q, r)" using other by (cases q; simp)+
      ultimately show ?thesis using handles_of_counts[of t "counts s"] l by simp
    qed
  qed
  then show "length (handles t) = TFS_MAX_FDS"
    "fd < TFS_MAX_FDS \<Longrightarrow> unat (counts t ! fd) + of_bool (closes fd (q, r)) = unat (counts s ! fd) + of_bool (opens fd (q, r))"
    "fd < TFS_MAX_FDS \<Longrightarrow> unat (counts t ! fd) \<le> unat (counts s ! fd) + of_bool (is_open q)" by blast+
qed

lemma serve_counts:
  assumes "serve linux_platform mem ids qs s = Some (rs, t)" and "length (handles s) = TFS_MAX_FDS"
    and "\<forall>fd < TFS_MAX_FDS. unat (counts s ! fd) + length (filter is_open qs) < 255" and "fd < TFS_MAX_FDS"
  shows "length (handles t) = TFS_MAX_FDS \<and>
    unat (counts t ! fd) + length (filter (closes fd) (zip qs rs)) = unat (counts s ! fd) + length (filter (opens fd) (zip qs rs))"
  using assms
proof (induction qs arbitrary: s rs)
  case (Cons q qs)
  then obtain r u rs' where u: "ops linux_platform mem ids q s = Some (r, u)" "serve linux_platform mem ids qs u = Some (rs', t)"
    "rs = r # rs'" by (auto simp: bind_eq_Some_conv)
  have w: "\<forall>fd < TFS_MAX_FDS. counts s ! fd \<noteq> 255" using Cons.prems(3) by force
  note q = request_counts[OF u(1) Cons.prems(2) w]
  have "unat (counts u ! k) + length (filter is_open qs) < 255" if "k < TFS_MAX_FDS" for k
  proof -
    have "unat (counts s ! k) + length (filter is_open (q # qs)) < 255" using Cons.prems(3) that by blast
    with q(3)[OF that] show ?thesis by (simp split: if_splits)
  qed
  with Cons.IH[OF u(2) q(1) _ Cons.prems(4)] q(2)[OF Cons.prems(4)] show ?case by (simp add: u(3) of_bool_def split: if_splits)
qed simp

text \<open>A file that is open can be truncated by its path.\<close>

lemma file_open_cong:
  assumes "ld.file_open s fd ds d i xs bs" and "linux_contents (dev t) = linux_contents (dev s)" and "blk_count t = blk_count s"
    and "length (handles t) = length (handles s)" and "valid_fd (int fd) t" and "hnd fd t = (hnd fd s)\<lparr>usage_count := n\<rparr>"
  shows "ld.file_open t fd ds d i xs bs"
  using assms by (auto simp: ld.file_open_def ld.handle_on_def ld.entry_on_def ld.file_at_def)

lemma truncate_open_file:
  assumes "ld.mounted s" and "last_error s = TFS_ERR_OK" and "part_ok name" and "ld.dir_ok (s\<lparr>current_dir_blk := TFS_ROOT_DIR_BLK\<rparr>) ds"
    and lk: "dir_lookup (linux_contents (dev s)) (strncmp_filename_cmp name) ds = Some (d, i)" and op: "ld.file_open s fd ds d i xs bs"
    and "handles_ok (handles s)" and "usage_count (hnd fd s) = 1"
  obtains c t where "op_truncate linux_platform True (path_of [] name) 0 s = Some (c, t)"
proof -
  have n: "name_ok name" "length name \<le> TFS_NAME_LEN" "c_at name 0 \<noteq> 0"
    using assms(3) part_nonempty by (auto simp: part_ok_def)
  have w: "walk s TFS_ROOT_DIR_BLK [] TFS_ROOT_DIR_BLK" "\<forall>c \<in> set []. part_ok c" by simp_all
  show thesis
  proof (rule with_path_walk[OF assms(1,2) w n(1,2)])
    fix u tok
    assume u: "\<And>body (r :: unit). with_path linux_platform True (path_of [] name) body r s = body tok u"
      "ld.mounted u" "linux_contents (dev u) = linux_contents (dev s)" "blk_count u = blk_count s"
      "current_dir_blk u = TFS_ROOT_DIR_BLK" "handles u = handles s" "drop tok (path_of [] name) = name"
    have ok: "ld.dir_ok u ds" using assms(4) u(3-5) by (simp add: ld.dir_ok_def)
    note o = ld.file_openD[OF op]
    have h: "fd < length (handles u)" "fh_key (handles u ! fd) = (d, Some i)" "usage_count (handles u ! fd) > 0" "handles_ok (handles u)"
      "usage_count (handles u ! fd) = 1"
      using o(2,3) assms(7,8) by (simp_all add: u(6) ld.handle_on_def ld.entry_on_def fh_key_def hnd_def)
    have reg: "item_type (linux_contents (dev s) d) i = TFS_DIR_ITEM_FILE" using o(5) by (simp add: ld.file_at_def file_holds_def get_item_def)
    note live = live_fd[OF h(4,1-3)]
    show thesis using u(2) ok n(3)
    proof (cases rule: ld.open_cases)
      case (again d' i' fd' s1)
      then have fd: "fd' = fd" using lk live u(3) by simp
      let ?s = "upd_hnd fd (\<lambda>h. h\<lparr>usage_count := usage_count h + 1\<rparr>) s1"
      have s1: "handles s1 = handles u" "blk_count s1 = blk_count u" "current_dir_blk s1 = current_dir_blk u" using fs_frameD[OF again(6)] by simp_all
      have m: "ld.mounted ?s" "ld.dir_ok ?s ds" "last_error ?s = TFS_ERR_OK"
        using ld.mounted_ready[OF again(5)] ld.readyD(3)[OF again(5)] ok again(7) s1 by (simp_all add: ld.dir_ok_def)
      have fo: "ld.file_open ?s fd ds d i xs bs"
        by (rule file_open_cong[OF op, where n = 2])
          (use again(7) u(3,4,6) s1 h o(1) in \<open>simp_all add: hnd_def upd_hnd_def valid_fd_def\<close>)
      have "(0 :: u32) = 0 \<or> unat (0 :: u32) div 504 < length xs" by simp
      then show thesis
      proof (rule ld.trunc_open_file[OF m(1,2) fo])
        fix s2 assume t: "tfs_trunc linux_platform (int fd) 0 ?s = Some s2"
        have "tfs_open linux_platform name u = Some (int fd, ?s)"
          using again(4) fd by (simp add: drive_deselect_def linux_drive_deselect_def)
        with t m(3) show thesis
          by (intro that[of "check_error (last_error s2)" "tfs_close (int fd) s2"]) (simp add: op_truncate_def u(1,7))
      qed
    next
      case (missing s')
      with lk reg u(3) show thesis by auto
    next
      case (none_left d' i' s')
      with lk live u(3) show thesis by simp
    next
      case (fresh d' i' fd' s1)
      with lk live u(3) show thesis by simp
    qed
  qed
qed

end
