(* ===== verification/Fuse_Props.thy ===== *)
theory Fuse_Props
  imports Fuse_Handles
begin

text \<open>
  Properties of the FUSE front end: how its paths and attributes follow the directories on the medium, what
  a failed call does to the next ones, and which handles are in use after a list of requests.
\<close>

section \<open>A failed call\<close>

definition request_path :: "'b request \<Rightarrow> byte list option" where
  "request_path q = (case q of GetAttr p _ \<Rightarrow> Some p | MkNod p \<Rightarrow> Some p | MkDir p \<Rightarrow> Some p | Unlink p \<Rightarrow> Some p
     | RmDir p \<Rightarrow> Some p | Rename p _ \<Rightarrow> Some p | Truncate p _ \<Rightarrow> Some p | Open p _ \<Rightarrow> Some p | ReadDir p _ _ \<Rightarrow> Some p
     | _ \<Rightarrow> None)"

definition reply_code :: "'b reply \<Rightarrow> int" where
  "reply_code r = (case r of Code c \<Rightarrow> c | Attr c _ \<Rightarrow> c | Data c _ \<Rightarrow> c | Vfs c _ \<Rightarrow> c | Handle c _ \<Rightarrow> c | Listed c _ \<Rightarrow> c)"

lemma travel_path_stuck:
  "last_error s \<noteq> TFS_ERR_OK \<Longrightarrow> c_at path 0 = slash \<Longrightarrow> travel_path P mem path s = Some (None, tfs_change_dir_root s)"
  by (simp add: travel_path_def tfs_change_dir_root_def Let_def)

text \<open>The attributes as libfuse hands them in.\<close>

abbreviation zero_stat :: stat where
  "zero_stat \<equiv> \<lparr>st_mode = 0, st_nlink = 0, st_uid = 0, st_gid = 0, st_size = 0\<rparr>"

text \<open>C25: \<open>tfs_change_dir_root\<close> leaves \<open>tfs_last_error\<close> as it is, and \<open>travel_path\<close> takes the error of an
  earlier call for its own.  Once a call has failed, every request with an absolute path, other than
  the attributes of the root, fails with that call's error, touches nothing, and leaves the error there
  for the next request.\<close>

theorem failed_call_sticks:
  assumes "last_error s \<noteq> TFS_ERR_OK" and "request_path q = Some path" and "c_at path 0 = slash"
    and "\<And>st. q = GetAttr path st \<Longrightarrow> path \<noteq> [slash]"
  shows "\<exists>r. ops P mem ids q s = Some (r, tfs_change_dir_root s) \<and> reply_code r = check_error (last_error s) \<and>
    reply_code r < 0 \<and> last_error (tfs_change_dir_root s) = last_error s"
proof -
  note t = travel_path_stuck[OF assms(1,3), of P mem]
  have e: "check_error (last_error s) < 0" using assms(1) by (rule check_error_negative)
  have l: "last_error (tfs_change_dir_root s) = last_error s" by (simp add: tfs_change_dir_root_def)
  show ?thesis using assms(2,4)
    by (cases q) (simp_all add: request_path_def reply_code_def op_getattr_def op_readdir_def op_mkdir_def op_unlink_def
      op_rmdir_def op_mknod_def op_rename_def op_open_def op_truncate_def path_call_def with_path_def t e l Let_def)
qed

lemma failed_call_sticks_witness:
  "\<exists>s1 r. ops linux_platform True (0, 0) (GetAttr (path_of [] demo_name) zero_stat) (set_error TFS_ERR_NOT_EMPTY demo_file_fs) =
    Some (r :: unit reply, s1) \<and> reply_code r = - 39"
proof -
  have "c_at (path_of [] demo_name) 0 = slash" "path_of [] demo_name \<noteq> [slash]"
    by (simp_all add: path_of_def demo_name_def ascii_def)
  with failed_call_sticks[of "set_error TFS_ERR_NOT_EMPTY demo_file_fs" "GetAttr (path_of [] demo_name) zero_stat :: unit request"
      "path_of [] demo_name" linux_platform True "(0, 0)"]
  show ?thesis by (auto simp: request_path_def check_error_def errors_def)
qed

section \<open>Handles and requests\<close>

text \<open>C26: whatever requests libfuse sends and however the drive fails, after the mount every handle is in use
  exactly as often as an \<open>open\<close> returned it and no successful \<open>release\<close> gave it back, as long as fewer than 255
  files are opened (the count is a byte, C23).  No other request keeps a handle: \<open>truncate\<close>, which opens the
  file itself, closes it again on every path.\<close>

theorem handles_are_accounted_for:
  assumes "serve linux_platform mem ids qs (tfs_init linux_platform s) = Some (rs, t)"
    and "length (filter is_open qs) < 255" and "fd < TFS_MAX_FDS"
  shows "unat (usage_count (handles t ! fd)) + length (filter (closes fd) (zip qs rs)) =
    length (filter (opens fd) (zip qs rs))"
proof -
  have i: "counts (tfs_init linux_platform s) = replicate TFS_MAX_FDS 0" by (simp add: init_counts)
  have "length (handles t) = TFS_MAX_FDS \<and>
      unat (counts t ! fd) + length (filter (closes fd) (zip qs rs)) = length (filter (opens fd) (zip qs rs))"
    using serve_counts[OF assms(1) _ _ assms(3)] handles_of_counts[OF i] assms(2,3) by (simp add: i)
  then show ?thesis using assms(3) by (auto simp: counts_def)
qed

text \<open>The file \<open>a\<close> is opened, and then truncated by its path: one handle is in use.\<close>

lemma handles_are_accounted_for_witness:
  "\<exists>fd fh rs t. serve linux_platform True (0, 0) [Open (path_of [] demo_name) 0, Truncate (path_of [] demo_name) 0]
      demo_server = Some (Handle 0 fh # (rs :: unit reply list), t) \<and> fh_fd fh = int fd \<and>
    usage_count (handles t ! fd) = 1"
proof (rule demo_mount)
  fix pos xs ds
  assume a: "ld.mounted demo_server" "last_error demo_server = TFS_ERR_OK" "ld.dir_ok (demo_server\<lparr>current_dir_blk := TFS_ROOT_DIR_BLK\<rparr>) ds"
    "dir_find (linux_contents (dev demo_server)) (strncmp_filename_cmp demo_name) ds = Some (demo_item pos)"
    "ld.file_at demo_server ds (demo_item pos) xs [1, 2, 3]" "handles demo_server = replicate TFS_MAX_FDS zero_handle"
  have n: "part_ok demo_name" "name_ok demo_name" "length demo_name \<le> TFS_NAME_LEN"
    by (simp_all add: part_ok_def name_ok_def demo_name_def ascii_def)
  have w: "walk demo_server TFS_ROOT_DIR_BLK [] TFS_ROOT_DIR_BLK" "\<forall>c \<in> set []. part_ok c" by simp_all
  show ?thesis
  proof (rule with_path_walk[OF a(1,2) w n(2,3)])
    fix u tok
    assume u: "\<And>body (r :: fuse_fh). with_path linux_platform True (path_of [] demo_name) body r demo_server = body tok u"
      "ld.mounted u" "linux_contents (dev u) = linux_contents (dev demo_server)" "blk_count u = blk_count demo_server"
      "current_dir_blk u = TFS_ROOT_DIR_BLK" "handles u = handles demo_server" "drop tok (path_of [] demo_name) = demo_name"
    have h: "length (handles u) = TFS_MAX_FDS" "length [1, 2, 3 :: byte] + 504 < 2 ^ 32" "\<exists>h \<in> set (handles u). \<not> usage_count h > 0"
      "\<And>d i. \<forall>h \<in> set (handles u). fh_key h = (d, Some i) \<longrightarrow> \<not> usage_count h > 0" "handles_ok (handles u)"
      by (simp_all add: u(6) a(6) zero_handle_def handles_ok_none)
    have d: "ld.dir_ok u ds" "ld.file_at u ds (demo_item pos) xs [1, 2, 3]"
      "dir_find (linux_contents (dev u)) (pf_filename_cmp linux_platform demo_name) ds = Some (demo_item pos)"
      using a(3-5) u(3-5) by (simp_all add: ld.dir_ok_def ld.file_at_def)
    show ?thesis
    proof (rule ld.open_file_open[OF u(2) d(1) demo_name_nonempty h(1) d(3,2) h(2-4)])
      fix fd s0 d' i
      assume o: "tfs_open linux_platform demo_name u = Some (int fd, s0)" "last_error s0 = TFS_ERR_OK" "ld.mounted s0"
        "linux_contents (dev s0) = linux_contents (dev u)" "drive_info s0 = drive_info u"
        "dir_lookup (linux_contents (dev s0)) (pf_filename_cmp linux_platform demo_name) ds = Some (d', i)" "ld.file_open s0 fd ds d' i xs [1, 2, 3]"
      have v: "fd < TFS_MAX_FDS" using ld.file_openD(1)[OF o(7)] by (simp add: valid_fd_def)
      have "counts s0 = (counts u)[fd := counts u ! fd + 1]" using open_counts[OF o(1)] o(2) by auto
      then have c: "counts s0 = (counts u)[fd := 1]" using v by (simp add: counts_def u(6) a(6) zero_handle_def)
      have "usage_count (hnd fd s0) = 1"
        using arg_cong[OF c, of "\<lambda>cs. cs ! fd"] v h(1) handles_of_counts[OF c] by (simp add: counts_def hnd_def)
      moreover have "handles_ok (handles s0)" using open_keeps_handles_ok[OF o(1) h(5)] by simp
      moreover have "ld.dir_ok (s0\<lparr>current_dir_blk := TFS_ROOT_DIR_BLK\<rparr>) ds" using d(1) o(4,5) u(5) by (simp add: ld.dir_ok_def)
      moreover have "dir_lookup (linux_contents (dev s0)) (strncmp_filename_cmp demo_name) ds = Some (d', i)" using o(6) by simp
      ultimately obtain k t where t: "op_truncate linux_platform True (path_of [] demo_name) 0 s0 = Some (k, t)"
        using truncate_open_file[OF o(3,2) n(1) _ _ o(7)] by blast
      have sv: "serve linux_platform True (0, 0) [Open (path_of [] demo_name) 0, Truncate (path_of [] demo_name) 0] demo_server =
          Some ([Handle 0 (of_int (int fd)), Code k :: unit reply], t)"
        using o(1,2) t by (simp add: op_open_def u(1,7))
      then have "usage_count (handles t ! fd) = 1"
        using handles_are_accounted_for[OF sv _ v] fh_fd_of_nat[of fd] v by (simp add: word_unat_eq_iff)
      moreover have "fh_fd (of_int (int fd)) = int fd" using fh_fd_of_nat[of fd] v by simp
      ultimately show ?thesis using sv by (intro exI conjI)
    qed
  qed
qed

section \<open>Paths and attributes\<close>

lemma getattr_in_dir:
  assumes "ld.mounted s" and "last_error s = TFS_ERR_OK" and "walk s TFS_ROOT_DIR_BLK cs e" and "\<forall>c \<in> set cs. part_ok c"
    and name: "part_ok name" and ds: "ld.dir_ok (s\<lparr>current_dir_blk := e\<rparr>) ds"
  shows "\<exists>r st1 s1. op_getattr linux_platform True ids (path_of cs name) st s = Some (r, st1, s1) \<and>
    last_error s1 = TFS_ERR_OK \<and> ld.mounted s1 \<and> linux_contents (dev s1) = linux_contents (dev s) \<and>
    (case dir_find (linux_contents (dev s)) (strncmp_filename_cmp name) ds of
       None \<Rightarrow> r = - 2
     | Some it \<Rightarrow> (r, st1) = item_to_stat it (st\<lparr>st_uid := fst ids, st_gid := snd ids, st_nlink := 1\<rparr>))"
proof -
  have n: "name_ok name" "length name \<le> TFS_NAME_LEN" "c_at name 0 \<noteq> 0" "path_of cs name \<noteq> [slash]"
    using name part_nonempty by (auto simp: part_ok_def path_of_def)
  show ?thesis
  proof (rule with_path_walk[OF assms(1-4) n(1,2)])
    fix s1 tok
    assume s1: "\<And>body (r :: stat). with_path linux_platform True (path_of cs name) body r s = body tok s1"
      "last_error s1 = TFS_ERR_OK" "ld.mounted s1" "linux_contents (dev s1) = linux_contents (dev s)"
      "blk_count s1 = blk_count s" "current_dir_blk s1 = e" "drop tok (path_of cs name) = name"
    have dk: "ld.dir_ok s1 ds" using ds s1(4-6) by (simp add: ld.dir_ok_def)
    obtain i s2 where s2: "tfs_stat linux_platform name s1 = Some (i, s2)"
      "last_error s2 = TFS_ERR_OK" "ld.mounted s2" "linux_contents (dev s2) = linux_contents (dev s1)"
      "map_option (get_item (blk_buf s2)) i = dir_find (linux_contents (dev s1)) (strncmp_filename_cmp name) ds"
      by (rule ld.stat_spec[OF s1(3) dk n(3), unfolded linux_platform_simps])
    show ?thesis
      using n(4) s1(4) s2(1-4) s2(5)[symmetric] by (cases i) (auto simp: op_getattr_def Let_def s1(1,7) check_error_def split: prod.split)
  qed
qed



lemma c_at_drop: "c_at (drop k xs) 0 = c_at xs k"
  by (simp add: c_at_def)

text \<open>The last step of a walk is an entry of the directory before it.\<close>

lemma walk_last:
  assumes "walk s d (cs @ [c]) e"
  obtains m ds it where "walk s d cs m" "ld.dir_ok (s\<lparr>current_dir_blk := m\<rparr>) ds"
    "dir_find (linux_contents (dev s)) (strncmp_filename_cmp c) ds = Some it" "it_type it = TFS_DIR_ITEM_DIR" "it_blk it = e"
  using assms by (induction cs arbitrary: d thesis) (simp, blast, simp, metis)

text \<open>What libfuse is told of an entry.\<close>

definition listed :: "u32 \<times> u32 \<Rightarrow> dir_item \<Rightarrow> byte list \<times> stat option" where
  "listed ids it = (c_str (strncpy TFS_NAME_LEN (it_name it)),
     Some (snd (item_to_stat it \<lparr>st_mode = 0, st_nlink = 1, st_uid = fst ids, st_gid = snd ids, st_size = 0\<rparr>)))"

definition listing :: "u32 \<times> u32 \<Rightarrow> dir_item list \<Rightarrow> (byte list \<times> stat option) list" where
  "listing ids its = [(ascii ''.'', None), (ascii ''..'', None)] @
     map (listed ids) (filter (\<lambda>it. it_type it \<in> {TFS_DIR_ITEM_DIR, TFS_DIR_ITEM_FILE}) its)"

lemma visit_listed:
  "visit (tfs_dir_handler ids (\<lambda>b n st. b @ [(n, st)])) its buf =
     (buf @ map (listed ids) (filter (\<lambda>it. it_type it \<in> {TFS_DIR_ITEM_DIR, TFS_DIR_ITEM_FILE}) its), True)"
  by (induction its arbitrary: buf) (auto simp: tfs_dir_handler_def listed_def item_to_stat_def)

lemma read_dir_lists:
  assumes "ld.mounted s" and "ld.dir_ok s ds"
  obtains s1 where "tfs_read_dir linux_platform (tfs_dir_handler ids (\<lambda>b n st. b @ [(n, st)]))
      [(ascii ''.'', None), (ascii ''..'', None)] s = Some ((True, listing ids (dir_items (linux_contents (dev s)) ds)), s1)"
    "last_error s1 = TFS_ERR_OK" "linux_contents (dev s1) = linux_contents (dev s)"
proof -
  let ?h = "tfs_dir_handler ids (\<lambda>b n st. b @ [(n, st)])" and ?dots = "[(ascii ''.'', None), (ascii ''..'', None)]"
  have "filter (\<lambda>it. it_type it \<in> {TFS_DIR_ITEM_DIR, TFS_DIR_ITEM_FILE}) (ld.all_slots s ds) =
      filter (\<lambda>it. it_type it \<in> {TFS_DIR_ITEM_DIR, TFS_DIR_ITEM_FILE}) (dir_items (linux_contents (dev s)) ds)"
    by (auto simp: ld.all_slots_def dir_items_slots intro: filter_cong)
  moreover obtain s1 where "tfs_read_dir linux_platform ?h ?dots s =
      Some ((snd (visit ?h (ld.all_slots s ds) ?dots), fst (visit ?h (ld.all_slots s ds) ?dots)), s1)"
    "last_error s1 = TFS_ERR_OK" "linux_contents (dev s1) = linux_contents (dev s)"
    by (rule ld.read_dir_spec[OF assms])
  ultimately show thesis using that by (simp add: visit_listed listing_def)
qed

text \<open>C28: \<open>readdir\<close> of a directory, whether its path ends with its name (\<open>/a/b\<close>, which \<open>op_readdir\<close> has to
  enter itself) or with a slash (\<open>/a/b/\<close>, and the root), gives libfuse the two dot entries and then every
  file and directory in it, in their order on the medium, with their names and attributes.\<close>

theorem readdir_lists_entries:
  assumes "ld.mounted s" and "last_error s = TFS_ERR_OK" and "walk s TFS_ROOT_DIR_BLK cs e" and "\<forall>c \<in> set cs. part_ok c"
    and ds: "ld.dir_ok (s\<lparr>current_dir_blk := e\<rparr>) ds"
    and path: "path = path_of cs [] \<or> cs \<noteq> [] \<and> path = path_of (butlast cs) (last cs)"
  shows "\<exists>s1. op_readdir linux_platform True ids path (\<lambda>b n st. b @ [(n, st)]) [] s =
      Some (0, listing ids (dir_items (linux_contents (dev s)) ds), s1) \<and>
    last_error s1 = TFS_ERR_OK \<and> linux_contents (dev s1) = linux_contents (dev s)"
  using path
proof
  assume p: "path = path_of cs []"
  have n: "name_ok []" "length ([] :: byte list) \<le> TFS_NAME_LEN" by (simp_all add: name_ok_def)
  show ?thesis
  proof (rule with_path_walk[OF assms(1-4) n])
    fix s1 tok
    assume s1: "\<And>body (r :: (byte list \<times> stat option) list). with_path linux_platform True (path_of cs []) body r s = body tok s1"
      "ld.mounted s1" "linux_contents (dev s1) = linux_contents (dev s)"
      "blk_count s1 = blk_count s" "current_dir_blk s1 = e" "drop tok (path_of cs []) = []"
    have tok: "c_at (path_of cs []) tok = 0" using c_at_drop[of tok "path_of cs []"] s1(6) by simp
    have "ld.dir_ok s1 ds" using ds s1(3-5) by (simp add: ld.dir_ok_def)
    from s1(2) this obtain s2 where "tfs_read_dir linux_platform (tfs_dir_handler ids (\<lambda>b n st. b @ [(n, st)]))
        [(ascii ''.'', None), (ascii ''..'', None)] s1 = Some ((True, listing ids (dir_items (linux_contents (dev s)) ds)), s2)"
      "last_error s2 = TFS_ERR_OK" "linux_contents (dev s2) = linux_contents (dev s)"
      by (rule read_dir_lists[of s1 ds ids, unfolded s1(3)])
    with tok show ?thesis by (intro exI[of _ s2]) (simp add: p op_readdir_def s1(1) check_error_def)
  qed
next
  assume p: "cs \<noteq> [] \<and> path = path_of (butlast cs) (last cs)"
  let ?c = "last cs" and ?p = "path_of (butlast cs) (last cs)"
  have "walk s TFS_ROOT_DIR_BLK (butlast cs @ [?c]) e" using p assms(3) by simp
  then show ?thesis
  proof (rule walk_last)
    fix m es it
    assume w: "walk s TFS_ROOT_DIR_BLK (butlast cs) m" "ld.dir_ok (s\<lparr>current_dir_blk := m\<rparr>) es"
      "dir_find (linux_contents (dev s)) (strncmp_filename_cmp ?c) es = Some it" "it_type it = TFS_DIR_ITEM_DIR" "it_blk it = e"
    have b: "\<forall>c \<in> set (butlast cs). part_ok c" using assms(4) in_set_butlastD[of _ cs] by blast
    have n: "name_ok ?c" "length ?c \<le> TFS_NAME_LEN" "c_at ?c 0 \<noteq> 0"
      using p assms(4) part_nonempty[of ?c] by (simp_all add: part_ok_def)
    show ?thesis
    proof (rule with_path_walk[OF assms(1,2) w(1) b n(1,2)])
      fix s1 tok
      assume s1: "\<And>body (r :: (byte list \<times> stat option) list). with_path linux_platform True ?p body r s = body tok s1"
        "ld.mounted s1" "linux_contents (dev s1) = linux_contents (dev s)"
        "blk_count s1 = blk_count s" "current_dir_blk s1 = m" "drop tok ?p = ?c"
      have tok: "c_at ?p tok \<noteq> 0" using n(3) c_at_drop[of tok ?p] s1(6) by simp
      have "ld.dir_ok s1 es" using w(2) s1(3-5) by (simp add: ld.dir_ok_def)
      from s1(2) this n(3) show ?thesis
      proof (cases rule: ld.change_dir_cases)
        case (none s2)
        with w(3,4) s1(3) show ?thesis by simp
      next
        case (found it' s2)
        have c2: "linux_contents (dev s2) = linux_contents (dev s)" using found(6) s1(3) by simp
        have "it' = it" using found(1) w(3) s1(3) by simp
        then have "ld.dir_ok s2 ds" using ds w(5) c2 found(7,8) s1(4) by (simp add: ld.dir_ok_def)
        with found(5) obtain s3 where "tfs_read_dir linux_platform (tfs_dir_handler ids (\<lambda>b n st. b @ [(n, st)]))
            [(ascii ''.'', None), (ascii ''..'', None)] s2 = Some ((True, listing ids (dir_items (linux_contents (dev s)) ds)), s3)"
          "last_error s3 = TFS_ERR_OK" "linux_contents (dev s3) = linux_contents (dev s)"
          by (rule read_dir_lists[of s2 ds ids, unfolded c2])
        with found(3,4) tok show ?thesis by (intro exI[of _ s3]) (simp add: p op_readdir_def s1(1,6) check_error_def)
      qed
    qed
  qed
qed

text \<open>The listings of \<open>/\<close> and of \<open>/a\<close>, where \<open>a\<close> is an empty directory.\<close>

lemma readdir_lists_entries_witness:
  "\<exists>b its s1 s2. op_readdir linux_platform True (7, 8) (path_of [] []) (\<lambda>b n st. b @ [(n, st)]) [] demo_dir_fs =
      Some (0, listing (7, 8) its, s1) \<and> demo_dir_item b \<in> set its \<and>
    op_readdir linux_platform True (7, 8) (path_of [] demo_name) (\<lambda>b n st. b @ [(n, st)]) [] demo_dir_fs =
      Some (0, listing (7, 8) [], s2)"
proof (rule demo_dir)
  fix b ds d i
  let ?C = "linux_contents (dev demo_dir_fs)"
  assume a: "ld.mounted demo_dir_fs" "ld.dir_ok demo_dir_fs ds" "dir_lookup ?C (strncmp_filename_cmp demo_name) ds = Some (d, i)"
    "get_item (?C d) i = demo_dir_item b" "chain ?C b [b]" "owned ?C (blk_count demo_dir_fs) [b]" "dir_items ?C [b] = []"
    "back_links ?C 0 [b]" "last_error demo_dir_fs = TFS_ERR_OK" "current_dir_blk demo_dir_fs = 1"
  have w: "walk demo_dir_fs TFS_ROOT_DIR_BLK [] TFS_ROOT_DIR_BLK" "part_ok demo_name"
    "ld.dir_ok (demo_dir_fs\<lparr>current_dir_blk := TFS_ROOT_DIR_BLK\<rparr>) ds" "ld.dir_ok (demo_dir_fs\<lparr>current_dir_blk := b\<rparr>) [b]"
    using a(2,5,6,8,10) by (simp_all add: part_ok_def name_ok_def demo_name_def ascii_def ld.dir_ok_def)
  have f: "dir_find ?C (strncmp_filename_cmp demo_name) ds = Some (demo_dir_item b)" using a(3,4) by (simp add: dir_find_def slot_item_def)
  then have "demo_dir_item b \<in> set (dir_items ?C ds)" by (auto simp: dir_find_items find_Some_iff)
  moreover have w1: "walk demo_dir_fs TFS_ROOT_DIR_BLK [demo_name] b" using f w(3) by (auto intro!: exI[of _ ds])
  ultimately show ?thesis
    using readdir_lists_entries[OF a(1,9) w(1) _ w(3), of "path_of [] []" "(7, 8)"]
      readdir_lists_entries[OF a(1,9) w1 _ w(4), of "path_of [] demo_name" "(7, 8)"] w(2) a(7) by auto
qed

text \<open>Sizes and offsets beyond 32 bits are cut silently: to truncate a file to \<open>2 ^ 32\<close> bytes is to truncate it to 0,
  and a write at offset \<open>2 ^ 32\<close> changes the beginning of the file.\<close>

theorem sizes_are_cut:
  "op_truncate P mem path (n + 2 ^ 32 * k) s = op_truncate P mem path n s \<and>
   op_ftruncate P (n + 2 ^ 32 * k) fh s = op_ftruncate P n fh s \<and>
   op_read P cnt (n + 2 ^ 32 * k) fh s = op_read P cnt n fh s \<and>
   op_write P buf (n + 2 ^ 32 * k) fh s = op_write P buf n fh s"
proof -
  have "of_int (n + 2 ^ 32 * k) = (of_int n :: u32)"
    unfolding word_of_int_eq_iff by (simp add: take_bit_eq_mod)
  then show ?thesis by (simp only: op_truncate_def op_ftruncate_def op_read_def op_write_def)
qed

section \<open>A directory made by a request\<close>

text \<open>C30: with two free blocks, \<open>mkdir\<close> of a new name in the root directory returns 0, and \<open>getattr\<close> of the same
  path then reports a directory.\<close>

theorem mkdir_then_getattr:
  assumes "ld.mounted s" and "last_error s = TFS_ERR_OK" and name: "part_ok name"
    and ds: "ld.dir_ok (s\<lparr>current_dir_blk := TFS_ROOT_DIR_BLK\<rparr>) ds"
    and new: "dir_find (linux_contents (dev s)) (strncmp_filename_cmp name) ds = None"
    and room: "1 < card (free_set (linux_contents (dev s)) (blk_count s))"
  shows "\<exists>s1 st1 s2. op_mkdir linux_platform True (path_of [] name) s = Some (0, s1) \<and>
    op_getattr linux_platform True ids (path_of [] name) st s1 = Some (0, st1, s2) \<and> st_mode st1 = mode_dir"
proof -
  have n: "name_ok name" "length name \<le> TFS_NAME_LEN" "c_at name 0 \<noteq> 0"
    using name part_nonempty by (auto simp: part_ok_def)
  have w: "walk s TFS_ROOT_DIR_BLK [] TFS_ROOT_DIR_BLK" "\<forall>c \<in> set []. part_ok c" by simp_all
  show ?thesis
  proof (rule with_path_walk[OF assms(1,2) w n(1,2)])
    fix s0 tok
    assume s0: "\<And>body (r :: unit). with_path linux_platform True (path_of [] name) body r s = body tok s0"
      "last_error s0 = TFS_ERR_OK" "ld.mounted s0" "linux_contents (dev s0) = linux_contents (dev s)"
      "blk_count s0 = blk_count s" "current_dir_blk s0 = TFS_ROOT_DIR_BLK" "drop tok (path_of [] name) = name"
    have d0: "ld.dir_ok s0 ds" using ds s0(4-6) by (simp add: ld.dir_ok_def)
    show ?thesis
    proof (rule ld.create_dir_cases[OF s0(3) d0 n(3)])
      fix p assume "dir_lookup (linux_contents (dev s0)) (pf_filename_cmp linux_platform name) ds = Some p"
      with new s0(4) show ?thesis by (simp add: dir_find_def)
    next
      fix ds1 s1 assume "free_set (linux_contents (dev s1)) (blk_count s1) = {}" "ld.dir_grown s0 s1 ds ds1 {}"
      from ld.grown_until_full[OF this(2) d0 this(1)] room s0(4,5) show ?thesis by simp
    next
      fix ds1 b s1
      let ?it = "\<lparr>it_blk = b, it_size = 0, it_type = TFS_DIR_ITEM_DIR, it_name = strncpy TFS_NAME_LEN name\<rparr>"
      assume a: "tfs_create_dir linux_platform name s0 = Some s1" "last_error s1 = TFS_ERR_OK" "ld.mounted s1"
        "ld.entry_added s0 s1 ds ds1 ?it {b}" "dir_lookup (linux_contents (dev s0)) (pf_filename_cmp linux_platform name) ds = None"
      have g: "ld.dir_grown s0 s1 ds ds1 {b}" and
        e: "dir_find (linux_contents (dev s1)) (strncmp_filename_cmp name) ds1 = Some ?it"
        using a(4,5) by (simp_all add: ld.entry_added_def)
      have "ld.dir_ok s1 ds1" "current_dir_blk s1 = TFS_ROOT_DIR_BLK" using g s0(6) by (auto simp: ld.dir_grown_def fs_frame_def)
      then have d1: "ld.dir_ok (s1\<lparr>current_dir_blk := TFS_ROOT_DIR_BLK\<rparr>) ds1" by (simp add: ld.dir_ok_def)
      have w1: "walk s1 TFS_ROOT_DIR_BLK [] TFS_ROOT_DIR_BLK" by simp
      obtain r st1 s2 where "op_getattr linux_platform True ids (path_of [] name) st s1 = Some (r, st1, s2)"
        "(r, st1) = item_to_stat ?it (st\<lparr>st_uid := fst ids, st_gid := snd ids, st_nlink := 1\<rparr>)"
        using getattr_in_dir[OF a(3,2) w1 w(2) name d1, of ids st] e by auto
      moreover have "op_mkdir linux_platform True (path_of [] name) s = Some (0, s1)"
        by (simp add: op_mkdir_def path_call_def s0(1,7) a(1,2) check_error_def)
      ultimately show ?thesis by (simp add: item_to_stat_def)
    qed
  qed
qed

lemma mkdir_then_getattr_witness:
  "\<exists>s1 st1 s2. op_mkdir linux_platform True (path_of [] demo_name) demo_fs = Some (0, s1) \<and>
    op_getattr linux_platform True (0, 0) (path_of [] demo_name) zero_stat s1 = Some (0, st1, s2) \<and> st_mode st1 = mode_dir"
proof -
  have "part_ok demo_name" "ld.dir_ok (demo_fs\<lparr>current_dir_blk := TFS_ROOT_DIR_BLK\<rparr>) [1]"
    using demo_dir_ok by (simp_all add: part_ok_def name_ok_def demo_name_def ascii_def ld.dir_ok_def)
  from mkdir_then_getattr[OF demo_ready(2) _ this] show ?thesis by (simp add: demo_free_card)
qed

end
