(* ===== verification/Uart.thy ===== *)
theory Uart
  imports Decimal
begin

text \<open>
  \<open>avr/uart.c\<close>: the set-up of the unit, and the text functions over a serial line, where \<open>rx\<close> holds the bytes the
  line will deliver, \<open>tx\<close> the bytes that have been sent.  The records of the programs extend this one.
  \<open>uart_getc\<close> waits for a byte, so it has no result when none will come.
\<close>

text \<open>
  \<open>uart_init\<close>: \<open>f_cpu\<close> is the clock the program is compiled for, \<open>select\<close> the value of \<open>UCSRC_SELECT\<close>, which
  depends on the chip.  Waiting for the transmitter, in \<open>uart_putc\<close>, only takes time.
\<close>

record uart_regs =
  UBRRH :: byte
  UBRRL :: byte
  UCSRC :: byte
  UCSRB :: byte

definition UBRRVAL :: "u32 \<Rightarrow> u32" where
  "UBRRVAL f_cpu = f_cpu div (9600 * 16) - 1"

definition uart_init :: "u32 \<Rightarrow> byte \<Rightarrow> uart_regs \<Rightarrow> uart_regs" where
  "uart_init f_cpu select r =
     (let r = r\<lparr>UBRRH := ucast (drop_bit 8 (UBRRVAL f_cpu))\<rparr>;
          r = r\<lparr>UBRRL := ucast (UBRRVAL f_cpu AND 0xFF)\<rparr>;
          r = r\<lparr>UCSRC := select OR push_bit 2 1 OR push_bit 1 1\<rparr>
      in r\<lparr>UCSRB := push_bit 4 1 OR push_bit 3 1 OR push_bit 7 1\<rparr>)"

text \<open>The two registers hold the whole divider for every clock of the family, which runs at up to 20 MHz.\<close>

lemma uart_init_divider:
  assumes "unat f_cpu \<le> 20000000" and "153600 \<le> unat f_cpu"
  shows "256 * unat (UBRRH (uart_init f_cpu sel r)) + unat (UBRRL (uart_init f_cpu sel r)) = unat f_cpu div 153600 - 1"
proof -
  let ?v = "UBRRVAL f_cpu"
  have "f_cpu div 153600 \<noteq> 0" using assms(2) by (simp add: word_unat_eq_iff unat_div_distrib div_eq_0_iff)
  then have v: "unat ?v = unat f_cpu div 153600 - 1" by (simp add: UBRRVAL_def unat_minus_one unat_div_distrib)
  have "unat f_cpu div 153600 \<le> 20000000 div 153600" using assms(1) by (rule div_le_mono)
  then have "unat ?v < 256 * 256" by (simp add: v)
  then have "unat ?v div 256 < 256" by simp
  then have "unat (UBRRH (uart_init f_cpu sel r)) = unat ?v div 256"
    by (simp add: uart_init_def Let_def unsigned_ucast_eq unat_div_distrib drop_bit_eq_div take_bit_eq_mod)
  moreover have "unat (UBRRL (uart_init f_cpu sel r)) = unat ?v mod 256"
    using take_bit_eq_mask[of 8 "unat ?v"]
    by (simp add: uart_init_def Let_def unsigned_ucast_eq unsigned_and_eq take_bit_eq_mod mask_eq_exp_minus_1)
  ultimately show ?thesis using v by simp
qed

text \<open>The line: the bytes it will deliver and the bytes that have been sent.\<close>

record uart =
  rx :: "byte list"
  tx :: "byte list"

definition uart_send :: "byte \<Rightarrow> 'a uart_scheme \<Rightarrow> 'a uart_scheme" where
  "uart_send c u = u\<lparr>tx := tx u @ [c]\<rparr>"

definition uart_putc :: "byte \<Rightarrow> 'a uart_scheme \<Rightarrow> 'a uart_scheme" where
  "uart_putc c u = uart_send c (if c = 0x0A then uart_send 0x0D u else u)"

definition uart_putc_hex :: "byte \<Rightarrow> 'a uart_scheme \<Rightarrow> 'a uart_scheme" where
  "uart_putc_hex b u =
     (let hi = drop_bit 4 b; lo = b AND 0x0F;
          u = uart_putc (if hi < 0x0A then hi + 0x30 else hi - 0x0A + 0x61) u
      in uart_putc (if lo < 0x0A then lo + 0x30 else lo - 0x0A + 0x61) u)"

definition uart_putw_hex :: "u16 \<Rightarrow> 'a uart_scheme \<Rightarrow> 'a uart_scheme" where
  "uart_putw_hex w u = uart_putc_hex (ucast (w AND 0xFF)) (uart_putc_hex (ucast (drop_bit 8 w)) u)"

definition uart_putdw_hex :: "u32 \<Rightarrow> 'a uart_scheme \<Rightarrow> 'a uart_scheme" where
  "uart_putdw_hex dw u = uart_putw_hex (ucast (dw AND 0xFFFF)) (uart_putw_hex (ucast (drop_bit 16 dw)) u)"

text \<open>
  The loop that prints a number from its highest digit, in \<open>uart_putw_dec\<close>, \<open>uart_putdw_dec\<close> and the
  directory listing; \<open>blank\<close> is what it prints for a leading zero.
\<close>

lemma word_ten_neq_one: "(10 :: 'w :: len word) \<noteq> 1"
proof
  assume "(10 :: 'w word) = 1"
  then have "even (1 :: 'w word)" by (metis even_numeral)
  then show False by simp
qed

lemma word_div_ten_less: "num \<noteq> 0 \<Longrightarrow> unat (num div 10) < unat (num :: 'w :: len word)"
proof -
  assume n: "num \<noteq> 0"
  have "unat (10 :: 'w word) \<noteq> 1" using word_ten_neq_one by (metis unat_1 word_unat_eq_iff)
  then have "unat num div unat (10 :: 'w word) < unat num"
    using n by (cases "unat (10 :: 'w word) = 0") (auto simp: unat_gt_0 intro!: div_less_dividend)
  then show ?thesis by (simp add: unat_div_distrib)
qed

function dec_loop :: "byte list \<Rightarrow> 'w :: len word \<Rightarrow> bool \<Rightarrow> 'w word \<Rightarrow> 'a uart_scheme \<Rightarrow> 'a uart_scheme" where
  "dec_loop blank num started w u =
     (if num = 0 then u
      else let b = ucast (w div num) :: byte;
               prints = (b > 0 \<or> started \<or> num = 1);
               u = (if prints then uart_putc (0x30 + b) u else fold uart_putc blank u)
           in dec_loop blank (num div 10) (started \<or> prints) (w - ucast b * num) u)"
  by pat_completeness auto
termination by (relation "measure (\<lambda>(blank, num, started, w, u). unat num)") (simp_all add: word_div_ten_less)

declare dec_loop.simps [simp del]

definition uart_putw_dec :: "u16 \<Rightarrow> 'a uart_scheme \<Rightarrow> 'a uart_scheme" where
  "uart_putw_dec w u = dec_loop [] 10000 False w u"

definition uart_putdw_dec :: "u32 \<Rightarrow> 'a uart_scheme \<Rightarrow> 'a uart_scheme" where
  "uart_putdw_dec dw u = dec_loop [] 1000000000 False dw u"

definition uart_puts :: "byte list \<Rightarrow> 'a uart_scheme \<Rightarrow> 'a uart_scheme" where
  "uart_puts str u = fold uart_putc (c_str str) u"

text \<open>The same for a string in program memory.\<close>

definition uart_puts_p :: "byte list \<Rightarrow> 'a uart_scheme \<Rightarrow> 'a uart_scheme" where
  "uart_puts_p str u = fold uart_putc (c_str str) u"

definition uart_getc :: "'a uart_scheme \<Rightarrow> (byte \<times> 'a uart_scheme) option" where
  "uart_getc u = (case rx u of [] \<Rightarrow> None | b # bs \<Rightarrow> Some (if b = 0x0D then 0x0A else b, u\<lparr>rx := bs\<rparr>))"

section \<open>What is sent\<close>

text \<open>The bytes that a text puts on the line.\<close>

definition sent :: "byte list \<Rightarrow> byte list" where
  "sent xs = concat (map (\<lambda>c. if c = 0x0A then [0x0D, 0x0A] else [c]) xs)"

abbreviation says :: "byte list \<Rightarrow> 'a uart_scheme \<Rightarrow> 'a uart_scheme" where
  "says xs u \<equiv> u\<lparr>tx := tx u @ xs\<rparr>"

lemma sent_simps [simp]:
  "sent [] = []" "sent (xs @ ys) = sent xs @ sent ys"
  by (simp_all add: sent_def)

lemma sent_plain: "0x0A \<notin> set xs \<Longrightarrow> sent xs = xs"
  by (induction xs) (auto simp: sent_def)

lemma uart_putc_says: "uart_putc c u = says (sent [c]) u"
  by (simp add: uart_putc_def uart_send_def sent_def)

lemma fold_putc: "fold uart_putc xs u = says (sent xs) u"
  by (induction xs arbitrary: u) (auto simp: uart_putc_says sent_def)

lemma uart_puts_says: "uart_puts str u = says (sent (c_str str)) u" "uart_puts_p str u = says (sent (c_str str)) u"
  by (simp_all add: uart_puts_def uart_puts_p_def fold_putc)

lemma digit_plain: "d < 10 \<Longrightarrow> digit d \<noteq> 0x0A"
  by (simp add: digit_text)

text \<open>One step of the loop, in numbers.\<close>

lemma dec_loop_step:
  fixes w :: "'w :: len word"
  assumes len: "10 ^ k < (2 :: nat) ^ LENGTH('w)" and w: "unat w < 10 ^ Suc k" and num: "num = of_nat (10 ^ k)"
    and d: "d = unat w div 10 ^ k" and wide: "8 \<le> LENGTH('w)"
  obtains w' :: "'w word" where "unat w' = unat w mod 10 ^ k" "d < 10"
    "dec_loop blank num started w u =
       (if 0 < d \<or> started \<or> k = 0 then dec_loop blank (of_nat (10 ^ k div 10)) True w' (says [digit d] u)
        else dec_loop blank (of_nat (10 ^ k div 10)) False w' (says (sent blank) u))"
proof -
  have n: "unat num = 10 ^ k" using len by (simp add: num unat_of_nat take_bit_nat_eq_self del: of_nat_power)
  then have nz: "num \<noteq> 0" by auto
  have one: "num = 1 \<longleftrightarrow> k = 0" using n by (auto simp: word_unat_eq_iff)
  have d10: "d < 10" using w by (simp add: d less_mult_imp_div_less)
  have dw: "unat (w div num) = d" by (simp add: unat_div_distrib n d)
  have b: "unat (ucast (w div num) :: byte) = d" using d10 by (simp add: unsigned_ucast_eq dw take_bit_nat_eq_self)
  have bb: "ucast (ucast (w div num) :: byte) = w div num"
  proof -
    have "2 ^ 8 \<le> (2 :: nat) ^ LENGTH('w)" using wide by (rule power_increasing) simp
    then show ?thesis using b dw d10 by (simp add: word_unat_eq_iff unsigned_ucast_eq unsigned_take_bit_eq take_bit_nat_eq_self)
  qed
  have r: "unat (w - ucast (ucast (w div num) :: byte) * num) = unat w mod 10 ^ k"
    unfolding bb by (simp add: minus_div_mult_eq_mod unat_mod_distrib n)
  have q: "num div 10 = of_nat (10 ^ k div 10)"
  proof -
    have "(10 :: nat) < 2 ^ 8" by simp
    also have "\<dots> \<le> 2 ^ LENGTH('w)" using wide by (rule power_increasing) simp
    finally have t: "unat (10 :: 'w word) = 10" by (simp add: take_bit_nat_eq_self)
    have "10 ^ k div 10 < (2 :: nat) ^ LENGTH('w)" using len by (meson div_le_dividend le_less_trans)
    then have "unat (of_nat (10 ^ k div 10) :: 'w word) = 10 ^ k div 10" by (simp only: unat_of_nat mod_less)
    moreover have "unat (num div 10) = 10 ^ k div 10" by (simp only: unat_div_distrib t n)
    ultimately show ?thesis by (simp only: word_unat_eq_iff)
  qed
  have dig: "0x30 + (ucast (w div num) :: byte) = digit d"
    unfolding digit_def of_nat_add b[symmetric] by simp
  have pos: "0 < (ucast (w div num) :: byte) \<longleftrightarrow> 0 < d" by (simp add: word_less_nat_alt b)
  have dl: "dec_loop blank num started w u =
       (if 0 < d \<or> started \<or> k = 0 then dec_loop blank (num div 10) True (w - ucast (ucast (w div num) :: byte) * num) (uart_putc (digit d) u)
        else dec_loop blank (num div 10) False (w - ucast (ucast (w div num) :: byte) * num) (fold uart_putc blank u))"
    using nz by (subst dec_loop.simps) (simp add: Let_def pos one dig)
  show thesis
    by (rule that[OF r d10])
      (simp add: dl q fold_putc uart_putc_says sent_plain digit_plain[OF d10])
qed

text \<open>The loop prints all digits once it has started, and blanks for the leading zeros before.\<close>

lemma dec_loop_digits:
  fixes w :: "'w :: len word"
  assumes "8 \<le> LENGTH('w)"
  shows "10 ^ k < (2 :: nat) ^ LENGTH('w) \<Longrightarrow> unat w < 10 ^ Suc k \<Longrightarrow>
    dec_loop blank (of_nat (10 ^ k)) True w u = says (digits (Suc k) (unat w)) u"
proof (induction k arbitrary: w u)
  case 0
  obtain w' :: "'w word" where "dec_loop blank 1 True w u = dec_loop blank (of_nat (10 ^ 0 div 10)) True w' (says [digit (unat w)] u)"
    by (rule dec_loop_step[where w = w and k = 0 and blank = blank and started = True and u = u, OF _ _ refl refl assms]) (use 0 in auto)
  then show ?case by (simp add: dec_loop.simps[of blank 0])
next
  case (Suc k)
  have "10 ^ k < (2 :: nat) ^ LENGTH('w)" using Suc.prems(1) by (rule le_less_trans[rotated]) simp
  note ih = Suc.IH[OF this]
  show ?case
  proof (rule dec_loop_step[OF Suc.prems refl refl assms])
    fix w' :: "'w word"
    assume a: "unat w' = unat w mod 10 ^ Suc k"
      "dec_loop blank (of_nat (10 ^ Suc k)) True w u =
        (if 0 < unat w div 10 ^ Suc k \<or> True \<or> Suc k = 0
         then dec_loop blank (of_nat (10 ^ Suc k div 10)) True w' (says [digit (unat w div 10 ^ Suc k)] u)
         else dec_loop blank (of_nat (10 ^ Suc k div 10)) False w' (says (sent blank) u))"
    have "unat w' < 10 ^ Suc k" by (simp add: a(1))
    with ih[of w'] a show ?case by simp
  qed
qed

definition pad_left :: "nat \<Rightarrow> byte list \<Rightarrow> byte list \<Rightarrow> byte list" where
  "pad_left n blank xs = concat (replicate (n - length xs) blank) @ xs"

lemma dec_loop_decimal:
  fixes w :: "'w :: len word"
  assumes "8 \<le> LENGTH('w)"
  shows "10 ^ k < (2 :: nat) ^ LENGTH('w) \<Longrightarrow> unat w < 10 ^ Suc k \<Longrightarrow>
    dec_loop blank (of_nat (10 ^ k)) False w u = says (pad_left (Suc k) (sent blank) (decimal (unat w))) u"
proof (induction k arbitrary: w u)
  case 0
  obtain w' :: "'w word" where "dec_loop blank 1 False w u = dec_loop blank (of_nat (10 ^ 0 div 10)) True w' (says [digit (unat w)] u)"
    by (rule dec_loop_step[where w = w and k = 0 and blank = blank and started = False and u = u, OF _ _ refl refl assms]) (use 0 in auto)
  with 0 show ?case by (simp add: dec_loop.simps[of blank 0] decimal.simps pad_left_def)
next
  case (Suc k)
  have lt: "10 ^ k < (2 :: nat) ^ LENGTH('w)" using Suc.prems(1) by (rule le_less_trans[rotated]) simp
  show ?case
  proof (rule dec_loop_step[OF Suc.prems refl refl assms])
    fix w' :: "'w word"
    assume a: "unat w' = unat w mod 10 ^ Suc k"
      "dec_loop blank (of_nat (10 ^ Suc k)) False w u =
        (if 0 < unat w div 10 ^ Suc k \<or> False \<or> Suc k = 0
         then dec_loop blank (of_nat (10 ^ Suc k div 10)) True w' (says [digit (unat w div 10 ^ Suc k)] u)
         else dec_loop blank (of_nat (10 ^ Suc k div 10)) False w' (says (sent blank) u))"
    have w': "unat w' < 10 ^ Suc k" by (simp add: a(1))
    show ?case
    proof (cases "0 < unat w div 10 ^ Suc k")
      case True
      then have "10 ^ Suc k \<le> unat w" by (metis div_less less_numeral_extra(3) not_le)
      then have "decimal (unat w) = digits (Suc (Suc k)) (unat w)" using Suc.prems(2) decimal_digits by blast
      moreover have "dec_loop blank (of_nat (10 ^ Suc k)) False w u =
          dec_loop blank (of_nat (10 ^ k)) True w' (says [digit (unat w div 10 ^ Suc k)] u)" using a(2) True by simp
      ultimately show ?thesis using a(1) unfolding dec_loop_digits[OF assms lt w'] by (simp add: pad_left_def)
    next
      case False
      then have s: "unat w < 10 ^ Suc k" by (simp add: div_eq_0_iff)
      with a(1) have e: "unat w' = unat w" by simp
      have "length (decimal (unat w)) \<le> Suc k" by (rule length_decimal_le[OF s])
      then have "pad_left (Suc (Suc k)) b (decimal (unat w)) = b @ pad_left (Suc k) b (decimal (unat w))" for b
        by (simp add: pad_left_def Suc_diff_le)
      with False a Suc.IH[OF lt w', of "says (sent blank) u"] e show ?thesis by simp
    qed
  qed
qed

lemma uart_put_dec_says:
  "uart_putw_dec w u = says (decimal (unat w)) u" "uart_putdw_dec dw u = says (decimal (unat dw)) u"
proof -
  have "pad_left n [] xs = xs" for n xs by (simp add: pad_left_def)
  moreover have "unat w < 10 ^ Suc 4" "unat dw < 10 ^ Suc 9"
    using unsigned_less[of w, where 'a = nat] unsigned_less[of dw, where 'a = nat] by simp_all
  ultimately show "uart_putw_dec w u = says (decimal (unat w)) u" "uart_putdw_dec dw u = says (decimal (unat dw)) u"
    using dec_loop_decimal[of 4 w "[]" u] dec_loop_decimal[of 9 dw "[]" u]
    by (simp_all add: uart_putw_dec_def uart_putdw_dec_def)
qed

end
