(* ===== verification/Avr.thy ===== *)
theory Avr
  imports Uart Cleanup Format
begin

text \<open>
  \<open>avr/main.c\<close>: the console on a serial line.  The program's state is the line with the two counters of
  the directory listing, and the file system.  A null pointer is \<open>None\<close> in a \<open>byte list option\<close>; where the
  program would follow it, the result is \<open>None\<close>, as where it waits for input that does not come.
\<close>

record avr_io = uart +
  dirs :: u16
  files :: u16

section \<open>The input line\<close>

text \<open>\<open>buf\<close> is the buffer of \<open>n\<close> bytes and \<open>len\<close> the number of them in use.\<close>

function read_line :: "nat \<Rightarrow> nat \<Rightarrow> byte list \<Rightarrow> 'a uart_scheme \<Rightarrow> (nat \<times> byte list \<times> 'a uart_scheme) option" where
  "read_line n len buf u =
     (case uart_getc u of
        None \<Rightarrow> None
      | Some (c, u) \<Rightarrow>
          if c = 0x08 \<or> c = 0x7F
          then if len = 0 then read_line n len buf u
               else read_line n (len - 1) buf (uart_putc 0x08 (uart_putc 0x20 (uart_putc 0x08 u)))
          else if c = 0x0A then Some (len, buf[len := 0], uart_putc 0x0A u)
          else if len < n - 1 then read_line n (len + 1) (buf[len := c]) (uart_putc c u)
          else read_line n len buf u)"
  by pat_completeness auto
termination
  by (relation "measure (\<lambda>(n, len, buf, u). length (rx u))")
    (auto simp: uart_getc_def uart_putc_says split: list.splits)

declare read_line.simps [simp del]

text \<open>\<open>strchr ("\r\n\t ", c) != NULL\<close> holds for the terminating NUL, too.\<close>

fun trim :: "nat \<Rightarrow> byte list \<Rightarrow> byte list" where
  "trim 0 cmd = cmd[0 := 0]"
| "trim (Suc l) cmd = (if cmd ! l \<notin> {0x0D, 0x0A, 0x09, 0x20, 0} then cmd[Suc l := 0] else trim l cmd)"

text \<open>The string up to the first blank, and what follows it.\<close>

definition split :: "byte list \<Rightarrow> byte list \<times> byte list option" where
  "split s = (if 0x20 \<in> set s then (takeWhile (\<lambda>c. c \<noteq> 0x20) s, Some (tl (dropWhile (\<lambda>c. c \<noteq> 0x20) s))) else (s, None))"

section \<open>Output\<close>

definition print_error :: "'d fs \<Rightarrow> 'a uart_scheme \<Rightarrow> bool \<times> 'a uart_scheme" where
  "print_error s u =
     (if last_error s \<noteq> TFS_ERR_OK
      then (True, uart_putc 0x0A (uart_putc 0x2E (uart_putw_dec (ucast (last_error s)) (uart_puts_p (ascii ''error '') u))))
      else (False, u))"

definition avr_dir_handler :: "avr_io \<Rightarrow> dir_item \<Rightarrow> avr_io \<times> bool" where
  "avr_dir_handler u item =
     (let name = (\<lambda>u. uart_putc 0x0A (fold uart_putc (c_str (take TFS_NAME_LEN (it_name item))) (uart_putc 0x20 u)))
      in if it_type item = TFS_DIR_ITEM_DIR
         then (name (uart_puts_p (ascii ''     <DIR>'') (u\<lparr>dirs := dirs u + 1\<rparr>)), True)
         else if it_type item = TFS_DIR_ITEM_FILE
         then (name (dec_loop [0x20] 1000000000 False (it_size item) (u\<lparr>files := files u + 1\<rparr>)), True)
         else (u, True))"

section \<open>The commands\<close>

text \<open>
  One command line, which is not empty: \<open>None\<close> in the first component is the \<open>break\<close> of \<open>exit\<close>.
  \<open>then_report\<close> is a call of the file system followed by \<open>print_error\<close>.
\<close>

definition then_report :: "'d fs option \<Rightarrow> avr_io \<Rightarrow> (bool \<times> avr_io \<times> 'd fs) option" where
  "then_report r u = do {s \<leftarrow> r; Some (True, snd (print_error s u), s)}"

definition command :: "'d platform \<Rightarrow> byte list \<Rightarrow> avr_io \<Rightarrow> 'd fs \<Rightarrow> (bool \<times> avr_io \<times> 'd fs) option" where
  "command P line u s =
     (case split line of (cmd, params) \<Rightarrow>
        if cmd = ascii ''exit'' then Some (False, u, s)
        else if cmd = ascii ''mkfs'' then then_report (tfs_format P s) u
        else if cmd = ascii ''ls''
        then do {
          ((ok, u), s) \<leftarrow> tfs_read_dir P avr_dir_handler
            (uart_puts_p (ascii ''      size name'' @ [0x0A]) (u\<lparr>dirs := 0, files := 0\<rparr>)) s;
          let u = uart_puts_p (ascii '' dirs, '') (uart_putw_dec (dirs u) u);
              u = uart_puts_p (ascii '' files.'' @ [0x0A]) (uart_putw_dec (files u) u)
          in Some (True, snd (print_error s u), s)
        }
        else if cmd = ascii ''cd''
        then do {
          params \<leftarrow> params;
          if params = ascii ''/'' then then_report (Some (tfs_change_dir_root s)) u
          else if params = ascii ''..'' then then_report (tfs_change_dir_parent P s) u
          else then_report (tfs_change_dir P params s) u
        }
        else if cmd = ascii ''md'' then do {params \<leftarrow> params; then_report (tfs_create_dir P params s) u}
        else if cmd = ascii ''rm'' then do {params \<leftarrow> params; then_report (tfs_delete P params TFS_DIR_ITEM_FREE s) u}
        else if cmd = ascii ''du''
        then do {
          (used, s) \<leftarrow> tfs_get_used P s;
          case print_error s u of (bad, u) \<Rightarrow>
            if bad then Some (True, u, s)
            else Some (True, uart_putc 0x0A (uart_putdw_dec (blk_count s) (uart_putc 0x2F
              (uart_putdw_dec used (uart_puts_p (ascii ''blocks used: '') u)))), s)
        }
        else if cmd = ascii ''mv''
        then case map_option split params of
               Some (from, Some (x # to)) \<Rightarrow>
                 if from = [] then Some (True, uart_puts_p (ascii ''usage: mv <old name> <new name>'' @ [0x0A]) u, s)
                 else then_report (tfs_rename P from (x # to) s) u
             | _ \<Rightarrow> Some (True, uart_puts_p (ascii ''usage: mv <old name> <new name>'' @ [0x0A]) u, s)
        else Some (True, uart_putc 0x0A (uart_putc 0x27 (uart_puts cmd (uart_puts_p (ascii ''Unknown command '' @ [0x27]) u))), s))"

section \<open>main\<close>

partial_function (option) main_loop :: "'d platform \<Rightarrow> byte list \<Rightarrow> avr_io \<Rightarrow> 'd fs \<Rightarrow> (avr_io \<times> 'd fs) option" where
  "main_loop P cmd u s = do {
     (len, cmd, u) \<leftarrow> read_line 128 0 cmd (uart_putc 0x20 (uart_putc 0x3E u));
     if len < 1 then main_loop P cmd u s
     else let cmd = trim len cmd
          in if cmd ! 0 = 0 then main_loop P cmd u s
             else do {
               (go, u, s) \<leftarrow> command P (c_str cmd) u s;
               if go then main_loop P cmd u s else Some (u, s)
             }
   }"

text \<open>\<open>cmd\<close> is what the stack holds in the buffer; the result is the exit code of \<open>main\<close>.\<close>

definition avr_main :: "'d platform \<Rightarrow> byte list \<Rightarrow> avr_io \<Rightarrow> 'd fs \<Rightarrow> (int \<times> avr_io \<times> 'd fs) option" where
  "avr_main P cmd u s =
     (let s = tfs_init P s
      in case print_error s u of (bad, u) \<Rightarrow>
           if bad then Some (1, uart_puts_p (ascii ''failed to initialize tfs.'' @ [0x0A]) u, s)
           else let u = uart_putdw_dec (blk_count s) (uart_puts_p (0x0A # ascii ''block count: '') u);
                    u = uart_puts (di_model (drive_info s)) (uart_puts_p (0x0A # ascii ''model: '') u);
                    u = uart_puts (di_serno (drive_info s)) (uart_puts_p (0x0A # ascii ''serno: '') u);
                    u = uart_putc 0x0A u
                in do {
                  (u, s) \<leftarrow> main_loop P cmd u s;
                  Some (0, u, s)
                })"

end
