(* ===== verification/Avr_Props.thy ===== *)
theory Avr_Props
  imports Avr
begin

text \<open>Properties of the serial console: its line editor, the numbers it prints, and its commands.\<close>

section \<open>The line editor\<close>

text \<open>What a key does to the line: backspace and delete take the last character, a character that fits is
  added.\<close>

definition edit :: "nat \<Rightarrow> byte list \<Rightarrow> byte \<Rightarrow> byte list" where
  "edit n line c = (if c = 0x08 \<or> c = 0x7F then butlast line else if length line < n - 1 then line @ [c] else line)"

definition is_enter :: "byte \<Rightarrow> bool" where
  "is_enter c \<longleftrightarrow> c = 0x0A \<or> c = 0x0D"

lemma edit_length: "0 < n \<Longrightarrow> length line < n \<Longrightarrow> length (edit n line c) < n"
  by (auto simp: edit_def)

lemma read_line_step:
  assumes "rx u = c # cs" and "\<not> is_enter c" and "length buf = n" and "length line < n" and "take (length line) buf = line"
  obtains buf' u' where "read_line n (length line) buf u = read_line n (length (edit n line c)) buf' u'" "rx u' = cs"
    "length buf' = n" "take (length (edit n line c)) buf' = edit n line c"
proof -
  have g: "uart_getc u = Some (c, u\<lparr>rx := cs\<rparr>)" using assms(1,2) by (simp add: uart_getc_def is_enter_def)
  consider "c = 0x08 \<or> c = 0x7F" "line = []" | "c = 0x08 \<or> c = 0x7F" "line \<noteq> []"
    | "\<not> (c = 0x08 \<or> c = 0x7F)" "length line < n - 1" | "\<not> (c = 0x08 \<or> c = 0x7F)" "\<not> length line < n - 1" by blast
  then show thesis
  proof cases
    case 1
    with g assms show thesis
      by (intro that[of buf "u\<lparr>rx := cs\<rparr>"]) (simp_all add: read_line.simps[of n 0 buf u] edit_def)
  next
    case 2
    have "butlast (take (length line) buf) = take (length line - 1) buf" using assms(3,4) by (simp add: butlast_take)
    then have "take (length line - 1) buf = butlast line" by (simp add: assms(5))
    with 2 g assms show thesis
      by (intro that[of buf "uart_putc 0x08 (uart_putc 0x20 (uart_putc 0x08 (u\<lparr>rx := cs\<rparr>)))"])
        (simp_all add: read_line.simps[of n "length line" buf u] edit_def uart_putc_says)
  next
    case 3
    have "take (Suc (length line)) (buf[length line := c]) = line @ [c]"
      using assms(3-5) by (simp add: take_Suc_conv_app_nth)
    with 3 g assms show thesis
      by (intro that[of "buf[length line := c]" "uart_putc c (u\<lparr>rx := cs\<rparr>)"])
        (auto simp: read_line.simps[of n "length line" buf u] edit_def uart_putc_says is_enter_def)
  next
    case 4
    with g assms show thesis
      by (intro that[of buf "u\<lparr>rx := cs\<rparr>"]) (auto simp: read_line.simps[of n "length line" buf u] edit_def is_enter_def)
  qed
qed

lemma read_line_keys:
  assumes "rx u = keys @ c # rest" and "is_enter c" and "\<forall>k \<in> set keys. \<not> is_enter k"
    and "length buf = n" and "length line < n" and "take (length line) buf = line"
  shows "\<exists>buf' u'. read_line n (length line) buf u = Some (length (foldl (edit n) line keys), buf', u') \<and> rx u' = rest \<and>
    length buf' = n \<and> length (foldl (edit n) line keys) < n \<and>
    take (Suc (length (foldl (edit n) line keys))) buf' = foldl (edit n) line keys @ [0]"
  using assms
proof (induction keys arbitrary: u buf line)
  case Nil
  have "uart_getc u = Some (0x0A, u\<lparr>rx := rest\<rparr>)" using Nil by (auto simp: uart_getc_def is_enter_def)
  then have "read_line n (length line) buf u = Some (length line, buf[length line := 0], uart_putc 0x0A (u\<lparr>rx := rest\<rparr>))"
    by (subst read_line.simps) simp
  with Nil show ?case by (simp add: take_Suc_conv_app_nth uart_putc_says)
next
  case (Cons k keys)
  have "rx u = k # (keys @ c # rest)" "\<not> is_enter k" using Cons.prems(1,3) by simp_all
  from read_line_step[OF this Cons.prems(4-6)] obtain buf' u' where
    s: "read_line n (length line) buf u = read_line n (length (edit n line k)) buf' u'" "rx u' = keys @ c # rest"
    "length buf' = n" "take (length (edit n line k)) buf' = edit n line k" by blast
  have "length (edit n line k) < n" using Cons.prems(5) by (intro edit_length) auto
  with Cons.IH[OF s(2) Cons.prems(2) _ s(3) _ s(4)] Cons.prems(3) show ?case unfolding s(1) by simp
qed

text \<open>C31: \<open>read_line\<close> returns the line that the keys up to the first carriage return or newline make under
  \<open>edit\<close>, with a NUL behind it, in a buffer it never writes beyond, and leaves the later keys unread.\<close>

theorem read_line_edits:
  assumes "rx u = keys @ c # rest" and "is_enter c" and "\<forall>k \<in> set keys. \<not> is_enter k" and "length buf = n" and "0 < n"
  shows "\<exists>buf' u'. read_line n 0 buf u = Some (length (foldl (edit n) [] keys), buf', u') \<and> rx u' = rest \<and>
    length buf' = n \<and> length (foldl (edit n) [] keys) < n \<and>
    take (Suc (length (foldl (edit n) [] keys))) buf' = foldl (edit n) [] keys @ [0]"
  using read_line_keys[OF assms(1-4), of "[]"] assms(5) by simp

lemma read_line_edits_witness:
  "\<exists>buf' u'. read_line 4 0 [9, 9, 9, 9] \<lparr>rx = ascii ''lx'' @ [8] @ ascii ''sab'' @ [13, 65], tx = [], dirs = 0, files = 0\<rparr> =
    Some (3, buf', u') \<and> take 4 buf' = ascii ''lsa'' @ [0]"
proof -
  let ?u = "\<lparr>rx = ascii ''lx'' @ [8] @ ascii ''sab'' @ [13, 65], tx = [], dirs = 0, files = 0\<rparr>"
  have "rx ?u = (ascii ''lx'' @ [8] @ ascii ''sab'') @ 13 # [65]" "is_enter 13"
    "\<forall>k \<in> set (ascii ''lx'' @ [8] @ ascii ''sab''). \<not> is_enter k" "length [9, 9, 9, 9 :: byte] = 4" "(0 :: nat) < 4"
    by (simp_all add: ascii_def is_enter_def)
  moreover have "foldl (edit 4) [] (ascii ''lx'' @ [8] @ ascii ''sab'') = ascii ''lsa''"
    by (simp add: ascii_def edit_def)
  ultimately show ?thesis using read_line_edits[of ?u "ascii ''lx'' @ [8] @ ascii ''sab''" 13 "[65]" "[9, 9, 9, 9]" 4]
    by (auto simp: ascii_def)
qed

section \<open>The listing\<close>

text \<open>The handler of the directory listing prints for a file its size, right aligned to ten columns in
  decimal without leading zeros, for a directory the mark, then the name up to its first NUL; it counts
  the entry and never stops the traversal; free slots print nothing.\<close>

theorem listing_line:
  "avr_dir_handler u item =
    (if it_type item = TFS_DIR_ITEM_FILE
     then (says (pad_left 10 [0x20] (decimal (unat (it_size item))) @ [0x20] @ sent (c_str (take TFS_NAME_LEN (it_name item))) @ [0x0D, 0x0A])
            (u\<lparr>files := files u + 1\<rparr>), True)
     else if it_type item = TFS_DIR_ITEM_DIR
     then (says (ascii ''     <DIR>'' @ [0x20] @ sent (c_str (take TFS_NAME_LEN (it_name item))) @ [0x0D, 0x0A])
            (u\<lparr>dirs := dirs u + 1\<rparr>), True)
     else (u, True))"
proof -
  have "unat (it_size item) < 10 ^ Suc 9" using unsigned_less[of "it_size item", where 'a = nat] by simp
  then have d: "dec_loop [0x20] 1000000000 False (it_size item) v =
      says (pad_left 10 [0x20] (decimal (unat (it_size item)))) v" for v :: "('a) uart_scheme"
    using dec_loop_decimal[of 9 "it_size item" "[0x20]" v] by (simp add: sent_def)
  have "c_str (ascii ''     <DIR>'') = ascii ''     <DIR>''" "sent (ascii ''     <DIR>'') = ascii ''     <DIR>''"
    "sent [0x20] = [0x20]" "sent [0x0A] = [0x0D, 0x0A]"
    by (simp_all add: ascii_def sent_def)
  then show ?thesis by (simp add: avr_dir_handler_def d uart_puts_says uart_putc_says fold_putc)
qed

section \<open>Missing arguments\<close>

text \<open>\<open>cd\<close>, \<open>md\<close> and \<open>rm\<close> without an argument follow the null pointer that \<open>split\<close> returns (\<open>None\<close> here); only
  \<open>mv\<close> tests for it and prints its usage.  With an argument they are the file system's function of that
  name, and the error number is printed after it.\<close>

lemma split_word: "0x20 \<notin> set cmd \<Longrightarrow> split cmd = (cmd, None)" "0x20 \<notin> set cmd \<Longrightarrow> split (cmd @ 0x20 # rest) = (cmd, Some rest)"
proof -
  assume "0x20 \<notin> set cmd"
  then have a: "\<And>x. x \<in> set cmd \<Longrightarrow> x \<noteq> 0x20" by auto
  show "split cmd = (cmd, None)" using \<open>0x20 \<notin> set cmd\<close> by (simp add: split_def)
  show "split (cmd @ 0x20 # rest) = (cmd, Some rest)"
    by (simp add: split_def takeWhile_append2 a dropWhile_append2)
qed

theorem missing_argument:
  "command P (ascii ''cd'') u s = None \<and> command P (ascii ''md'') u s = None \<and> command P (ascii ''rm'') u s = None \<and>
   (\<exists>v. command P (ascii ''mv'') u s = Some (True, v, s)) \<and>
   command P (ascii ''md '' @ name) u s = then_report (tfs_create_dir P name s) u \<and>
   command P (ascii ''rm '' @ name) u s = then_report (tfs_delete P name TFS_DIR_ITEM_FREE s) u"
proof -
  have "split (ascii ''cd'') = (ascii ''cd'', None)" "split (ascii ''md'') = (ascii ''md'', None)"
    "split (ascii ''rm'') = (ascii ''rm'', None)" "split (ascii ''mv'') = (ascii ''mv'', None)"
    by (simp_all add: split_def ascii_def)
  moreover have "split (ascii ''md '' @ name) = (ascii ''md'', Some name)" "split (ascii ''rm '' @ name) = (ascii ''rm'', Some name)"
    using split_word(2)[of "ascii ''md''" name] split_word(2)[of "ascii ''rm''" name] by (simp_all add: ascii_def)
  ultimately show ?thesis by (simp add: command_def)
qed

end
