(* ===== verification/Term.thy ===== *)
theory Term
  imports Decimal
begin

text \<open>
  \<open>zx81/term.c\<close>: text output on the ZX81 screen, the keyboard, and the buffer in which names and numbers
  are built.  What the ROM does with a character is recorded in \<open>screen\<close>; \<open>keys\<close> are the values that
  \<open>term_get_key\<close> will return.
\<close>

abbreviation TERM_BUFFER_SIZE :: nat where "TERM_BUFFER_SIZE \<equiv> 48"

datatype screen_op = ClearScreen | Print byte

record terminal =
  term_buf :: "byte list"
  screen :: "screen_op list"
  keys :: "u16 list"

section \<open>Character sets\<close>

definition ascii2zx :: "byte list" where
  "ascii2zx = [
     0x00, 0x00, 0x00, 0x00, 0x00, 0x00, 0x00, 0x00, 0x00, 0x00, 0x76, 0x00, 0x00, 0x00, 0x00, 0x00,
     0x00, 0x00, 0x00, 0x00, 0x00, 0x00, 0x00, 0x00, 0x00, 0x00, 0x00, 0x00, 0x00, 0x00, 0x00, 0x00,
     0x00, 0x00, 0x0B, 0x0C, 0x0D, 0x00, 0x00, 0x0B, 0x10, 0x11, 0x17, 0x15, 0x1A, 0x16, 0x1B, 0x18,
     0x1C, 0x1D, 0x1E, 0x1F, 0x20, 0x21, 0x22, 0x23, 0x24, 0x25, 0x0E, 0x19, 0x13, 0x14, 0x12, 0x0F,
     0x17, 0x26, 0x27, 0x28, 0x29, 0x2A, 0x2B, 0x2C, 0x2D, 0x2E, 0x2F, 0x30, 0x31, 0x32, 0x33, 0x34,
     0x35, 0x36, 0x37, 0x38, 0x39, 0x3A, 0x3B, 0x3C, 0x3D, 0x3E, 0x3F, 0x10, 0x18, 0x11, 0x0B, 0x16,
     0x0B, 0x26, 0x27, 0x28, 0x29, 0x2A, 0x2B, 0x2C, 0x2D, 0x2E, 0x2F, 0x30, 0x31, 0x32, 0x33, 0x34,
     0x35, 0x36, 0x37, 0x38, 0x39, 0x3A, 0x3B, 0x3C, 0x3D, 0x3E, 0x3F, 0x10, 0x18, 0x11, 0x0B, 0x00]"

definition zx2ascii :: "byte list" where
  "zx2ascii = [
     0x20, 0x20, 0x20, 0x20, 0x20, 0x20, 0x20, 0x20, 0x20, 0x20, 0x20, 0x22, 0x40, 0x24, 0x3A, 0x3F,
     0x28, 0x29, 0x3E, 0x3C, 0x3D, 0x2B, 0x2D, 0x2A, 0x2F, 0x3B, 0x2C, 0x2E, 0x30, 0x31, 0x32, 0x33,
     0x34, 0x35, 0x36, 0x37, 0x38, 0x39, 0x61, 0x62, 0x63, 0x64, 0x65, 0x66, 0x67, 0x68, 0x69, 0x6A,
     0x6B, 0x6C, 0x6D, 0x6E, 0x6F, 0x70, 0x71, 0x72, 0x73, 0x74, 0x75, 0x76, 0x77, 0x78, 0x79, 0x7A,
     0x20, 0x20, 0x20, 0x20, 0x20, 0x20, 0x20, 0x20, 0x20, 0x20, 0x20, 0x20, 0x20, 0x20, 0x20, 0x20,
     0x20, 0x20, 0x20, 0x20, 0x20, 0x20, 0x20, 0x20, 0x20, 0x20, 0x20, 0x20, 0x20, 0x20, 0x20, 0x20,
     0x20, 0x20, 0x20, 0x20, 0x20, 0x20, 0x20, 0x20, 0x20, 0x20, 0x20, 0x20, 0x20, 0x20, 0x20, 0x20,
     0x20, 0x20, 0x20, 0x20, 0x20, 0x20, 0x20, 0x20, 0x20, 0x20, 0x20, 0x20, 0x20, 0x20, 0x20, 0x20]"

section \<open>Output\<close>

definition term_clrscrn :: "'a terminal_scheme \<Rightarrow> 'a terminal_scheme" where
  "term_clrscrn t = t\<lparr>screen := screen t @ [ClearScreen]\<rparr>"

definition term_putc :: "byte \<Rightarrow> 'a terminal_scheme \<Rightarrow> 'a terminal_scheme" where
  "term_putc c t = t\<lparr>screen := screen t @ [Print (ascii2zx ! unat (c AND 0x7F))]\<rparr>"

fun term_putsn :: "byte list \<Rightarrow> nat \<Rightarrow> 'a terminal_scheme \<Rightarrow> 'a terminal_scheme" where
  "term_putsn s 0 t = t"
| "term_putsn s (Suc n) t = (if c_at s 0 = 0 then t else term_putsn (tl s) n (term_putc (c_at s 0) t))"

definition term_puts :: "byte list \<Rightarrow> 'a terminal_scheme \<Rightarrow> 'a terminal_scheme" where
  "term_puts s t = term_putsn s 32 t"

text \<open>The digits and the blanks are written downwards from the end of the buffer: \<open>p\<close> is the index of the
  last byte written, \<open>len\<close> the number of characters.\<close>

function putul_digits :: "u32 \<Rightarrow> nat \<Rightarrow> nat \<Rightarrow> byte list \<Rightarrow> nat \<times> nat \<times> byte list" where
  "putul_digits v p len buf =
     (let buf = buf[p - 1 := 0x30 + ucast (v mod 10)]
      in if v div 10 \<noteq> 0 then putul_digits (v div 10) (p - 1) (len + 1) buf else (p - 1, len + 1, buf))"
  by pat_completeness auto
termination
proof (relation "measure (\<lambda>(v, p, len, buf). unat v)")
  fix v :: u32 assume "v div 10 \<noteq> 0"
  then have "v \<noteq> 0" by (metis div_0)
  then have "unat v div 10 < unat v" by (intro div_less_dividend) (simp_all add: unat_gt_0)
  then show "((v div 10, p - 1, len + 1, buf), v, p', len', buf') \<in> measure (\<lambda>(v, p, len, buf). unat v)"
    for p p' len len' :: nat and buf buf' :: "byte list"
    by (simp add: unat_div_distrib)
qed simp

declare putul_digits.simps [simp del]

fun putul_pad :: "nat \<Rightarrow> nat \<Rightarrow> byte list \<Rightarrow> nat \<times> byte list" where
  "putul_pad 0 p buf = (p, buf)"
| "putul_pad (Suc n) p buf = putul_pad n (p - 1) (buf[p - 1 := 0x20])"

definition term_putul_aligned :: "u32 \<Rightarrow> nat \<Rightarrow> 'a terminal_scheme \<Rightarrow> 'a terminal_scheme" where
  "term_putul_aligned v sz t =
     (let buf = (term_buf t)[TERM_BUFFER_SIZE - 1 := 0]
      in case putul_digits v (TERM_BUFFER_SIZE - 1) 0 buf of (p, len, buf) \<Rightarrow>
           case putul_pad (sz - len) p buf of (p, buf) \<Rightarrow>
             term_puts (drop p buf) (t\<lparr>term_buf := buf\<rparr>))"

definition term_putul :: "u32 \<Rightarrow> 'a terminal_scheme \<Rightarrow> 'a terminal_scheme" where
  "term_putul v t = term_putul_aligned v 0 t"

section \<open>Input\<close>

text \<open>Without a key that will be pressed there is no result.\<close>

definition term_get_key :: "'a terminal_scheme \<Rightarrow> (u16 \<times> 'a terminal_scheme) option" where
  "term_get_key t = (case keys t of [] \<Rightarrow> None | k # ks \<Rightarrow> Some (k, t\<lparr>keys := ks\<rparr>))"

text \<open>The characters of a ZX81 string, whose last one is inverted, at most \<open>n\<close> of them.  \<open>inp\<close> is the memory
  from the string's address on.\<close>

fun zx_chars :: "nat \<Rightarrow> (nat \<Rightarrow> byte) \<Rightarrow> byte list" where
  "zx_chars 0 inp = []"
| "zx_chars (Suc n) inp =
     zx2ascii ! unat (inp 0 AND 0x7F) # (if inp 0 AND 0x80 \<noteq> 0 then [] else zx_chars n (\<lambda>i. inp (Suc i)))"

definition term_zx2ascii :: "(nat \<Rightarrow> byte) \<Rightarrow> 'a terminal_scheme \<Rightarrow> 'a terminal_scheme" where
  "term_zx2ascii inp t = t\<lparr>term_buf := put_bytes (term_buf t) 0 (zx_chars (TERM_BUFFER_SIZE - 1) inp @ [0])\<rparr>"

end
