(* ===== verification/Zx81.thy ===== *)
theory Zx81
  imports Term Cleanup Format
begin

text \<open>
  \<open>zx81/main.c\<close>: the SAVE and LOAD extensions of the ZX81 BASIC.  The state is the terminal with the
  counters of the directory listing and the RAM of the computer, and the file system.  Where the program
  waits for a key that is never pressed the result is \<open>None\<close>, as where it reads beyond a table.
\<close>

record zx = terminal +
  dir_line :: byte
  dir_files :: u16
  dir_dirs :: u16
  ram :: "u16 \<Rightarrow> byte"

abbreviation MAX_FILESIZE :: u32 where "MAX_FILESIZE \<equiv> 16384"
abbreviation VERSN :: u16 where "VERSN \<equiv> 16393"
abbreviation TERM_KEY_ENT :: u16 where "TERM_KEY_ENT \<equiv> NOT 0x0040 AND NOT 0x0200"
abbreviation TERM_KEY_SPC :: u16 where "TERM_KEY_SPC \<equiv> NOT 0x0080 AND NOT 0x0200"

definition E_LINE :: "zx \<Rightarrow> u16" where
  "E_LINE z = ucast (ram z 16404) OR push_bit 8 (ucast (ram z 16405))"

definition error_msg :: "byte list list" where
  "error_msg = map ascii
    [''no sd card'', ''i/o error'', ''disk full'', ''file allready exists'', ''file not exists'', ''dir not empty'',
     ''no filename'', ''invalid filename'', ''unexpected end of file'']"

definition drive_types :: "byte list list" where
  "drive_types = map ascii [''emulated disk'', ''mmc card'', ''sd card v1'', ''sd card v2'', ''sdhc card'']"

text \<open>An array read, \<open>None\<close> beyond its end.\<close>

definition at :: "'a list \<Rightarrow> nat \<Rightarrow> 'a option" where
  "at xs i = (if i < length xs then Some (xs ! i) else None)"

text \<open>\<open>deselect\<close> is \<open>spi_deselect_drive\<close>.\<close>

definition init :: "('d \<Rightarrow> 'd) \<Rightarrow> 'd platform \<Rightarrow> 'd fs \<Rightarrow> 'd fs" where
  "init deselect P s = tfs_init P (s\<lparr>dev := deselect (dev s)\<rparr>)"

section \<open>Names\<close>

fun zx_filename_cmp_from :: "nat \<Rightarrow> byte list \<Rightarrow> byte list \<Rightarrow> bool" where
  "zx_filename_cmp_from 0 ref cmp \<longleftrightarrow> c_at ref 0 = 0"
| "zx_filename_cmp_from (Suc n) ref cmp \<longleftrightarrow>
     (let c = c_at cmp 0;
          c = (if c \<ge> 0x41 \<and> c \<le> 0x5A then c - 0x41 + 0x61 else c)
      in if c \<noteq> c_at ref 0 then False else if c = 0 then True else zx_filename_cmp_from n (tl ref) (tl cmp))"

definition zx_filename_cmp :: "byte list \<Rightarrow> byte list \<Rightarrow> bool" where
  "zx_filename_cmp ref cmp = zx_filename_cmp_from TFS_NAME_LEN ref cmp"

section \<open>SAVE\<close>

text \<open>The BASIC program and its variables, from \<open>VERSN\<close> up to \<open>E_LINE\<close>; the length is a 16-bit \<open>int\<close>.\<close>

definition program_len :: "zx \<Rightarrow> u32" where
  "program_len z = scast (E_LINE z - VERSN + 1)"

definition ram_from :: "u16 \<Rightarrow> nat \<Rightarrow> zx \<Rightarrow> byte list" where
  "ram_from a n z = map (\<lambda>i. ram z (a + of_nat i)) [0..<n]"

definition save :: "'d platform \<Rightarrow> (nat \<Rightarrow> byte) \<Rightarrow> zx \<Rightarrow> 'd fs \<Rightarrow> (zx \<times> 'd fs) option" where
  "save P name z s =
     (let z = term_zx2ascii name z;
          buf = term_buf z;
          c = c_at buf 1
      in if c = 0x3E then do {s \<leftarrow> tfs_create_dir P (drop 2 buf) s; Some (z, s)}
         else if c = 0x3D
         then if 0x3A \<notin> set (c_str (drop 2 buf)) then Some (z, set_error TFS_ERR_NO_NAME s)
              else let p = 2 + length (takeWhile (\<lambda>c. c \<noteq> 0x3A) (drop 2 buf));
                       buf = buf[p := 0]
                   in do {
                     s \<leftarrow> tfs_rename P (drop 2 buf) (drop (p + 1) buf) s;
                     Some (z\<lparr>term_buf := buf\<rparr>, s)
                   }
         else if c = 0x2D then do {s \<leftarrow> tfs_delete P (drop 2 buf) TFS_DIR_ITEM_FREE s; Some (z, s)}
         else if c = 0x24 then do {s \<leftarrow> tfs_format P s; Some (z, s)}
         else if c = 0x3F \<or> c = 0x2A \<or> c = 0x2F \<or> c = 0x3C then Some (z, set_error TFS_ERR_NAME_INVAL s)
         else do {
           s \<leftarrow> tfs_write_file P (drop 1 buf) (ram_from VERSN (unat (program_len z)) z) (program_len z) True s;
           Some (z, s)
         })"

section \<open>The directory listing\<close>

definition print_dir_header :: "zx \<Rightarrow> zx" where
  "print_dir_header z = (term_puts (ascii ''      size name'' @ [0x0A]) (term_clrscrn z))\<lparr>dir_line := 1\<rparr>"

text \<open>The wait at the end of a page: \<open>True\<close> to go on.\<close>

function wait_page :: "zx \<Rightarrow> (bool \<times> zx) option" where
  "wait_page z =
     (case term_get_key z of
        None \<Rightarrow> None
      | Some (key, z) \<Rightarrow>
          if key = TERM_KEY_ENT then Some (True, print_dir_header z)
          else if key = TERM_KEY_SPC then Some (False, z)
          else wait_page z)"
  by pat_completeness auto
termination by (relation "measure (\<lambda>z. length (keys z))") (auto simp: term_get_key_def split: list.splits)

declare wait_page.simps [simp del]

text \<open>The rest of the line, from the name on, and the end of the page.\<close>

definition end_line :: "byte list \<Rightarrow> zx \<Rightarrow> (bool \<times> zx) option" where
  "end_line name z =
     (let z = term_putc 0x0A (term_putsn name TFS_NAME_LEN (term_putc 0x20 z));
          z = z\<lparr>dir_line := dir_line z + 1\<rparr>
      in if dir_line z \<ge> 21
         then wait_page (term_puts (ascii ''<NL> = next page  <SPACE> = end'') z)
         else Some (True, z))"

definition dir_item_line :: "dir_item \<Rightarrow> zx \<Rightarrow> (bool \<times> zx) option" where
  "dir_item_line item z =
     (if it_type item = TFS_DIR_ITEM_DIR
      then end_line (it_name item) (term_puts (ascii ''     <DIR>'') (z\<lparr>dir_dirs := dir_dirs z + 1\<rparr>))
      else if it_type item = TFS_DIR_ITEM_FILE
      then end_line (it_name item) (term_putul_aligned (it_size item) 10 (z\<lparr>dir_files := dir_files z + 1\<rparr>))
      else Some (True, z))"

text \<open>The handler that \<open>tfs_read_dir\<close> calls; \<open>None\<close> is a program that waits forever.\<close>

definition zx_dir_handler :: "zx option \<Rightarrow> dir_item \<Rightarrow> zx option \<times> bool" where
  "zx_dir_handler u item =
     (case Option.bind u (dir_item_line item) of
        None \<Rightarrow> (None, False)
      | Some (go, z) \<Rightarrow> (Some z, go))"

section \<open>LOAD\<close>

definition show_drive_info :: "'d platform \<Rightarrow> bool \<Rightarrow> zx \<Rightarrow> 'd fs \<Rightarrow> (zx \<times> 'd fs) option" where
  "show_drive_info P show_used z s = do {
     type \<leftarrow> at drive_types (unat (di_type (drive_info s)));
     let z = term_puts (ascii '' model: '') (term_clrscrn z);
         z = term_puts (di_model (drive_info s)) z;
         z = term_puts (0x0A # ascii '' serno: '') z;
         z = term_puts (di_serno (drive_info s)) z;
         z = term_puts (0x0A # ascii ''  type: '') z;
         z = term_puts type z;
         z = term_puts (0x0A # ascii ''blocks: '') z;
         z = term_putul (blk_count s) z
     in if show_used
        then let z = term_puts (0x0A # ascii ''  used: '') z
             in do {
               (used, s) \<leftarrow> tfs_get_used P s;
               Some (term_putul used z, s)
             }
        else Some (z, s)
   }"

text \<open>\<open>tfs_read_file\<close> stores the bytes from \<open>VERSN\<close> on.\<close>

definition store_ram :: "u16 \<Rightarrow> byte list \<Rightarrow> zx \<Rightarrow> zx" where
  "store_ram a bs z = z\<lparr>ram := (\<lambda>x. if unat (x - a) < length bs then bs ! unat (x - a) else ram z x)\<rparr>"

definition load :: "'d platform \<Rightarrow> (nat \<Rightarrow> byte) \<Rightarrow> zx \<Rightarrow> 'd fs \<Rightarrow> (zx \<times> 'd fs) option" where
  "load P name z s =
     (let z = term_zx2ascii name z;
          buf = term_buf z;
          c = c_at buf 1
      in if c = 0
         then do {
           let z = (print_dir_header z)\<lparr>dir_files := 0, dir_dirs := 0\<rparr>;
           ((ok, u), s) \<leftarrow> tfs_read_dir P zx_dir_handler (Some z) s;
           z \<leftarrow> u;
           Some (if ok
                 then term_putul (ucast (dir_dirs z)) (term_puts (ascii '' dirs: '')
                   (term_putul (ucast (dir_files z)) (term_puts (ascii ''files: '') z)))
                 else z, s)
         }
         else if c = 0x3F then show_drive_info P False z s
         else if c = 0x2A then show_drive_info P True z s
         else if c = 0x2F then Some (z, tfs_change_dir_root s)
         else if c = 0x3C then do {s \<leftarrow> tfs_change_dir_parent P s; Some (z, s)}
         else if c = 0x3E then do {s \<leftarrow> tfs_change_dir P (drop 2 buf) s; Some (z, s)}
         else do {
           ((len, bytes), s) \<leftarrow> tfs_read_file P (drop 1 buf) MAX_FILESIZE s;
           Some (store_ram VERSN bytes z, s)
         })"

definition show_error :: "zx \<Rightarrow> 'd fs \<Rightarrow> zx option" where
  "show_error z s =
     (if last_error s = 0 then Some z
      else do {
        msg \<leftarrow> at error_msg (unat (last_error s - 1));
        Some (term_puts msg (term_clrscrn z))
      })"

end
