(* ===== verification/Zx81_Props.thy ===== *)
theory Zx81_Props
  imports Zx81 Uart
begin

text \<open>
  Properties of the ZX81 program: how file names are compared and where they come from, the numbers on
  the screen, and the pages of the directory listing.
\<close>

section \<open>Names\<close>

definition lower :: "byte \<Rightarrow> byte" where
  "lower c = (if c \<ge> 0x41 \<and> c \<le> 0x5A then c - 0x41 + 0x61 else c)"

lemma lower_zero: "lower c = 0 \<longleftrightarrow> c = 0"
proof -
  have "c - 0x41 + 0x61 \<noteq> (0 :: byte)" if "c \<ge> 0x41" "c \<le> 0x5A"
  proof
    assume "c - 0x41 + 0x61 = 0"
    then have "c = - 0x20" by (simp add: eq_neg_iff_add_eq_0 add.commute)
    with that show False by simp
  qed
  then show ?thesis by (auto simp: lower_def)
qed

lemma zx_filename_cmp_from_iff: "zx_filename_cmp_from n ref cmp \<longleftrightarrow> c_str ref = map lower (c_str (take n cmp))"
proof (induction n arbitrary: ref cmp)
  case 0
  then show ?case by (cases ref) auto
next
  case (Suc n)
  have "zx_filename_cmp_from (Suc n) ref cmp \<longleftrightarrow> (lower (c_at cmp 0) = c_at ref 0 \<and>
      (c_at cmp 0 = 0 \<or> zx_filename_cmp_from n (tl ref) (tl cmp)))"
    using lower_zero[of "c_at cmp 0"] by (auto simp: Let_def lower_def)
  then show ?case using Suc.IH[of "tl ref" "tl cmp"] lower_zero
    by (cases ref; cases cmp) (auto simp: eq_commute[of "[]"])
qed

text \<open>C34: \<open>filename_cmp\<close> holds exactly when the wanted name is the stored one in lower case.  A wanted name of
  more than 16 characters matches no stored name at all, so that \<open>SAVE\<close> under such a name makes a new
  entry every time and \<open>LOAD\<close> never finds one.\<close>

theorem filename_cmp_lower:
  "(zx_filename_cmp ref cmp \<longleftrightarrow> c_str ref = map lower (take TFS_NAME_LEN (c_str cmp))) \<and>
   (TFS_NAME_LEN < length (c_str ref) \<longrightarrow> \<not> zx_filename_cmp ref cmp)"
proof -
  have c: "zx_filename_cmp ref cmp \<longleftrightarrow> c_str ref = map lower (take TFS_NAME_LEN (c_str cmp))"
    by (simp only: zx_filename_cmp_def zx_filename_cmp_from_iff c_str_take)
  then have "\<not> zx_filename_cmp ref cmp" if "TFS_NAME_LEN < length (c_str ref)"
    using that by auto
  with c show ?thesis by blast
qed

lemma filename_cmp_lower_witness:
  "\<not> zx_filename_cmp (ascii ''abcdefghijklmnopq'') (strncpy TFS_NAME_LEN (ascii ''abcdefghijklmnopq''))"
  by (rule filename_cmp_lower[THEN conjunct2, rule_format]) (simp add: ascii_def)

text \<open>The characters that \<open>term_zx2ascii\<close> writes.\<close>

lemma zx2ascii_chars: "c \<in> set zx2ascii \<Longrightarrow> c \<noteq> 0 \<and> lower c = c \<and> c < 0x80"
proof -
  have "list_all (\<lambda>c. c \<noteq> 0 \<and> lower c = c \<and> c < 0x80) zx2ascii" by (simp add: zx2ascii_def lower_def)
  then show "c \<in> set zx2ascii \<Longrightarrow> c \<noteq> 0 \<and> lower c = c \<and> c < 0x80" by (simp add: list_all_iff)
qed

lemma zx_chars_ok: "set (zx_chars n inp) \<subseteq> set zx2ascii" "length (zx_chars n inp) \<le> n"
proof -
  have "unat (x AND 0x7F) < length zx2ascii" for x :: byte
  proof -
    have "x AND 0x7F \<le> 0x7F" by (rule word_and_le1)
    then show ?thesis by (simp add: word_le_nat_alt zx2ascii_def)
  qed
  then show "set (zx_chars n inp) \<subseteq> set zx2ascii" by (induction n arbitrary: inp) (auto simp: subset_iff)
  show "length (zx_chars n inp) \<le> n" by (induction n arbitrary: inp) auto
qed

lemma c_str_all: "0 \<notin> set xs \<Longrightarrow> c_str (xs @ 0 # ys) = xs"
  by (induction xs) auto

text \<open>C35: whatever the BASIC line holds, \<open>term_zx2ascii\<close> leaves a string of at most 47 characters in the 48 bytes
  of the buffer, and every name cut out of it that has at most 16 characters is found again once it
  has been stored in an entry.\<close>

theorem typed_name_found_again:
  assumes "length (term_buf t) = TERM_BUFFER_SIZE"
  shows "\<exists>line. length line < TERM_BUFFER_SIZE \<and> length (term_buf (term_zx2ascii inp t)) = TERM_BUFFER_SIZE \<and>
    c_str (term_buf (term_zx2ascii inp t)) = line \<and>
    (\<forall>k. length (drop k line) \<le> TFS_NAME_LEN \<longrightarrow>
      zx_filename_cmp (drop k (line @ [0])) (strncpy TFS_NAME_LEN (drop k (line @ [0]))))"
proof -
  define line where "line = zx_chars (TERM_BUFFER_SIZE - 1) inp"
  have l: "length line < TERM_BUFFER_SIZE" using zx_chars_ok(2)[of "TERM_BUFFER_SIZE - 1" inp] by (simp add: line_def)
  have nz: "0 \<notin> set line" and low: "map lower (drop k line) = drop k line" for k
    using zx_chars_ok(1)[of "TERM_BUFFER_SIZE - 1" inp] zx2ascii_chars by (auto simp: line_def intro!: map_idI dest!: in_set_dropD)
  have "term_buf (term_zx2ascii inp t) = line @ 0 # drop (length line + 1) (term_buf t)"
    by (simp add: term_zx2ascii_def put_bytes_def line_def)
  then have b: "length (term_buf (term_zx2ascii inp t)) = TERM_BUFFER_SIZE" "c_str (term_buf (term_zx2ascii inp t)) = line"
    using l assms c_str_all[OF nz] by simp_all
  have "zx_filename_cmp (drop k (line @ [0])) (strncpy TFS_NAME_LEN (drop k (line @ [0])))"
    if "length (drop k line) \<le> TFS_NAME_LEN" for k
  proof -
    have "c_str (drop k (line @ [0])) = drop k line"
    proof (cases "k \<le> length line")
      case True
      have "0 \<notin> set (drop k line)" using nz by (auto dest: in_set_dropD)
      from c_str_all[OF this, of "[]"] True show ?thesis by simp
    qed simp
    with that show ?thesis
      by (simp add: zx_filename_cmp_def zx_filename_cmp_from_iff c_str_take c_str_strncpy low)
  qed
  with l b show ?thesis by (intro exI[of _ line]) simp
qed

lemma typed_name_found_again_witness:
  "\<exists>line. c_str (term_buf (term_zx2ascii (\<lambda>i. if i = 0 then 0x0E else 0xA6)
     \<lparr>term_buf = replicate 48 1, screen = [], keys = []\<rparr>)) = line \<and> length line < TERM_BUFFER_SIZE"
  using typed_name_found_again[of "\<lparr>term_buf = replicate 48 1, screen = [], keys = []\<rparr>"] by auto

section \<open>Numbers on the screen\<close>

abbreviation shows_text :: "byte list \<Rightarrow> 'a terminal_scheme \<Rightarrow> 'a terminal_scheme" where
  "shows_text xs t \<equiv> t\<lparr>screen := screen t @ map (\<lambda>c. Print (ascii2zx ! unat (c AND 0x7F))) xs\<rparr>"

lemma term_putsn_shows: "term_putsn s n t = shows_text (take n (c_str s)) t"
proof (induction n arbitrary: s t)
  case (Suc n)
  then show ?case by (cases s) (auto simp: term_putc_def)
qed simp

lemma putul_digits_spec:
  "length (decimal (unat v)) \<le> p \<Longrightarrow> p \<le> length buf \<Longrightarrow>
   putul_digits v p len buf = (p - length (decimal (unat v)), len + length (decimal (unat v)),
     take (p - length (decimal (unat v))) buf @ decimal (unat v) @ drop p buf)"
proof (induction v p len buf rule: putul_digits.induct)
  case (1 v p len buf)
  have u: "unat (v mod 10) = unat v mod 10" "unat (v div 10) = unat v div 10" by (simp_all add: unat_mod_distrib unat_div_distrib)
  have d: "0x30 + ucast (v mod 10) = digit (unat v mod 10)"
    unfolding digit_def of_nat_add u[symmetric] by simp
  let ?buf = "buf[p - 1 := digit (unat v mod 10)]"
  have p: "0 < p" using "1.prems"(1) decimal_text(2)[of "unat v"] by (cases p) auto
  then have upd: "?buf = take (p - 1) buf @ digit (unat v mod 10) # drop p buf"
    using "1.prems"(2) by (simp add: upd_conv_take_nth_drop)
  have z: "v div 10 = 0 \<longleftrightarrow> unat v < 10" using u(2) by (metis div_eq_0_iff unat_eq_zero zero_neq_numeral)
  show ?case
  proof (cases "unat v < 10")
    case True
    then have "decimal (unat v) = [digit (unat v)]" by (simp add: decimal.simps)
    with True z upd show ?thesis by (subst putul_digits.simps) (simp add: d)
  next
    case False
    have dec: "decimal (unat v) = decimal (unat v div 10) @ [digit (unat v mod 10)]"
      using False by (subst decimal.simps) simp
    have "putul_digits (v div 10) (p - 1) (len + 1) ?buf = (p - 1 - length (decimal (unat v div 10)), len + 1 + length (decimal (unat v div 10)),
        take (p - 1 - length (decimal (unat v div 10))) ?buf @ decimal (unat v div 10) @ drop (p - 1) ?buf)"
      using "1.IH"[of ?buf] False z "1.prems" by (simp add: d u(2) dec)
    moreover have "take (p - 1 - k) ?buf = take (p - 1 - k) buf" "drop (p - 1) ?buf = digit (unat v mod 10) # drop p buf" for k
      unfolding upd using "1.prems"(2) p by (auto simp: min_def)
    ultimately show ?thesis using False z p by (subst putul_digits.simps) (simp add: d dec)
  qed
qed

lemma putul_pad_spec:
  "n \<le> p \<Longrightarrow> p \<le> length buf \<Longrightarrow> putul_pad n p buf = (p - n, take (p - n) buf @ replicate n 0x20 @ drop p buf)"
proof (induction n arbitrary: p buf)
  case (Suc n)
  have "buf[p - 1 := 0x20] = take (p - 1) buf @ 0x20 # drop p buf"
    using Suc.prems by (simp add: upd_conv_take_nth_drop)
  with Suc.prems Suc.IH[of "p - 1" "buf[p - 1 := 0x20]"] show ?case
    by (simp add: min_def replicate_app_Cons_same)
qed simp

text \<open>C36: \<open>term_putul_aligned\<close> prints the number in decimal, padded with blanks on the left to the size asked for;
  it uses the end of the name buffer for it and leaves the rest of the buffer alone.\<close>

theorem putul_prints_decimal:
  assumes "length (term_buf t) = TERM_BUFFER_SIZE" and "sz \<le> 32"
  shows "\<exists>buf. term_putul_aligned v sz t = shows_text (pad_left sz [0x20] (decimal (unat v))) (t\<lparr>term_buf := buf\<rparr>) \<and>
    length buf = TERM_BUFFER_SIZE \<and> take 15 buf = take 15 (term_buf t)"
proof -
  let ?D = "decimal (unat v)" and ?buf = "(term_buf t)[TERM_BUFFER_SIZE - 1 := 0]"
  have "unat v < 10 ^ Suc 9" using unsigned_less[of v, where 'a = nat] by simp
  then have L: "length ?D \<le> 10" using length_decimal_le[of "unat v" 9] by simp
  define p where "p = TERM_BUFFER_SIZE - 1 - length ?D"
  define n where "n = sz - length ?D"
  have le: "n \<le> p" "15 \<le> p - n" "p \<le> 47" using L assms(2) by (simp_all add: p_def n_def)
  have dr: "drop 47 ?buf = [0]"
    using assms(1) by (simp add: upd_conv_take_nth_drop)
  have dg: "putul_digits v (TERM_BUFFER_SIZE - 1) 0 ?buf = (p, length ?D, take p ?buf @ ?D @ [0])"
    using putul_digits_spec[of v "TERM_BUFFER_SIZE - 1" ?buf 0] L assms(1) dr by (simp add: p_def)
  have dp: "drop p (take p ?buf @ ?D @ [0]) = ?D @ [0]" using assms(1) by (simp add: p_def)
  have tk: "take (p - n) (take p ?buf @ xs) = take (p - n) ?buf" for xs using assms(1) le(3) by (simp add: min_def)
  have pd: "putul_pad n p (take p ?buf @ ?D @ [0]) = (p - n, take (p - n) ?buf @ replicate n 0x20 @ ?D @ [0])"
    using putul_pad_spec[OF le(1), of "take p ?buf @ ?D @ [0]"] assms(1) le(3) unfolding dp tk by simp
  let ?b = "take (p - n) ?buf @ replicate n 0x20 @ ?D @ [0]"
  have "drop (p - n) ?b = (replicate n 0x20 @ ?D) @ [0]" using assms(1) le(3) by simp
  moreover have "0 \<notin> set (replicate n 0x20 @ ?D)" using decimal_text(1) by auto
  ultimately have cs: "c_str (drop (p - n) ?b) = replicate n 0x20 @ ?D" using c_str_all by metis
  have "length (replicate n 0x20 @ ?D) \<le> 32" using L assms(2) by (simp add: n_def)
  then have sh: "term_puts (drop (p - n) ?b) z = shows_text (replicate n 0x20 @ ?D) z" for z :: "'b terminal_scheme"
    unfolding term_puts_def term_putsn_shows cs by (simp only: take_all)
  have pl: "pad_left sz [0x20] ?D = replicate n 0x20 @ ?D"
    by (simp add: pad_left_def n_def concat_replicate_single)
  have "term_putul_aligned v sz t = shows_text (pad_left sz [0x20] ?D) (t\<lparr>term_buf := ?b\<rparr>)"
    unfolding term_putul_aligned_def Let_def dg prod.case n_def[symmetric] pd sh pl ..
  moreover have "length ?b = TERM_BUFFER_SIZE" using assms(1) L le by (simp add: p_def n_def)
  moreover have "take 15 ?b = take 15 (term_buf t)" using assms(1) le(2) by simp
  ultimately show ?thesis by blast
qed

lemma putul_prints_decimal_witness:
  "screen (term_putul_aligned 42 4 \<lparr>term_buf = replicate 48 0, screen = [], keys = []\<rparr>) =
    [Print 0x00, Print 0x00, Print 0x20, Print 0x1E]"
proof -
  have "decimal 42 = [0x34, 0x32]" by (simp add: decimal.simps[of 42] decimal.simps[of 4] digit_def)
  moreover have "unat (42 :: u32) = 42" by simp
  ultimately have "pad_left 4 [0x20] (decimal (unat (42 :: u32))) = [0x20, 0x20, 0x34, 0x32]"
    by (simp only: pad_left_def) (simp add: numeral_eq_Suc)
  moreover have "ascii2zx ! unat (0x20 AND 0x7F :: byte) = 0x00" "ascii2zx ! unat (0x34 AND 0x7F :: byte) = 0x20"
    "ascii2zx ! unat (0x32 AND 0x7F :: byte) = 0x1E"
    by (simp_all add: ascii2zx_def)
  moreover
  let ?t = "\<lparr>term_buf = replicate 48 0, screen = [], keys = []\<rparr>"
  have "length (term_buf ?t) = TERM_BUFFER_SIZE" "(4 :: nat) \<le> 32" by simp_all
  from putul_prints_decimal[OF this, of 42] obtain buf where
    "term_putul_aligned 42 4 ?t = shows_text (pad_left 4 [0x20] (decimal (unat (42 :: u32)))) (?t\<lparr>term_buf := buf\<rparr>)"
    by blast
  ultimately show ?thesis by simp
qed

section \<open>The pages of the listing\<close>

lemma print_keeps_line [simp]:
  "dir_line (term_puts xs z) = dir_line z" "dir_line (term_putsn xs n z) = dir_line z" "dir_line (term_putc c z) = dir_line z"
  "dir_line (term_putul_aligned v sz z) = dir_line z"
  by (simp_all add: term_puts_def term_putsn_shows term_putc_def term_putul_aligned_def Let_def split: prod.split)

lemma get_key_keeps_line: "term_get_key z = Some (k, z1) \<Longrightarrow> dir_line z1 = dir_line z"
  by (auto simp: term_get_key_def split: list.splits)

lemma wait_page_line: "wait_page z = Some (go, z') \<Longrightarrow> dir_line z' = (if go then 1 else dir_line z)"
proof (induction z rule: wait_page.induct)
  case (1 z)
  then obtain k z1 where k: "term_get_key z = Some (k, z1)" by (subst (asm) (2) wait_page.simps) (auto split: option.splits)
  consider "k = TERM_KEY_ENT" | "k \<noteq> TERM_KEY_ENT" "k = TERM_KEY_SPC" | "k \<noteq> TERM_KEY_ENT" "k \<noteq> TERM_KEY_SPC" by blast
  then show ?case
  proof cases
    case 3
    with "1.prems" k have "wait_page z1 = Some (go, z')" by (subst (asm) wait_page.simps) simp
    with "1.IH"[OF k refl 3] get_key_keeps_line[OF k] show ?thesis by simp
  qed (use "1.prems" k get_key_keeps_line[OF k] in \<open>auto simp: wait_page.simps[of z] print_dir_header_def split: if_splits\<close>)
qed

lemma end_line_line:
  assumes "end_line name z = Some (go, z')" and "dir_line z \<le> 20"
  shows "dir_line z' \<le> 21" "go \<Longrightarrow> dir_line z' \<le> 20" "go \<Longrightarrow> dir_line z' \<noteq> 1 \<Longrightarrow> dir_line z \<le> dir_line z'"
proof -
  let ?y = "term_putc 0x0A (term_putsn name TFS_NAME_LEN (term_putc 0x20 z))"
  let ?z = "?y\<lparr>dir_line := dir_line ?y + 1\<rparr>"
  have l: "dir_line ?z = dir_line z + 1" by simp
  have b: "dir_line z + 1 \<le> 21" "dir_line z \<le> dir_line z + 1" "\<not> 21 \<le> dir_line z + 1 \<Longrightarrow> dir_line z + 1 \<le> 20"
    using assms(2) by (simp_all add: word_le_nat_alt unat_word_ariths)
  consider "wait_page (term_puts (ascii ''<NL> = next page  <SPACE> = end'') ?z) = Some (go, z')"
    | "\<not> 21 \<le> dir_line z + 1" "go" "z' = ?z"
    using assms(1) unfolding end_line_def Let_def l by (auto split: if_splits)
  then have "(go \<and> dir_line z' = 1) \<or> (\<not> go \<and> dir_line z' = dir_line z + 1) \<or>
      (\<not> 21 \<le> dir_line z + 1 \<and> dir_line z' = dir_line z + 1)"
    by cases (auto dest!: wait_page_line simp: l split: if_splits)
  with b show "dir_line z' \<le> 21" "go \<Longrightarrow> dir_line z' \<le> 20" "go \<Longrightarrow> dir_line z' \<noteq> 1 \<Longrightarrow> dir_line z \<le> dir_line z'"
    by auto
qed

text \<open>The directory listing fits the screen: from a page with at most 20 lines in use, the handler uses at most
  21, and it only goes on to the next entry with at most 20 in use; the 8-bit line counter never wraps.\<close>

theorem page_fits:
  assumes "dir_line z \<le> 20" and "dir_item_line item z = Some (go, z')"
  shows "dir_line z' \<le> 21 \<and> (go \<longrightarrow> dir_line z' \<le> 20) \<and> (go \<and> dir_line z' \<noteq> 1 \<longrightarrow> dir_line z \<le> dir_line z')"
proof -
  have "dir_line z \<le> 21" using assms(1) order_trans by fastforce
  have *: ?thesis if "end_line (it_name item) y = Some (go, z')" "dir_line y = dir_line z" for y
    using end_line_line[OF that(1)] that(2) assms(1) by simp
  show ?thesis
  proof (cases "it_type item = TFS_DIR_ITEM_DIR \<or> it_type item = TFS_DIR_ITEM_FILE")
    case True
    then obtain y where "end_line (it_name item) y = Some (go, z')" "dir_line y = dir_line z"
      using assms(2) unfolding dir_item_line_def by (elim disjE) force+
    then show ?thesis by (rule *)
  next
    case False
    with assms \<open>dir_line z \<le> 21\<close> show ?thesis by (simp add: dir_item_line_def)
  qed
qed

end
