(* ===== verification/Mmc.thy ===== *)
theory Mmc
  imports Device
begin

text \<open>
  \<open>mmc.c\<close>: the driver for MMC and SD cards in SPI mode.  The card and the wires to it are parameters: \<open>spi\<close>
  says what one byte on the bus does to the card and which byte comes back, and what the select line
  does.  Every transfer of the driver is one step of it, in the order of the code, so that a card that
  never answers, answers late, or breaks off is a value of the parameter.
\<close>

abbreviation DRIVE_TYPE_MMC :: byte where "DRIVE_TYPE_MMC \<equiv> 1"
abbreviation DRIVE_TYPE_SDV1 :: byte where "DRIVE_TYPE_SDV1 \<equiv> 2"
abbreviation DRIVE_TYPE_SDV2 :: byte where "DRIVE_TYPE_SDV2 \<equiv> 3"
abbreviation DRIVE_TYPE_SDHC :: byte where "DRIVE_TYPE_SDHC \<equiv> 4"

abbreviation CMD_GO_IDLE_STATE :: byte where "CMD_GO_IDLE_STATE \<equiv> 0x00"
abbreviation CMD_SEND_OP_COND :: byte where "CMD_SEND_OP_COND \<equiv> 0x01"
abbreviation CMD_SEND_IF_COND :: byte where "CMD_SEND_IF_COND \<equiv> 0x08"
abbreviation CMD_SEND_CSD :: byte where "CMD_SEND_CSD \<equiv> 0x09"
abbreviation CMD_SEND_CID :: byte where "CMD_SEND_CID \<equiv> 0x0A"
abbreviation CMD_SET_BLOCKLEN :: byte where "CMD_SET_BLOCKLEN \<equiv> 0x10"
abbreviation CMD_READ_SINGLE_BLOCK :: byte where "CMD_READ_SINGLE_BLOCK \<equiv> 0x11"
abbreviation CMD_WRITE_SINGLE_BLOCK :: byte where "CMD_WRITE_SINGLE_BLOCK \<equiv> 0x18"
abbreviation CMD_SD_SEND_OP_COND :: byte where "CMD_SD_SEND_OP_COND \<equiv> 0x29"
abbreviation CMD_APP :: byte where "CMD_APP \<equiv> 0x37"
abbreviation CMD_READ_OCR :: byte where "CMD_READ_OCR \<equiv> 0x3A"

abbreviation STATE_IDLE_STATE :: byte where "STATE_IDLE_STATE \<equiv> 0x01"
abbreviation STATE_ILL_COMMAND :: byte where "STATE_ILL_COMMAND \<equiv> 0x04"

definition TIMEOUT :: nat where "TIMEOUT = 0x7FFF"

section \<open>The bus\<close>

record 'c spi =
  spi_transfer_byte :: "byte \<Rightarrow> 'c \<Rightarrow> byte \<times> 'c"
  spi_select_drive :: "'c \<Rightarrow> 'c"
  spi_deselect_drive :: "'c \<Rightarrow> 'c"

record 'c mmc_dev =
  mmc_card :: 'c
  tmp_buf :: "byte list"

definition spi_send_byte :: "'c spi \<Rightarrow> byte \<Rightarrow> 'c \<Rightarrow> 'c" where
  "spi_send_byte B b c = snd (spi_transfer_byte B b c)"

definition spi_rec_byte :: "'c spi \<Rightarrow> 'c \<Rightarrow> byte \<times> 'c" where
  "spi_rec_byte B c = spi_transfer_byte B 0xFF c"

text \<open>The loops of \<open>spi.c\<close>, on both ports: bytes read, bytes written, and clock cycles without data.\<close>

fun spi_read_block :: "'c spi \<Rightarrow> nat \<Rightarrow> 'c \<Rightarrow> byte list \<times> 'c" where
  "spi_read_block B 0 c = ([], c)"
| "spi_read_block B (Suc n) c =
     (case spi_rec_byte B c of (b, c) \<Rightarrow> case spi_read_block B n c of (bs, c) \<Rightarrow> (b # bs, c))"

fun spi_write_block :: "'c spi \<Rightarrow> byte list \<Rightarrow> 'c \<Rightarrow> 'c" where
  "spi_write_block B [] c = c"
| "spi_write_block B (b # bs) c = spi_write_block B bs (spi_send_byte B b c)"

definition spi_dummy_transfer :: "'c spi \<Rightarrow> nat \<Rightarrow> 'c \<Rightarrow> 'c" where
  "spi_dummy_transfer B n c = spi_write_block B (replicate n 0xFF) c"

section \<open>Commands\<close>

definition mmc_select :: "'c spi \<Rightarrow> 'c \<Rightarrow> 'c" where
  "mmc_select B c = spi_select_drive B (spi_dummy_transfer B 1 c)"

definition mmc_deselect :: "'c spi \<Rightarrow> 'c \<Rightarrow> 'c" where
  "mmc_deselect B c = spi_dummy_transfer B 10 (spi_deselect_drive B c)"

definition hex_char :: "byte \<Rightarrow> byte" where
  "hex_char v = (let v = v AND 0x0F in if v \<ge> 10 then 0x41 + v - 10 else 0x30 + v)"

text \<open>The loop of \<open>wait_byte\<close>; \<open>n\<close> is the value of \<open>timeout\<close>.\<close>

fun wait_byte_from :: "'c spi \<Rightarrow> byte \<Rightarrow> nat \<Rightarrow> 'c \<Rightarrow> bool \<times> 'c" where
  "wait_byte_from B v 0 c = (case spi_rec_byte B c of (b, c) \<Rightarrow> (b = v, c))"
| "wait_byte_from B v (Suc n) c =
     (case spi_rec_byte B c of (b, c) \<Rightarrow> if b = v then (True, c) else wait_byte_from B v n c)"

definition wait_byte :: "'c spi \<Rightarrow> byte \<Rightarrow> 'c \<Rightarrow> bool \<times> 'c" where
  "wait_byte B v c = wait_byte_from B v TIMEOUT c"

text \<open>The loop that waits for the response; \<open>n\<close> is the number of tries left.\<close>

fun response :: "'c spi \<Rightarrow> nat \<Rightarrow> byte \<Rightarrow> 'c \<Rightarrow> byte \<times> 'c" where
  "response B 0 resp c = (resp, c)"
| "response B (Suc n) resp c =
     (if resp = 0xFF then case spi_rec_byte B c of (resp, c) \<Rightarrow> response B n resp c else (resp, c))"

definition send_command :: "'c spi \<Rightarrow> byte \<Rightarrow> u32 \<Rightarrow> 'c \<Rightarrow> byte \<times> 'c" where
  "send_command B cmd arg c =
     (let c = snd (spi_rec_byte B c);
          c = spi_send_byte B (0x40 OR cmd) c;
          c = spi_send_byte B (ucast (drop_bit 24 arg)) c;
          c = spi_send_byte B (ucast (drop_bit 16 arg)) c;
          c = spi_send_byte B (ucast (drop_bit 8 arg)) c;
          c = spi_send_byte B (ucast arg) c;
          c = spi_send_byte B (if cmd = CMD_GO_IDLE_STATE then 0x95 else if cmd = CMD_SEND_IF_COND then 0x87 else 0xFF) c
      in response B 10 0xFF c)"

section \<open>Blocks\<close>

text \<open>The address of a block: a byte offset unless the card is an SDHC card.\<close>

definition block_addr :: "drive_info \<Rightarrow> u32 \<Rightarrow> u32" where
  "block_addr di blkno = (if di_type di \<noteq> DRIVE_TYPE_SDHC then push_bit 9 blkno else blkno)"

definition mmc_read_block :: "'c spi \<Rightarrow> drive_info \<Rightarrow> u32 \<Rightarrow> block \<Rightarrow> 'c mmc_dev \<Rightarrow> 'c mmc_dev \<times> block \<times> byte option" where
  "mmc_read_block B di blkno data d =
     (case send_command B CMD_READ_SINGLE_BLOCK (block_addr di blkno) (mmc_card d) of (resp, c) \<Rightarrow>
        if resp \<noteq> 0 then (d\<lparr>mmc_card := c\<rparr>, data, Some TFS_ERR_IO)
        else case wait_byte B 0xFE c of (ok, c) \<Rightarrow>
          if \<not> ok then (d\<lparr>mmc_card := c\<rparr>, data, Some TFS_ERR_IO)
          else case spi_read_block B TFS_BLOCKSIZE c of (data, c) \<Rightarrow>
            case spi_read_block B 2 c of (crc, c) \<Rightarrow>
              (d\<lparr>mmc_card := c, tmp_buf := put_bytes (tmp_buf d) 0 crc\<rparr>, data, None))"

definition mmc_write_block :: "'c spi \<Rightarrow> drive_info \<Rightarrow> u32 \<Rightarrow> block \<Rightarrow> 'c mmc_dev \<Rightarrow> 'c mmc_dev \<times> byte option" where
  "mmc_write_block B di blkno data d =
     (case send_command B CMD_WRITE_SINGLE_BLOCK (block_addr di blkno) (mmc_card d) of (resp, c) \<Rightarrow>
        if resp \<noteq> 0 then (d\<lparr>mmc_card := c\<rparr>, Some TFS_ERR_IO)
        else let c = snd (spi_rec_byte B c);
                 c = spi_send_byte B 0xFE c;
                 c = spi_write_block B data c;
                 c = spi_send_byte B 0xFF c;
                 c = spi_send_byte B 0xFF c
             in case wait_byte B 0xFF c of (ok, c) \<Rightarrow>
                  (d\<lparr>mmc_card := c\<rparr>, if \<not> ok then Some TFS_ERR_IO else None))"

section \<open>The card's registers\<close>

text \<open>The CID register as the model and the serial number of the drive.\<close>

definition cid_model :: "byte list \<Rightarrow> byte list" where
  "cid_model p = take 5 (drop 3 p) @ [0x20, 0x4D, 0x46, hex_char (drop_bit 4 (p ! 0)), hex_char (p ! 0),
     0x20, 0x52, hex_char (drop_bit 4 (p ! 8)), hex_char (p ! 8),
     0x20, 0x4D, 0x44, hex_char (p ! 13), hex_char (drop_bit 4 (p ! 14)), 0x2F, hex_char (p ! 14), 0]"

definition cid_serno :: "byte list \<Rightarrow> byte list" where
  "cid_serno p = [hex_char (drop_bit 4 (p ! 9)), hex_char (p ! 9), hex_char (drop_bit 4 (p ! 10)), hex_char (p ! 10),
     hex_char (drop_bit 4 (p ! 11)), hex_char (p ! 11), hex_char (drop_bit 4 (p ! 12)), hex_char (p ! 12), 0]"

text \<open>The number of blocks from the CSD register, in its two versions.\<close>

definition csd_blk_count :: "byte list \<Rightarrow> u32" where
  "csd_blk_count p =
     (if drop_bit 6 (p ! 0) = 0x01
      then let c_size = push_bit 16 (ucast (p ! 7 AND 0x3F)) OR push_bit 8 (ucast (p ! 8)) OR ucast (p ! 9)
           in (c_size + 1) * 1024
      else let read_bl_len = p ! 5 AND 0x0F;
               c_size = push_bit 10 (ucast (p ! 6 AND 0x03)) OR push_bit 2 (ucast (p ! 7)) OR ucast (drop_bit 6 (p ! 8)) :: u32;
               c_size_mult = push_bit 1 (p ! 9 AND 0x03) OR drop_bit 7 (p ! 10)
           in drop_bit 9 (push_bit (unat c_size_mult + unat read_bl_len + 2) (c_size + 1)))"

text \<open>A register is read like a block, of 16 bytes and a checksum.\<close>

definition read_register :: "'c spi \<Rightarrow> byte \<Rightarrow> 'c mmc_dev \<Rightarrow> bool \<times> 'c mmc_dev" where
  "read_register B cmd d =
     (case send_command B cmd 0 (mmc_card d) of (resp, c) \<Rightarrow>
        if resp \<noteq> 0 then (False, d\<lparr>mmc_card := c\<rparr>)
        else case wait_byte B 0xFE c of (ok, c) \<Rightarrow>
          if \<not> ok then (False, d\<lparr>mmc_card := c\<rparr>)
          else case spi_read_block B 18 c of (bs, c) \<Rightarrow> (True, d\<lparr>mmc_card := c, tmp_buf := put_bytes (tmp_buf d) 0 bs\<rparr>))"

definition get_info :: "'c spi \<Rightarrow> drive_info \<Rightarrow> 'c mmc_dev \<Rightarrow> bool \<times> drive_info \<times> 'c mmc_dev" where
  "get_info B di d =
     (case read_register B CMD_SEND_CID d of (ok, d) \<Rightarrow>
        if \<not> ok then (False, di, d)
        else let di = di\<lparr>di_model := put_bytes (di_model di) 0 (cid_model (tmp_buf d)),
                         di_serno := put_bytes (di_serno di) 0 (cid_serno (tmp_buf d))\<rparr>
             in case read_register B CMD_SEND_CSD d of (ok, d) \<Rightarrow>
                  if \<not> ok then (False, di, d)
                  else (True, di\<lparr>di_blk_count := csd_blk_count (tmp_buf d)\<rparr>, d))"

section \<open>Initialisation\<close>

text \<open>The reset: \<open>n\<close> more tries after this one.\<close>

fun reset_card :: "'c spi \<Rightarrow> nat \<Rightarrow> 'c \<Rightarrow> bool \<times> 'c" where
  "reset_card B 0 c = (case send_command B CMD_GO_IDLE_STATE 0 c of (resp, c) \<Rightarrow> (resp = STATE_IDLE_STATE, c))"
| "reset_card B (Suc n) c =
     (case send_command B CMD_GO_IDLE_STATE 0 c of (resp, c) \<Rightarrow>
        if resp = STATE_IDLE_STATE then (True, c) else reset_card B n c)"

text \<open>The type of the card, \<open>None\<close> for one that cannot be used.\<close>

definition card_type :: "'c spi \<Rightarrow> 'c mmc_dev \<Rightarrow> byte option \<times> 'c mmc_dev" where
  "card_type B d =
     (case send_command B CMD_SEND_IF_COND (0x100 OR 0xAA) (mmc_card d) of (resp, c) \<Rightarrow>
        if resp AND STATE_ILL_COMMAND = 0
        then case spi_read_block B 4 c of (bs, c) \<Rightarrow>
               let d = d\<lparr>mmc_card := c, tmp_buf := put_bytes (tmp_buf d) 0 bs\<rparr>
               in if tmp_buf d ! 2 AND 0x01 = 0 then (None, d)
                  else if tmp_buf d ! 3 \<noteq> 0xAA then (None, d)
                  else (Some DRIVE_TYPE_SDV2, d)
        else let c = snd (send_command B CMD_APP 0 c)
             in case send_command B CMD_SD_SEND_OP_COND 0 c of (resp, c) \<Rightarrow>
                  (Some (if resp AND STATE_ILL_COMMAND = 0 then DRIVE_TYPE_SDV1 else DRIVE_TYPE_MMC), d\<lparr>mmc_card := c\<rparr>))"

definition ask_ready :: "'c spi \<Rightarrow> byte \<Rightarrow> 'c \<Rightarrow> byte \<times> 'c" where
  "ask_ready B type c =
     (if type = DRIVE_TYPE_MMC then send_command B CMD_SEND_OP_COND 0 c
      else let c = snd (send_command B CMD_APP 0 c)
           in send_command B CMD_SD_SEND_OP_COND (if type = DRIVE_TYPE_SDV2 then 0x40000000 else 0) c)"

fun wait_ready :: "'c spi \<Rightarrow> byte \<Rightarrow> nat \<Rightarrow> 'c \<Rightarrow> bool \<times> 'c" where
  "wait_ready B type 0 c = (case ask_ready B type c of (resp, c) \<Rightarrow> (resp AND STATE_IDLE_STATE = 0, c))"
| "wait_ready B type (Suc n) c =
     (case ask_ready B type c of (resp, c) \<Rightarrow>
        if resp AND STATE_IDLE_STATE = 0 then (True, c) else wait_ready B type n c)"

text \<open>An SD 2 card says in its OCR register whether it is an SDHC card.\<close>

definition high_capacity :: "'c spi \<Rightarrow> byte \<Rightarrow> 'c mmc_dev \<Rightarrow> byte option \<times> 'c mmc_dev" where
  "high_capacity B type d =
     (if type \<noteq> DRIVE_TYPE_SDV2 then (Some type, d)
      else case send_command B CMD_READ_OCR 0 (mmc_card d) of (resp, c) \<Rightarrow>
        if resp \<noteq> 0 then (None, d\<lparr>mmc_card := c\<rparr>)
        else case spi_read_block B 4 c of (bs, c) \<Rightarrow>
          let d = d\<lparr>mmc_card := c, tmp_buf := put_bytes (tmp_buf d) 0 bs\<rparr>
          in (Some (if tmp_buf d ! 0 AND 0x40 \<noteq> 0 then DRIVE_TYPE_SDHC else type), d))"

text \<open>From the reset to the registers; \<open>False\<close> is the jump to \<open>fail\<close>.\<close>

definition init_card :: "'c spi \<Rightarrow> drive_info \<Rightarrow> 'c mmc_dev \<Rightarrow> bool \<times> drive_info \<times> 'c mmc_dev" where
  "init_card B di d =
     (let di = di\<lparr>di_type := DRIVE_TYPE_MMC\<rparr>
      in case reset_card B 0x1FF (mmc_card d) of (ok, c) \<Rightarrow>
           if \<not> ok then (False, di, d\<lparr>mmc_card := c\<rparr>)
           else case card_type B (d\<lparr>mmc_card := c\<rparr>) of
             (None, d) \<Rightarrow> (False, di, d)
           | (Some type, d) \<Rightarrow>
               let di = di\<lparr>di_type := type\<rparr>
               in case wait_ready B type TIMEOUT (mmc_card d) of (ok, c) \<Rightarrow>
                    if \<not> ok then (False, di, d\<lparr>mmc_card := c\<rparr>)
                    else case high_capacity B type (d\<lparr>mmc_card := c\<rparr>) of
                      (None, d) \<Rightarrow> (False, di, d)
                    | (Some type, d) \<Rightarrow>
                        let di = di\<lparr>di_type := type\<rparr>
                        in case send_command B CMD_SET_BLOCKLEN 512 (mmc_card d) of (resp, c) \<Rightarrow>
                             if resp \<noteq> 0 then (False, di, d\<lparr>mmc_card := c\<rparr>) else get_info B di (d\<lparr>mmc_card := c\<rparr>))"

definition mmc_init :: "'c spi \<Rightarrow> drive_info \<Rightarrow> 'c mmc_dev \<Rightarrow> 'c mmc_dev \<times> drive_info \<times> byte" where
  "mmc_init B di d =
     (let d = d\<lparr>mmc_card := mmc_select B (spi_dummy_transfer B 10 (mmc_card d))\<rparr>
      in case init_card B di d of (ok, di, d) \<Rightarrow>
           (d\<lparr>mmc_card := mmc_deselect B (mmc_card d)\<rparr>, di, if ok then TFS_ERR_OK else TFS_ERR_NO_DEV))"

definition mmc_platform :: "'c spi \<Rightarrow> (byte list \<Rightarrow> byte list \<Rightarrow> bool) \<Rightarrow> 'c mmc_dev platform" where
  "mmc_platform B cmp = \<lparr>pf_init = mmc_init B, pf_select = (\<lambda>d. d\<lparr>mmc_card := mmc_select B (mmc_card d)\<rparr>),
     pf_deselect = (\<lambda>d. d\<lparr>mmc_card := mmc_deselect B (mmc_card d)\<rparr>), pf_read = mmc_read_block B, pf_write = mmc_write_block B,
     pf_filename_cmp = cmp, pf_extended_api = False\<rparr>"

end
