(* ===== verification/Sd_Card.thy ===== *)
theory Sd_Card
  imports Mmc
begin

text \<open>
  What an SD card promises on the bus once it is initialised, and the proof that the driver of
  \<open>mmc.c\<close> with such a card is a working block device.  The promises are those of the SPI mode of the SD
  specification: the response comes within ten bytes, a block of data is announced by the start
  byte 0xFE, and a card that writes holds the line low until it is done.
\<close>

section \<open>Bytes sent and received\<close>

fun exchange :: "'c spi \<Rightarrow> byte list \<Rightarrow> 'c \<Rightarrow> byte list \<times> 'c" where
  "exchange B [] c = ([], c)"
| "exchange B (b # bs) c = (case spi_transfer_byte B b c of (r, c) \<Rightarrow> case exchange B bs c of (rs, c) \<Rightarrow> (r # rs, c))"

abbreviation after_bytes :: "'c spi \<Rightarrow> byte list \<Rightarrow> 'c \<Rightarrow> 'c" where
  "after_bytes B bs c \<equiv> snd (exchange B bs c)"

abbreviation listen :: "'c spi \<Rightarrow> nat \<Rightarrow> 'c \<Rightarrow> byte list \<times> 'c" where
  "listen B n c \<equiv> exchange B (replicate n 0xFF) c"

lemma exchange_append:
  "exchange B (xs @ ys) c = (case exchange B xs c of (rs, c) \<Rightarrow> case exchange B ys c of (ss, c) \<Rightarrow> (rs @ ss, c))"
  by (induction xs arbitrary: c) (auto split: prod.split)

lemma length_exchange [simp]: "length (fst (exchange B xs c)) = length xs"
  by (induction xs arbitrary: c) (simp_all add: split_beta)

lemma listen_split:
  assumes "listen B (m + n) c = (rs @ ss, c2)" and "length rs = m"
  obtains c1 where "listen B m c = (rs, c1)" "listen B n c1 = (ss, c2)"
proof -
  obtain rs1 c1 where e1: "listen B m c = (rs1, c1)" by fastforce
  obtain ss1 c3 where e2: "listen B n c1 = (ss1, c3)" by fastforce
  have "length rs1 = m" using length_exchange[of B "replicate m 0xFF" c] e1 by simp
  then show thesis using assms e1 e2 that[of c1] by (simp add: replicate_add exchange_append)
qed

text \<open>The first byte of what is heard.\<close>

lemma listen_Suc:
  assumes "listen B (Suc n) c = (x # xs, c1)"
  obtains c2 where "spi_rec_byte B c = (x, c2)" "listen B n c2 = (xs, c1)"
  using assms by (auto simp: spi_rec_byte_def split: prod.splits)

lemma spi_blocks: "spi_read_block B n c = listen B n c" "spi_write_block B bs c = after_bytes B bs c"
proof -
  show "spi_read_block B n c = listen B n c" by (induction n arbitrary: c) (simp_all add: spi_rec_byte_def)
  show "spi_write_block B bs c = after_bytes B bs c"
    by (induction bs arbitrary: c) (simp_all add: spi_send_byte_def split: prod.split)
qed

definition frame :: "byte \<Rightarrow> u32 \<Rightarrow> byte list" where
  "frame cmd arg = [0xFF, 0x40 OR cmd, ucast (drop_bit 24 arg), ucast (drop_bit 16 arg), ucast (drop_bit 8 arg), ucast arg,
     if cmd = CMD_GO_IDLE_STATE then 0x95 else if cmd = CMD_SEND_IF_COND then 0x87 else 0xFF]"

lemma send_command_frame: "send_command B cmd arg c = response B 10 0xFF (after_bytes B (frame cmd arg) c)"
  by (simp add: send_command_def frame_def spi_send_byte_def spi_rec_byte_def Let_def split: prod.split)

lemma response_in_time:
  "listen B (Suc k) c = (replicate k 0xFF @ [r], c1) \<Longrightarrow> r \<noteq> 0xFF \<Longrightarrow> k < n \<Longrightarrow> response B n 0xFF c = (r, c1)"
proof (induction k arbitrary: n c)
  case 0
  then obtain m where m: "n = Suc m" by (cases n) auto
  from 0(1) have "listen B (Suc 0) c = (r # [], c1)" by simp
  then obtain c2 where "spi_rec_byte B c = (r, c2)" "listen B 0 c2 = ([], c1)" by (rule listen_Suc)
  with 0(2) m show ?case by (cases m) auto
next
  case (Suc k)
  then obtain m where m: "n = Suc m" by (cases n) auto
  from Suc.prems(1) have "listen B (Suc (Suc k)) c = (0xFF # (replicate k 0xFF @ [r]), c1)" by simp
  then obtain c2 where "spi_rec_byte B c = (0xFF, c2)" "listen B (Suc k) c2 = (replicate k 0xFF @ [r], c1)" by (rule listen_Suc)
  with Suc.IH[of c2 m] Suc.prems(2,3) m show ?case by simp
qed

lemma wait_in_time:
  "listen B (Suc (length junk)) c = (junk @ [v], c1) \<Longrightarrow> v \<notin> set junk \<Longrightarrow> length junk \<le> n \<Longrightarrow>
   wait_byte_from B v n c = (True, c1)"
proof (induction junk arbitrary: n c)
  case Nil
  from Nil(1) have "listen B (Suc 0) c = (v # [], c1)" by simp
  then obtain c2 where "spi_rec_byte B c = (v, c2)" "listen B 0 c2 = ([], c1)" by (rule listen_Suc)
  then show ?case by (cases n) auto
next
  case (Cons x junk)
  then obtain m where m: "n = Suc m" by (cases n) auto
  from Cons.prems(1) have "listen B (Suc (Suc (length junk))) c = (x # (junk @ [v]), c1)" by simp
  then obtain c2 where "spi_rec_byte B c = (x, c2)" "listen B (Suc (length junk)) c2 = (junk @ [v], c1)" by (rule listen_Suc)
  with Cons.IH[of c2 m] Cons.prems(2,3) m show ?case by (simp del: exchange.simps replicate.simps) blast
qed

section \<open>The promises of a card\<close>

text \<open>The card answers a command with the response \<open>r\<close> and the bytes \<open>bs\<close>.\<close>

definition replies :: "'c spi \<Rightarrow> byte \<Rightarrow> u32 \<Rightarrow> byte \<Rightarrow> byte list \<Rightarrow> 'c \<Rightarrow> 'c \<Rightarrow> bool" where
  "replies B cmd arg r bs c c' \<longleftrightarrow> r \<noteq> 0xFF \<and> (\<exists>k < 10.
     listen B (Suc k + length bs) (after_bytes B (frame cmd arg) c) = ((replicate k 0xFF @ [r]) @ bs, c'))"

text \<open>The card accepts a command for data, and sends \<open>data\<close> with a checksum behind the start byte.\<close>

definition sends :: "'c spi \<Rightarrow> byte \<Rightarrow> u32 \<Rightarrow> byte list \<Rightarrow> 'c \<Rightarrow> 'c \<Rightarrow> bool" where
  "sends B cmd arg data c c' \<longleftrightarrow> (\<exists>k gap crc. k < 10 \<and> length gap \<le> TIMEOUT \<and> 0xFE \<notin> set gap \<and> length crc = 2 \<and>
     listen B ((Suc k + Suc (length gap)) + (length data + 2)) (after_bytes B (frame cmd arg) c) =
       (((replicate k 0xFF @ [0]) @ (gap @ [0xFE])) @ (data @ crc), c'))"

text \<open>The card takes the command for a write at \<open>addr\<close>, then the data, and is busy for a while.  Nothing is
  said of the bytes in \<open>busy\<close>, the first of which is the response to the data.\<close>

definition takes_write :: "'c spi \<Rightarrow> u32 \<Rightarrow> byte list \<Rightarrow> byte list \<Rightarrow> 'c \<Rightarrow> 'c \<Rightarrow> bool" where
  "takes_write B addr data busy c c' \<longleftrightarrow> (\<exists>k c1. k < 10 \<and> length busy \<le> TIMEOUT \<and> 0xFF \<notin> set busy \<and>
     listen B (Suc k) (after_bytes B (frame CMD_WRITE_SINGLE_BLOCK addr) c) = (replicate k 0xFF @ [0], c1) \<and>
     listen B (Suc (length busy)) (after_bytes B ([0xFF, 0xFE] @ data @ [0xFF, 0xFF]) c1) = (busy @ [0xFF], c'))"

text \<open>SDHC cards count blocks, all others bytes.\<close>

definition card_address :: "drive_info \<Rightarrow> u32 \<Rightarrow> u32" where
  "card_address di n = (if di_type di = DRIVE_TYPE_SDHC then n else 512 * n)"

text \<open>Selecting a card, one byte before it, and deselecting it, with ten bytes to finish its work.\<close>

definition selecting :: "'c spi \<Rightarrow> 'c \<Rightarrow> 'c" where
  "selecting B c = spi_select_drive B (after_bytes B [0xFF] c)"

definition deselecting :: "'c spi \<Rightarrow> 'c \<Rightarrow> 'c" where
  "deselecting B c = after_bytes B (replicate 10 0xFF) (spi_deselect_drive B c)"

definition sd_card :: "'c spi \<Rightarrow> ('c \<Rightarrow> u32 \<Rightarrow> block) \<Rightarrow> (drive_info \<Rightarrow> 'c \<Rightarrow> bool) \<Rightarrow> bool" where
  "sd_card B contents ok \<longleftrightarrow>
     (\<forall>c n. length (contents c n) = TFS_BLOCKSIZE) \<and>
     (\<forall>di c n. ok di c \<longrightarrow> n < di_blk_count di \<longrightarrow>
        (\<exists>c'. sends B CMD_READ_SINGLE_BLOCK (card_address di n) (contents c n) c c' \<and> ok di c' \<and> contents c' = contents c)) \<and>
     (\<forall>di c n data. ok di c \<longrightarrow> n < di_blk_count di \<longrightarrow> length data = TFS_BLOCKSIZE \<longrightarrow>
        (\<exists>busy c'. takes_write B (card_address di n) data busy c c' \<and> ok di c' \<and> contents c' = (contents c)(n := data))) \<and>
     (\<forall>di c. (ok di c \<longrightarrow> ok di (selecting B c)) \<and>
        (ok di (selecting B c) \<longrightarrow> contents (selecting B c) = contents c \<and> ok di (selecting B (deselecting B c)))) \<and>
     (\<forall>c. contents (deselecting B c) = contents c)"

section \<open>The driver with such a card\<close>

lemma block_addr_card: "block_addr di n = card_address di n"
  by (simp add: block_addr_def card_address_def push_bit_eq_mult mult.commute)

lemma mmc_select_bytes: "mmc_select B c = selecting B c" "mmc_deselect B c = deselecting B c"
  by (simp_all only: mmc_select_def mmc_deselect_def selecting_def deselecting_def spi_dummy_transfer_def spi_blocks)
    (simp add: numeral_eq_Suc)

lemma replies_command:
  assumes "replies B cmd arg r bs c c'"
  obtains c1 where "send_command B cmd arg c = (r, c1)" "spi_read_block B (length bs) c1 = (bs, c')"
proof -
  obtain k where k: "k < 10" "r \<noteq> 0xFF"
    "listen B (Suc k + length bs) (after_bytes B (frame cmd arg) c) = ((replicate k 0xFF @ [r]) @ bs, c')"
    using assms unfolding replies_def by blast
  obtain c1 where c1: "listen B (Suc k) (after_bytes B (frame cmd arg) c) = (replicate k 0xFF @ [r], c1)"
    "listen B (length bs) c1 = (bs, c')"
    by (rule listen_split[OF k(3)]) simp
  have "send_command B cmd arg c = (r, c1)"
    unfolding send_command_frame by (rule response_in_time[OF c1(1) k(2,1)])
  then show thesis using c1(2) that by (simp only: spi_blocks)
qed

lemma sends_data:
  assumes "sends B cmd arg data c c'"
  obtains c1 c2 crc where "send_command B cmd arg c = (0, c1)" "wait_byte B 0xFE c1 = (True, c2)" "length crc = 2"
    "listen B (length data + 2) c2 = (data @ crc, c')"
proof -
  let ?c = "after_bytes B (frame cmd arg) c"
  obtain k gap crc where a: "k < 10" "length gap \<le> TIMEOUT" "0xFE \<notin> set gap" "length crc = 2"
    "listen B ((Suc k + Suc (length gap)) + (length data + 2)) ?c = (((replicate k 0xFF @ [0]) @ (gap @ [0xFE])) @ (data @ crc), c')"
    using assms unfolding sends_def by blast
  obtain c1 where c1: "listen B (Suc k + Suc (length gap)) ?c = ((replicate k 0xFF @ [0]) @ (gap @ [0xFE]), c1)"
    "listen B (length data + 2) c1 = (data @ crc, c')"
    by (rule listen_split[OF a(5)]) simp
  obtain c2 where c2: "listen B (Suc k) ?c = (replicate k 0xFF @ [0], c2)" "listen B (Suc (length gap)) c2 = (gap @ [0xFE], c1)"
    by (rule listen_split[OF c1(1)]) simp
  have "send_command B cmd arg c = (0, c2)"
    unfolding send_command_frame by (rule response_in_time[OF c2(1) _ a(1)]) simp
  moreover have "wait_byte B 0xFE c2 = (True, c1)"
    unfolding wait_byte_def by (rule wait_in_time[OF c2(2) a(3,2)])
  ultimately show thesis using that a(4) c1(2) by blast
qed

lemma mmc_read_answered:
  assumes "sends B CMD_READ_SINGLE_BLOCK (card_address di n) data (mmc_card d) c'" and "length data = TFS_BLOCKSIZE"
  shows "\<exists>t. mmc_read_block B di n buf d = (d\<lparr>mmc_card := c', tmp_buf := t\<rparr>, data, None)"
proof -
  obtain c1 c2 crc where r: "send_command B CMD_READ_SINGLE_BLOCK (card_address di n) (mmc_card d) = (0, c1)" "wait_byte B 0xFE c1 = (True, c2)"
    "listen B (length data + 2) c2 = (data @ crc, c')"
    by (rule sends_data[OF assms(1)])
  obtain c3 where c3: "listen B (length data) c2 = (data, c3)" "listen B 2 c3 = (crc, c')"
    by (rule listen_split[OF r(3)]) simp
  have "spi_read_block B TFS_BLOCKSIZE c2 = (data, c3)" "spi_read_block B 2 c3 = (crc, c')"
    using c3 assms(2) by (simp_all only: spi_blocks)
  with r(1,2) have "mmc_read_block B di n buf d = (d\<lparr>mmc_card := c', tmp_buf := put_bytes (tmp_buf d) 0 crc\<rparr>, data, None)"
    unfolding mmc_read_block_def block_addr_card by (simp del: spi_read_block.simps)
  then show ?thesis by blast
qed

lemma mmc_write_taken:
  assumes "takes_write B (card_address di n) data busy (mmc_card d) c'"
  shows "mmc_write_block B di n data d = (d\<lparr>mmc_card := c'\<rparr>, None)"
proof -
  let ?c = "after_bytes B (frame CMD_WRITE_SINGLE_BLOCK (card_address di n)) (mmc_card d)"
  obtain k c1 where a: "k < 10" "length busy \<le> TIMEOUT" "0xFF \<notin> set busy" "listen B (Suc k) ?c = (replicate k 0xFF @ [0], c1)"
    "listen B (Suc (length busy)) (after_bytes B ([0xFF, 0xFE] @ data @ [0xFF, 0xFF]) c1) = (busy @ [0xFF], c')"
    using assms unfolding takes_write_def by blast
  have "send_command B CMD_WRITE_SINGLE_BLOCK (card_address di n) (mmc_card d) = (0, c1)"
    unfolding send_command_frame by (rule response_in_time[OF a(4) _ a(1)]) simp
  moreover have "wait_byte B 0xFF (after_bytes B ([0xFF, 0xFE] @ data @ [0xFF, 0xFF]) c1) = (True, c')"
    unfolding wait_byte_def by (rule wait_in_time[OF a(5,3,2)])
  moreover have "after_bytes B ([0xFF, 0xFE] @ data @ [0xFF, 0xFF]) c1 =
      spi_send_byte B 0xFF (spi_send_byte B 0xFF (spi_write_block B data (spi_send_byte B 0xFE (snd (spi_rec_byte B c1)))))"
    by (simp add: exchange_append spi_blocks spi_send_byte_def spi_rec_byte_def split: prod.split)
  ultimately show ?thesis by (simp add: mmc_write_block_def block_addr_card Let_def)
qed

lemma sd_card_device:
  fixes B :: "'c spi"
  assumes "sd_card B contents ok"
  shows "block_device (mmc_platform B cmp) (\<lambda>d. contents (mmc_card d)) (\<lambda>di d. ok di (mmc_card d))"
proof
  show "length (contents (mmc_card d) n) = TFS_BLOCKSIZE" for d :: "'c mmc_dev" and n
    using assms unfolding sd_card_def by blast
next
  fix di and d :: "'c mmc_dev" and n :: u32 and buf :: block
  assume a: "ok di (mmc_card d)" "n < di_blk_count di" "length buf = TFS_BLOCKSIZE"
  have l: "length (contents (mmc_card d) n) = TFS_BLOCKSIZE" using assms unfolding sd_card_def by blast
  obtain c' where r: "sends B CMD_READ_SINGLE_BLOCK (card_address di n) (contents (mmc_card d) n) (mmc_card d) c'" "ok di c'" "contents c' = contents (mmc_card d)"
    using assms a(1,2) unfolding sd_card_def by blast
  from mmc_read_answered[OF r(1) l, of buf] r(2,3)
  show "snd (pf_read (mmc_platform B cmp) di n buf d) = (contents (mmc_card d) n, None)"
    "contents (mmc_card (fst (pf_read (mmc_platform B cmp) di n buf d))) = contents (mmc_card d)"
    "ok di (mmc_card (fst (pf_read (mmc_platform B cmp) di n buf d)))"
    by (auto simp: mmc_platform_def)
  obtain busy c' where w: "takes_write B (card_address di n) buf busy (mmc_card d) c'" "ok di c'" "contents c' = (contents (mmc_card d))(n := buf)"
    using assms a unfolding sd_card_def by blast
  from mmc_write_taken[OF w(1)] w(2,3)
  show "snd (pf_write (mmc_platform B cmp) di n buf d) = None"
    "contents (mmc_card (fst (pf_write (mmc_platform B cmp) di n buf d))) = (contents (mmc_card d))(n := buf)"
    "ok di (mmc_card (fst (pf_write (mmc_platform B cmp) di n buf d)))"
    by (simp_all add: mmc_platform_def)
next
  fix di and d :: "'c mmc_dev"
  have l: "ok di c \<Longrightarrow> ok di (selecting B c)" "ok di (selecting B c) \<Longrightarrow> contents (selecting B c) = contents c"
    "ok di (selecting B c) \<Longrightarrow> ok di (selecting B (deselecting B c))" "contents (deselecting B c) = contents c" for c
    using assms unfolding sd_card_def by blast+
  show "ok di (mmc_card d) \<Longrightarrow> ok di (mmc_card (pf_select (mmc_platform B cmp) d))"
    "ok di (mmc_card (pf_select (mmc_platform B cmp) d)) \<Longrightarrow> contents (mmc_card (pf_select (mmc_platform B cmp) d)) = contents (mmc_card d)"
    "ok di (mmc_card (pf_select (mmc_platform B cmp) d)) \<Longrightarrow>
      ok di (mmc_card (pf_select (mmc_platform B cmp) (pf_deselect (mmc_platform B cmp) d)))"
    "contents (mmc_card (pf_deselect (mmc_platform B cmp) d)) = contents (mmc_card d)"
    using l by (simp_all add: mmc_platform_def mmc_select_bytes)
qed

end
