(* ===== verification/Demo_Card.thy ===== *)
theory Demo_Card
  imports Sd_Card
begin

text \<open>
  A card that keeps the promises, for the examples: an SDHC card that knows the two commands of the block
  accesses.  It hears nothing while it is not selected, and being deselected breaks off what it was doing.
  When it is worn it keeps the old data and says so, with the response 0x0D to the data of a write.
\<close>

datatype card_phase = Say "byte list" "u32 option" | Command "byte list" | Data u32 "byte list"

record demo_card =
  selected :: bool
  phase :: card_phase
  sectors :: "u32 \<Rightarrow> byte list"
  worn :: bool

definition sector :: "demo_card \<Rightarrow> u32 \<Rightarrow> block" where
  "sector c n = take TFS_BLOCKSIZE (sectors c n @ replicate TFS_BLOCKSIZE 0)"

definition command_arg :: "byte list \<Rightarrow> u32" where
  "command_arg bs = push_bit 24 (ucast (bs ! 1)) OR push_bit 16 (ucast (bs ! 2)) OR push_bit 8 (ucast (bs ! 3)) OR ucast (bs ! 4)"

text \<open>The command is complete.\<close>

definition obey :: "byte list \<Rightarrow> demo_card \<Rightarrow> card_phase" where
  "obey bs c =
     (if bs ! 0 = 0x51 then Say ([0xFF, 0x00, 0xFF, 0xFE] @ sector c (command_arg bs) @ [0x12, 0x34]) None
      else if bs ! 0 = 0x58 then Say [0xFF, 0x00] (Some (command_arg bs))
      else Say [0x04] None)"

text \<open>One byte on the bus.\<close>

definition demo_byte :: "byte \<Rightarrow> demo_card \<Rightarrow> byte \<times> demo_card" where
  "demo_byte b c =
     (if \<not> selected c then (0xFF, c)
      else case phase c of
        Say (r # rs) nx \<Rightarrow> (r, c\<lparr>phase := Say rs nx\<rparr>)
      | Say [] None \<Rightarrow> (0xFF, if b AND 0xC0 = 0x40 then c\<lparr>phase := Command [b]\<rparr> else c)
      | Say [] (Some n) \<Rightarrow> (0xFF, if b = 0xFE then c\<lparr>phase := Data n []\<rparr> else c)
      | Command bs \<Rightarrow> (0xFF, c\<lparr>phase := (if length bs < 5 then Command (bs @ [b]) else obey (bs @ [b]) c)\<rparr>)
      | Data n bs \<Rightarrow> (0xFF, if length bs < 513 then c\<lparr>phase := Data n (bs @ [b])\<rparr>
          else if worn c then c\<lparr>phase := Say [0x0D, 0x00, 0x00] None\<rparr>
          else c\<lparr>phase := Say [0x05, 0x00, 0x00] None, sectors := (sectors c)(n := take TFS_BLOCKSIZE bs)\<rparr>))"

definition demo_spi :: "demo_card spi" where
  "demo_spi = \<lparr>spi_transfer_byte = demo_byte, spi_select_drive = (\<lambda>c. c\<lparr>selected := True\<rparr>),
     spi_deselect_drive = (\<lambda>c. c\<lparr>selected := False, phase := Say [] None\<rparr>)\<rparr>"

definition demo_ok :: "drive_info \<Rightarrow> demo_card \<Rightarrow> bool" where
  "demo_ok di c \<longleftrightarrow> selected c \<and> phase c = Say [] None \<and> \<not> worn c \<and> di_type di = DRIVE_TYPE_SDHC"

lemma demo_bus [simp]:
  "spi_transfer_byte demo_spi = demo_byte" "spi_select_drive demo_spi c = c\<lparr>selected := True\<rparr>"
  "spi_deselect_drive demo_spi c = c\<lparr>selected := False, phase := Say [] None\<rparr>"
  by (simp_all add: demo_spi_def)

lemma length_sector [simp]: "length (sector c n) = TFS_BLOCKSIZE"
  by (simp add: sector_def)

lemma command_arg_frame [simp]:
  "command_arg [x, ucast (drop_bit 24 a), ucast (drop_bit 16 a), ucast (drop_bit 8 a), ucast a, y] = a"
  for a :: u32
proof (rule bit_word_eqI)
  fix n assume n: "n < LENGTH(32)"
  consider "n < 8" | "8 \<le> n" "n < 16" | "16 \<le> n" "n < 24" | "24 \<le> n" by linarith
  then show "bit (command_arg [x, ucast (drop_bit 24 a), ucast (drop_bit 16 a), ucast (drop_bit 8 a), ucast a, y]) n = bit a n"
    by cases (use n in \<open>auto simp: command_arg_def bit_simps\<close>)
qed

lemma unselected_hears_nothing:
  "\<not> selected c \<Longrightarrow> spi_write_block demo_spi bs c = c"
  by (induction bs) (simp_all add: spi_send_byte_def demo_byte_def)

lemma says:
  "selected c \<Longrightarrow> phase c = Say rs nx \<Longrightarrow> listen demo_spi (length rs) c = (rs, c\<lparr>phase := Say [] nx\<rparr>)"
  by (induction rs arbitrary: c) (simp_all add: demo_byte_def)

lemma takes_data:
  "selected c \<Longrightarrow> phase c = Data n bs \<Longrightarrow> length bs + length data < 514 \<Longrightarrow>
   after_bytes demo_spi data c = c\<lparr>phase := Data n (bs @ data)\<rparr>"
  by (induction data arbitrary: c bs) (simp_all add: demo_byte_def split_beta)

lemma takes_frame:
  assumes "selected c" and "phase c = Say [] None" and "cmd = 0x11 \<or> cmd = 0x18"
  shows "after_bytes demo_spi (frame cmd a) c = c\<lparr>phase := obey
    [0x40 OR cmd, ucast (drop_bit 24 a), ucast (drop_bit 16 a), ucast (drop_bit 8 a), ucast a, 0xFF] c\<rparr>"
  using assms by (auto simp: frame_def demo_byte_def obey_def sector_def)


section \<open>It keeps the promises\<close>

lemma demo_sends:
  assumes "demo_ok di c"
  shows "sends demo_spi CMD_READ_SINGLE_BLOCK (card_address di n) (sector c n) c c"
proof -
  let ?c = "after_bytes demo_spi (frame CMD_READ_SINGLE_BLOCK (card_address di n)) c"
  have c: "selected c" "phase c = Say [] None" "card_address di n = n" using assms by (simp_all add: demo_ok_def card_address_def)
  let ?rs = "((replicate 1 0xFF @ [0x00]) @ ([0xFF] @ [0xFE])) @ (sector c n @ [0x12, 0x34])"
  have "?c = c\<lparr>phase := Say ?rs None\<rparr>" using c by (subst takes_frame) (simp_all add: obey_def)
  then have "listen demo_spi (length ?rs) ?c = (?rs, ?c\<lparr>phase := Say [] None\<rparr>)" using c by (intro says) simp_all
  moreover have "?c\<lparr>phase := Say [] None\<rparr> = c" using c \<open>?c = _\<close> by simp
  moreover have "length ?rs = Suc 1 + Suc (length [0xFF :: byte]) + (length (sector c n) + 2)" by simp
  ultimately show ?thesis
    unfolding sends_def by (intro exI[of _ 1] exI[of _ "[0xFF]"] exI[of _ "[0x12, 0x34]"]) (simp add: TIMEOUT_def)
qed

lemma demo_takes_write:
  assumes "selected c" "phase c = Say [] None" "di_type di = DRIVE_TYPE_SDHC" and "length data = TFS_BLOCKSIZE"
  shows "takes_write demo_spi (card_address di n) data (if worn c then [0x0D, 0x00, 0x00] else [0x05, 0x00, 0x00]) c
    (if worn c then c else c\<lparr>sectors := (sectors c)(n := data)\<rparr>)"
proof -
  let ?busy = "if worn c then [0x0D, 0x00, 0x00] else [0x05, 0x00, 0x00] :: byte list"
  let ?e = "if worn c then c else c\<lparr>sectors := (sectors c)(n := data)\<rparr>"
  let ?c = "after_bytes demo_spi (frame CMD_WRITE_SINGLE_BLOCK (card_address di n)) c"
  have c: "selected c" "phase c = Say [] None" "card_address di n = n" using assms by (simp_all add: card_address_def)
  have f: "?c = c\<lparr>phase := Say [0xFF, 0x00] (Some n)\<rparr>" using c by (subst takes_frame) (simp_all add: obey_def)
  define c1 where "c1 = c\<lparr>phase := Say [] (Some n)\<rparr>"
  have r: "listen demo_spi (Suc 1) ?c = (replicate 1 0xFF @ [0], c1)"
    unfolding f using says[of "c\<lparr>phase := Say [0xFF, 0x00] (Some n)\<rparr>" "[0xFF, 0x00]"] c(1) by (simp add: c1_def)
  define c2 where "c2 = ?e\<lparr>phase := Say ?busy None\<rparr>"
  have "after_bytes demo_spi [0xFF, 0xFE] c1 = c\<lparr>phase := Data n []\<rparr>"
    using c by (simp add: c1_def demo_byte_def)
  moreover have "after_bytes demo_spi (data @ [0xFF]) (c\<lparr>phase := Data n []\<rparr>) = c\<lparr>phase := Data n (data @ [0xFF])\<rparr>"
    using c assms(4) by (subst takes_data[of _ n "[]"]) simp_all
  moreover have "after_bytes demo_spi [0xFF] (c\<lparr>phase := Data n (data @ [0xFF])\<rparr>) = c2"
    using c assms(4) by (simp add: demo_byte_def c2_def)
  ultimately have w: "after_bytes demo_spi (([0xFF, 0xFE] @ (data @ [0xFF])) @ [0xFF]) c1 = c2"
    unfolding exchange_append by (simp only: split_beta fst_conv snd_conv)
  have "listen demo_spi (length ?busy) c2 = (?busy, c2\<lparr>phase := Say [] None\<rparr>)"
    using c by (intro says) (simp_all add: c2_def)
  moreover have "listen demo_spi 1 (c2\<lparr>phase := Say [] None\<rparr>) = ([0xFF], c2\<lparr>phase := Say [] None\<rparr>)"
    using c by (simp add: demo_byte_def c2_def)
  ultimately have "exchange demo_spi (replicate (length ?busy) 0xFF @ replicate 1 0xFF) c2 =
      (?busy @ [0xFF], c2\<lparr>phase := Say [] None\<rparr>)"
    unfolding exchange_append by (simp only: prod.case)
  moreover have "c2\<lparr>phase := Say [] None\<rparr> = ?e" using c by (simp add: c2_def)
  ultimately have b: "listen demo_spi (Suc (length ?busy)) c2 = (?busy @ [0xFF], ?e)"
    by (simp only: replicate_add[symmetric] add_Suc_right add_0_right One_nat_def)
  show ?thesis
    unfolding takes_write_def c(3)
    by (intro exI[of _ 1] exI[of _ c1]) (use r w b c(3) in \<open>simp add: TIMEOUT_def del: exchange.simps replicate.simps\<close>)
qed

lemma demo_deselect [simp]: "deselecting demo_spi c = c\<lparr>selected := False, phase := Say [] None\<rparr>"
  by (simp add: deselecting_def unselected_hears_nothing flip: spi_blocks(2))

lemma demo_select: "selecting demo_spi c = (snd (demo_byte 0xFF c))\<lparr>selected := True\<rparr>"
  by (simp add: selecting_def split_beta)

lemma demo_select_ok:
  "demo_ok di c \<Longrightarrow> demo_ok di (selecting demo_spi c)"
  "demo_ok di (selecting demo_spi c) \<Longrightarrow> sector (selecting demo_spi c) = sector c"
  "demo_ok di (selecting demo_spi c) \<Longrightarrow> demo_ok di (selecting demo_spi (deselecting demo_spi c))"
  by (auto simp: demo_select demo_ok_def demo_byte_def sector_def fun_eq_iff split: card_phase.splits list.splits option.splits if_splits)

theorem demo_card: "sd_card demo_spi sector demo_ok"
  unfolding sd_card_def
proof (intro conjI allI impI)
  fix di c and n :: u32
  assume "demo_ok di c"
  then show "\<exists>c'. sends demo_spi CMD_READ_SINGLE_BLOCK (card_address di n) (sector c n) c c' \<and> demo_ok di c' \<and> sector c' = sector c"
    using demo_sends by blast
next
  fix di c and n :: u32 and data :: block
  assume ok: "demo_ok di c" and "length data = TFS_BLOCKSIZE"
  moreover from this have "sector (c\<lparr>sectors := (sectors c)(n := data)\<rparr>) = (sector c)(n := data)"
    by (simp add: sector_def fun_eq_iff)
  moreover have "demo_ok di (c\<lparr>sectors := (sectors c)(n := data)\<rparr>)" using ok by (simp add: demo_ok_def)
  ultimately show "\<exists>busy c'. takes_write demo_spi (card_address di n) data busy c c' \<and> demo_ok di c' \<and> sector c' = (sector c)(n := data)"
    using demo_takes_write[of c di data n] unfolding demo_ok_def by (intro exI conjI) simp_all
qed (simp_all add: demo_select_ok demo_select_ok(3)[simplified] sector_def fun_eq_iff)

end
