(* ===== verification/Card_Init.thy ===== *)
theory Card_Init
  imports Sd_Card
begin

text \<open>
  Bringing up a card: what \<open>drive_init\<close> of \<open>mmc.c\<close> does with an SD card of version 2 that answers as the
  specification says, and what it does with an empty slot.
\<close>

section \<open>A dialog of commands\<close>

text \<open>Command, argument, response, and the bytes that follow the response.\<close>

type_synonym exchange_step = "byte \<times> u32 \<times> byte \<times> byte list"

fun dialog :: "'c spi \<Rightarrow> exchange_step list \<Rightarrow> 'c \<Rightarrow> 'c \<Rightarrow> bool" where
  "dialog B [] c c' \<longleftrightarrow> c = c'"
| "dialog B ((cmd, arg, r, bs) # steps) c c' \<longleftrightarrow> (\<exists>c1. replies B cmd arg r bs c c1 \<and> dialog B steps c1 c')"

lemma dialog_append: "dialog B (xs @ ys) c c' \<longleftrightarrow> (\<exists>c1. dialog B xs c c1 \<and> dialog B ys c1 c')"
  by (induction B xs c c' rule: dialog.induct) auto

text \<open>An SD 2 card that is busy \<open>n\<close> times before it is ready: reset, interface condition, the polls, the OCR
  register, block length.\<close>

definition sd2_dialog :: "nat \<Rightarrow> byte list \<Rightarrow> byte list \<Rightarrow> exchange_step list" where
  "sd2_dialog n cond ocr =
     [(CMD_GO_IDLE_STATE, 0, 0x01, []), (CMD_SEND_IF_COND, 0x1AA, 0x01, cond)] @
     concat (replicate n [(CMD_APP, 0, 0x01, []), (CMD_SD_SEND_OP_COND, 0x40000000, 0x01, [])]) @
     [(CMD_APP, 0, 0x01, []), (CMD_SD_SEND_OP_COND, 0x40000000, 0x00, []), (CMD_READ_OCR, 0, 0x00, ocr),
      (CMD_SET_BLOCKLEN, 512, 0x00, [])]"

text \<open>The card in the slot: it goes through the dialog after it was selected, and then sends its registers.\<close>

definition sd2_powers_up :: "'c spi \<Rightarrow> nat \<Rightarrow> byte list \<Rightarrow> byte list \<Rightarrow> byte list \<Rightarrow> byte list \<Rightarrow> 'c \<Rightarrow> 'c \<Rightarrow> bool" where
  "sd2_powers_up B n cond ocr cid csd c c' \<longleftrightarrow> n \<le> TIMEOUT \<and>
     length cond = 4 \<and> cond ! 2 AND 0x01 \<noteq> 0 \<and> cond ! 3 = 0xAA \<and> length ocr = 4 \<and> length cid = 16 \<and> length csd = 16 \<and>
     (\<exists>c1 c2. dialog B (sd2_dialog n cond ocr) (selecting B (after_bytes B (replicate 10 0xFF) c)) c1 \<and>
        sends B CMD_SEND_CID 0 cid c1 c2 \<and> sends B CMD_SEND_CSD 0 csd c2 c')"

section \<open>The steps of the driver\<close>

lemma step_command: "replies B cmd arg r [] c c' \<Longrightarrow> send_command B cmd arg c = (r, c')"
  by (erule replies_command) simp

lemma put_front: "length xs \<le> length b \<Longrightarrow> i < length xs \<Longrightarrow> put_bytes b 0 xs ! i = xs ! i"
  by (simp add: nth_put_bytes)

lemma reset_ok: "replies B CMD_GO_IDLE_STATE 0 0x01 [] c c' \<Longrightarrow> reset_card B n c = (True, c')"
  by (drule step_command) (cases n, simp_all)

lemma card_type_sd2:
  assumes "replies B CMD_SEND_IF_COND 0x1AA 0x01 cond (mmc_card d) c'" and "length cond = 4" and "length (tmp_buf d) = 18"
    and "cond ! 2 AND 0x01 \<noteq> 0" and "cond ! 3 = 0xAA"
  shows "card_type B d = (Some DRIVE_TYPE_SDV2, d\<lparr>mmc_card := c', tmp_buf := put_bytes (tmp_buf d) 0 cond\<rparr>)"
proof -
  obtain c1 where c1: "send_command B CMD_SEND_IF_COND 0x1AA (mmc_card d) = (0x01, c1)" "spi_read_block B 4 c1 = (cond, c')"
    using replies_command[OF assms(1)] assms(2) by metis
  then show ?thesis
    using assms(2-5) by (simp add: card_type_def Let_def put_front del: spi_read_block.simps)
qed

lemma wait_ready_polls:
  assumes "dialog B (concat (replicate n [(CMD_APP, 0, 0x01, []), (CMD_SD_SEND_OP_COND, 0x40000000, 0x01, [])])) c c1"
    and "replies B CMD_APP 0 0x01 [] c1 c2" and "replies B CMD_SD_SEND_OP_COND 0x40000000 0x00 [] c2 c3" and "n \<le> m"
  shows "wait_ready B DRIVE_TYPE_SDV2 m c = (True, c3)"
  using assms(1,4)
proof (induction n arbitrary: c m)
  case 0
  then show ?case using step_command[OF assms(2)] step_command[OF assms(3)] by (cases m) (simp_all add: ask_ready_def)
next
  case (Suc n)
  then obtain k where m: "m = Suc k" "n \<le> k" by (cases m) auto
  from Suc.prems(1) obtain a b where "replies B CMD_APP 0 0x01 [] c a" "replies B CMD_SD_SEND_OP_COND 0x40000000 0x01 [] a b"
    "dialog B (concat (replicate n [(CMD_APP, 0, 0x01, []), (CMD_SD_SEND_OP_COND, 0x40000000, 0x01, [])])) b c1"
    by auto
  with Suc.IH[OF this(3) m(2)] m(1) show ?case
    by (simp add: ask_ready_def step_command)
qed

lemma high_capacity_sd2:
  assumes "replies B CMD_READ_OCR 0 0x00 ocr (mmc_card d) c'" and "length ocr = 4" and "length (tmp_buf d) = 18"
  shows "high_capacity B DRIVE_TYPE_SDV2 d = (Some (if ocr ! 0 AND 0x40 \<noteq> 0 then DRIVE_TYPE_SDHC else DRIVE_TYPE_SDV2),
    d\<lparr>mmc_card := c', tmp_buf := put_bytes (tmp_buf d) 0 ocr\<rparr>)"
proof -
  obtain c1 where "send_command B CMD_READ_OCR 0 (mmc_card d) = (0x00, c1)" "spi_read_block B 4 c1 = (ocr, c')"
    using replies_command[OF assms(1)] assms(2) by metis
  then show ?thesis
    using assms(2,3) by (simp add: high_capacity_def Let_def put_front del: spi_read_block.simps)
qed

lemma register_sent:
  assumes "sends B cmd 0 data (mmc_card d) c'" and "length data = 16" and "length (tmp_buf d) = 18"
  obtains crc where "read_register B cmd d = (True, d\<lparr>mmc_card := c', tmp_buf := data @ crc\<rparr>)" "length crc = 2"
proof -
  obtain c1 c2 crc where r: "send_command B cmd 0 (mmc_card d) = (0, c1)" "wait_byte B 0xFE c1 = (True, c2)" "length crc = 2"
    "listen B (length data + 2) c2 = (data @ crc, c')"
    by (rule sends_data[OF assms(1)])
  have "spi_read_block B 18 c2 = (data @ crc, c')" using r(4) assms(2) by (simp add: spi_blocks del: exchange.simps replicate.simps)
  with r assms show thesis
    by (intro that[of crc]) (simp_all add: read_register_def put_bytes_def del: spi_read_block.simps)
qed

text \<open>The checksum behind the register is not looked at.\<close>

lemma registers_crc:
  assumes "length p = 16"
  shows "cid_model (p @ crc) = cid_model p" "cid_serno (p @ crc) = cid_serno p" "csd_blk_count (p @ crc) = csd_blk_count p"
  using assms by (simp_all add: cid_model_def cid_serno_def csd_blk_count_def nth_append Let_def)

lemma get_info_sent:
  assumes "sends B CMD_SEND_CID 0 cid (mmc_card d) c1" and "sends B CMD_SEND_CSD 0 csd c1 c2"
    and "length cid = 16" and "length csd = 16" and "length (tmp_buf d) = 18"
  shows "\<exists>t. length t = 18 \<and> get_info B di d = (True, di\<lparr>di_model := put_bytes (di_model di) 0 (cid_model cid),
    di_serno := put_bytes (di_serno di) 0 (cid_serno cid), di_blk_count := csd_blk_count csd\<rparr>, d\<lparr>mmc_card := c2, tmp_buf := t\<rparr>)"
proof -
  obtain a where a: "read_register B CMD_SEND_CID d = (True, d\<lparr>mmc_card := c1, tmp_buf := cid @ a\<rparr>)" "length a = 2"
    by (rule register_sent[OF assms(1,3,5)])
  obtain b where b: "read_register B CMD_SEND_CSD (d\<lparr>mmc_card := c1, tmp_buf := cid @ a\<rparr>) =
      (True, d\<lparr>mmc_card := c1, tmp_buf := cid @ a\<rparr>\<lparr>mmc_card := c2, tmp_buf := csd @ b\<rparr>)" "length b = 2"
    by (rule register_sent[of B CMD_SEND_CSD csd "d\<lparr>mmc_card := c1, tmp_buf := cid @ a\<rparr>"]) (use assms(2,3,4) a(2) in simp_all)
  show ?thesis
    by (intro exI[of _ "csd @ b"]) (simp add: get_info_def a b assms(3,4) registers_crc Let_def)
qed

section \<open>drive_init\<close>

theorem init_sd2:
  assumes up: "sd2_powers_up B n cond ocr cid csd (mmc_card d) c'" and len: "length (tmp_buf d) = 18"
  shows "\<exists>t. mmc_init B di d = (d\<lparr>mmc_card := mmc_deselect B c', tmp_buf := t\<rparr>,
    di\<lparr>di_type := (if ocr ! 0 AND 0x40 \<noteq> 0 then DRIVE_TYPE_SDHC else DRIVE_TYPE_SDV2),
       di_model := put_bytes (di_model di) 0 (cid_model cid), di_serno := put_bytes (di_serno di) 0 (cid_serno cid),
       di_blk_count := csd_blk_count csd\<rparr>, TFS_ERR_OK)"
proof -
  define T where "T = (if ocr ! 0 AND 0x40 \<noteq> 0 then DRIVE_TYPE_SDHC else DRIVE_TYPE_SDV2)"
  define c0 where "c0 = mmc_select B (spi_dummy_transfer B 10 (mmc_card d))"
  have c0: "c0 = selecting B (after_bytes B (replicate 10 0xFF) (mmc_card d))"
    by (simp only: c0_def mmc_select_bytes spi_dummy_transfer_def spi_blocks)
  have u: "n \<le> TIMEOUT" "length cond = 4" "cond ! 2 AND 0x01 \<noteq> 0" "cond ! 3 = 0xAA" "length ocr = 4" "length cid = 16" "length csd = 16"
    using up by (simp_all add: sd2_powers_up_def)
  obtain c8 c9 where dl: "dialog B (sd2_dialog n cond ocr) c0 c8" and r: "sends B CMD_SEND_CID 0 cid c8 c9" "sends B CMD_SEND_CSD 0 csd c9 c'"
    using up unfolding sd2_powers_up_def c0 by blast
  from dl obtain c1 c2 c3 c4 c5 c6 where s:
    "replies B CMD_GO_IDLE_STATE 0 0x01 [] c0 c1" "replies B CMD_SEND_IF_COND 0x1AA 0x01 cond c1 c2"
    "dialog B (concat (replicate n [(CMD_APP, 0, 0x01, []), (CMD_SD_SEND_OP_COND, 0x40000000, 0x01, [])])) c2 c3"
    "replies B CMD_APP 0 0x01 [] c3 c4" "replies B CMD_SD_SEND_OP_COND 0x40000000 0x00 [] c4 c5"
    "replies B CMD_READ_OCR 0 0x00 ocr c5 c6" "replies B CMD_SET_BLOCKLEN 512 0x00 [] c6 c8"
    unfolding sd2_dialog_def dialog_append by auto
  let ?t2 = "put_bytes (tmp_buf d) 0 cond" let ?t6 = "put_bytes ?t2 0 ocr"
  have t: "length ?t2 = 18" "length ?t6 = 18" using u len by simp_all
  have ct: "card_type B (d\<lparr>mmc_card := c1\<rparr>) = (Some DRIVE_TYPE_SDV2, d\<lparr>mmc_card := c2, tmp_buf := ?t2\<rparr>)"
    using card_type_sd2[of B cond "d\<lparr>mmc_card := c1\<rparr>" c2] s(2) u len by simp
  have wr: "wait_ready B DRIVE_TYPE_SDV2 TIMEOUT c2 = (True, c5)" by (rule wait_ready_polls[OF s(3,4,5) u(1)])
  have hc: "high_capacity B DRIVE_TYPE_SDV2 (d\<lparr>tmp_buf := ?t2, mmc_card := c5\<rparr>) = (Some T, d\<lparr>mmc_card := c6, tmp_buf := ?t6\<rparr>)"
    using high_capacity_sd2[of B ocr "d\<lparr>tmp_buf := ?t2, mmc_card := c5\<rparr>" c6] s(6) u t by (simp add: T_def)
  have bl: "send_command B CMD_SET_BLOCKLEN 512 c6 = (0x00, c8)" by (rule step_command[OF s(7)])
  obtain t' where gi: "get_info B (di\<lparr>di_type := T\<rparr>) (d\<lparr>tmp_buf := ?t6, mmc_card := c8\<rparr>) = (True,
      di\<lparr>di_type := T, di_model := put_bytes (di_model di) 0 (cid_model cid), di_serno := put_bytes (di_serno di) 0 (cid_serno cid),
        di_blk_count := csd_blk_count csd\<rparr>, d\<lparr>mmc_card := c', tmp_buf := t'\<rparr>)"
    using get_info_sent[of B cid "d\<lparr>tmp_buf := ?t6, mmc_card := c8\<rparr>" c9 csd c' "di\<lparr>di_type := T\<rparr>"] r u t by auto
  have "init_card B di (d\<lparr>mmc_card := c0\<rparr>) = (True,
      di\<lparr>di_type := T, di_model := put_bytes (di_model di) 0 (cid_model cid), di_serno := put_bytes (di_serno di) 0 (cid_serno cid),
        di_blk_count := csd_blk_count csd\<rparr>, d\<lparr>mmc_card := c', tmp_buf := t'\<rparr>)"
    using gi by (simp add: init_card_def Let_def reset_ok[OF s(1)] ct wr hc bl)
  then have "mmc_init B di d = (d\<lparr>mmc_card := mmc_deselect B c', tmp_buf := t'\<rparr>, di\<lparr>di_type := T,
      di_model := put_bytes (di_model di) 0 (cid_model cid), di_serno := put_bytes (di_serno di) 0 (cid_serno cid),
      di_blk_count := csd_blk_count csd\<rparr>, TFS_ERR_OK)"
    by (simp add: mmc_init_def flip: c0_def)
  then show ?thesis unfolding T_def by blast
qed

text \<open>An empty slot: the line stays high.\<close>

lemma no_response: "(\<And>c. fst (spi_transfer_byte B 0xFF c) = 0xFF) \<Longrightarrow> fst (response B n 0xFF c) = 0xFF"
proof (induction n arbitrary: c)
  case (Suc n)
  from Suc.prems[of c] obtain c1 where "spi_rec_byte B c = (0xFF, c1)" by (cases "spi_transfer_byte B 0xFF c") (simp add: spi_rec_byte_def)
  with Suc show ?case by simp
qed simp

lemma no_reset:
  assumes "\<And>c. fst (spi_transfer_byte B 0xFF c) = 0xFF"
  shows "fst (reset_card B n c) = False"
proof (induction n arbitrary: c)
  case 0
  have "fst (send_command B CMD_GO_IDLE_STATE 0 c) = 0xFF" unfolding send_command_frame by (rule no_response[OF assms])
  then show ?case by (auto split: prod.split)
next
  case (Suc n)
  have "fst (send_command B CMD_GO_IDLE_STATE 0 c) = 0xFF" unfolding send_command_frame by (rule no_response[OF assms])
  with Suc show ?case by (auto split: prod.split)
qed

theorem init_empty:
  assumes "\<And>c. fst (spi_transfer_byte B 0xFF c) = 0xFF"
  shows "snd (snd (mmc_init B di d)) = TFS_ERR_NO_DEV"
proof -
  have "\<not> fst (reset_card B 0x1FF c)" for c using no_reset[OF assms] by simp
  then have "\<not> fst (init_card B di e)" for e
    by (simp add: init_card_def Let_def split: prod.split) (metis fst_conv)
  then show ?thesis by (simp add: mmc_init_def Let_def split: prod.split) (metis fst_conv)
qed

end
