(* ===== verification/Mmc_Props.thy ===== *)
theory Mmc_Props
  imports Demo_Card Card_Init Demo_File
begin

text \<open>
  Properties of the card driver: the size of the card, the contract of a block device, the file system on a
  card, and what the driver does not notice.
\<close>

section \<open>The size of the card\<close>

text \<open>The CSD register as the specification of SD cards has it: a number of 128 bits, the first byte is the most
  significant one, and \<open>csd_field p hi lo\<close> are the bits \<open>hi\<close> to \<open>lo\<close> of it.\<close>

definition big_endian :: "byte list \<Rightarrow> nat" where
  "big_endian bs = foldl (\<lambda>n b. n * 256 + unat b) 0 bs"

definition csd_field :: "byte list \<Rightarrow> nat \<Rightarrow> nat \<Rightarrow> nat" where
  "csd_field p hi lo = big_endian (take 16 p) div 2 ^ lo mod 2 ^ (hi + 1 - lo)"

lemma big_endian_snoc [simp]: "big_endian [] = 0" "big_endian (bs @ [b]) = big_endian bs * 256 + unat b"
  by (simp_all add: big_endian_def)

lemma big_endian_append: "big_endian (xs @ ys) = big_endian xs * 256 ^ length ys + big_endian ys"
  by (induction ys rule: rev_induct) (simp_all add: algebra_simps flip: append_assoc)

lemma big_endian_less: "big_endian ys < 256 ^ length ys"
proof (induction ys rule: rev_induct)
  case (snoc y ys)
  have "unat y < 256" using unsigned_less[of y, where 'a = nat] by simp
  with snoc show ?case by simp
qed simp

text \<open>Whole bytes at the end of the number are dropped.\<close>

lemma csd_field_bytes:
  assumes "take 16 p = xs @ ys" and "lo = 8 * length ys + k"
  shows "csd_field p hi lo = big_endian xs div 2 ^ k mod 2 ^ (hi + 1 - lo)"
proof -
  have "(2 :: nat) ^ lo = 256 ^ length ys * 2 ^ k"
    by (simp add: assms(2) power_add power_mult)
  moreover have "(big_endian xs * 256 ^ length ys + big_endian ys) div 256 ^ length ys = big_endian xs"
    using big_endian_less[of ys] by simp
  ultimately show ?thesis
    by (simp add: csd_field_def assms(1) big_endian_append div_mult2_eq)
qed

lemma or_disjoint: "b < 2 ^ n \<Longrightarrow> 2 ^ n dvd a \<Longrightarrow> a OR b = a + b" for a b :: nat
proof -
  assume "b < 2 ^ n" and "2 ^ n dvd a"
  then have b: "take_bit n b = b" and "take_bit n a = 0" by (simp_all add: take_bit_nat_eq_self_iff take_bit_eq_0_iff)
  then have "a AND take_bit n b = 0" by (metis and_zero_eq take_bit_and take_bit_of_0 and.left_commute and.commute take_bit_eq_mask)
  then have "a + b = a OR b" unfolding b by (rule disjunctive_add_eq_or)
  then show ?thesis by simp
qed

lemma unat_mask: "unat (b AND 0x3F) = unat b mod 64" "unat (b AND 0x03) = unat b mod 4" "unat (b AND 0x0F) = unat b mod 16"
  for b :: byte
proof -
  have "b AND 0x3F = take_bit 6 b" "b AND 0x03 = take_bit 2 b" "b AND 0x0F = take_bit 4 b"
    by (simp_all only: take_bit_eq_mask) (simp_all add: mask_eq_exp_minus_1 del: unsigned_and_eq)
  moreover have "unat (take_bit n b) = unat b mod 2 ^ n" for n
    unfolding unsigned_take_bit_eq by (rule take_bit_eq_mod)
  ultimately show "unat (b AND 0x3F) = unat b mod 64" "unat (b AND 0x03) = unat b mod 4" "unat (b AND 0x0F) = unat b mod 16"
    by (simp_all del: unsigned_and_eq)
qed

lemma unat_byte_less: "unat b < 256" for b :: byte
  using unsigned_less[of b, where 'a = nat] by simp

lemma unat_ucast_byte: "unat (ucast b :: u32) = unat b" for b :: byte
  using unat_byte_less[of b] by (simp add: unsigned_ucast_eq take_bit_nat_eq_self)

lemma unat_push_ucast: "unat b * 2 ^ n < 2 ^ 32 \<Longrightarrow> unat (push_bit n (ucast b) :: u32) = unat b * 2 ^ n" for b :: byte
  unfolding unsigned_push_bit_eq unat_ucast_byte by (simp add: take_bit_nat_eq_self push_bit_eq_mult)

lemma unat_drop: "unat (drop_bit n b) = unat b div 2 ^ n" for b :: "'w::len word"
  using unsigned_less[of b, where 'a = nat] by (simp add: unsigned_drop_bit_eq take_bit_nat_eq_self flip: drop_bit_eq_div)

lemma mod_rest: "n = m * q + r \<Longrightarrow> r < m \<Longrightarrow> n mod m = r" for n :: nat
  by simp

text \<open>Only the low bits of the first byte of a field count.\<close>

lemma mod_high:
  fixes n :: nat
  assumes "r < c" and "0 < k"
  shows "(Y * (k * c) + n * c + r) mod (k * c) = n mod k * c + r"
proof (rule mod_rest)
  show "Y * (k * c) + n * c + r = k * c * (Y + n div k) + (n mod k * c + r)"
    by (simp add: algebra_simps flip: add_mult_distrib2)
  have "n mod k * c + r < n mod k * c + c" using assms(1) by simp
  also have "\<dots> \<le> k * c" using assms(2) mod_less_divisor[of k n] by (metis Suc_leI add.commute mult_Suc mult_le_mono1)
  finally show "n mod k * c + r < k * c" .
qed

text \<open>The three size fields, from the bytes the driver takes them from.\<close>

lemma csd_fields:
  assumes "16 \<le> length p"
  shows "csd_field p 127 126 = unat (drop_bit 6 (p ! 0))"
    "csd_field p 69 48 = (unat (p ! 7) mod 64) * 65536 + unat (p ! 8) * 256 + unat (p ! 9)"
    "csd_field p 73 62 = (unat (p ! 6) mod 4) * 1024 + unat (p ! 7) * 4 + unat (p ! 8) div 64"
    "csd_field p 49 47 = (unat (p ! 9) mod 4) * 2 + unat (p ! 10) div 128"
    "csd_field p 83 80 = unat (p ! 5) mod 16"
proof -
  have t: "take 16 p = take k p @ take (16 - k) (drop k p)" if "k \<le> 16" for k
    using that by (metis le_add_diff_inverse take_add)
  have s: "take (Suc k) p = take k p @ [p ! k]" if "k < 16" for k
    using that assms by (simp add: take_Suc_conv_app_nth)
  have be: "big_endian (take (Suc k) p) = big_endian (take k p) * 256 + unat (p ! k)" if "k < 16" for k
    using s[OF that] by simp
  note b = unat_byte_less[of "p ! 5"] unat_byte_less[of "p ! 6"] unat_byte_less[of "p ! 7"] unat_byte_less[of "p ! 8"]
    unat_byte_less[of "p ! 9"] unat_byte_less[of "p ! 10"] unat_byte_less[of "p ! 0"]
  have be1: "big_endian (take 1 p) = unat (p ! 0)" using be[of 0] by simp
  have be6: "big_endian (take 6 p) = big_endian (take 5 p) * 256 + unat (p ! 5)" using be[of 5] by simp
  have be9: "big_endian (take 9 p) = big_endian (take 6 p) * 16777216 + unat (p ! 6) * 65536 + unat (p ! 7) * 256 + unat (p ! 8)"
    using be[of 6] be[of 7] be[of 8] by simp
  have be10: "big_endian (take 10 p) = big_endian (take 7 p) * 16777216 + unat (p ! 7) * 65536 + unat (p ! 8) * 256 + unat (p ! 9)"
    using be[of 7] be[of 8] be[of 9] by simp
  have be11: "big_endian (take 11 p) = big_endian (take 9 p) * 65536 + unat (p ! 9) * 256 + unat (p ! 10)"
    using be[of 9] be[of 10] by simp
  show "csd_field p 127 126 = unat (drop_bit 6 (p ! 0))"
    using csd_field_bytes[OF t[of 1], of 126 6 127] b assms by (simp add: unat_drop be1[unfolded One_nat_def])
  show "csd_field p 83 80 = unat (p ! 5) mod 16"
  proof -
    have "csd_field p 83 80 = big_endian (take 6 p) mod 16" using csd_field_bytes[OF t[of 6], of 80 0 83] assms by simp
    also have "\<dots> = unat (p ! 5) mod 16"
      by (rule mod_rest[of _ _ "big_endian (take 5 p) * 16 + unat (p ! 5) div 16"]) (simp_all add: be6 algebra_simps)
    finally show ?thesis .
  qed
  show "csd_field p 69 48 = (unat (p ! 7) mod 64) * 65536 + unat (p ! 8) * 256 + unat (p ! 9)"
  proof -
    have "csd_field p 69 48 = big_endian (take 10 p) mod 4194304" using csd_field_bytes[OF t[of 10], of 48 0 69] assms by simp
    also have "\<dots> = (unat (p ! 7) mod 64) * 65536 + unat (p ! 8) * 256 + unat (p ! 9)"
      using b mod_high[of "unat (p ! 8) * 256 + unat (p ! 9)" 65536 64 "big_endian (take 7 p) * 4" "unat (p ! 7)"] by (simp add: be10 ac_simps)
    finally show ?thesis .
  qed
  show "csd_field p 73 62 = (unat (p ! 6) mod 4) * 1024 + unat (p ! 7) * 4 + unat (p ! 8) div 64"
  proof -
    have "csd_field p 73 62 = big_endian (take 9 p) div 64 mod 4096" using csd_field_bytes[OF t[of 9], of 62 6 73] assms by simp
    also have "big_endian (take 9 p) div 64 =
        big_endian (take 6 p) * 262144 + unat (p ! 6) * 1024 + unat (p ! 7) * 4 + unat (p ! 8) div 64"
      by (simp add: be9 algebra_simps)
    also have "\<dots> mod 4096 = (unat (p ! 6) mod 4) * 1024 + unat (p ! 7) * 4 + unat (p ! 8) div 64"
      using b mod_high[of "unat (p ! 7) * 4 + unat (p ! 8) div 64" 1024 4 "big_endian (take 6 p) * 64" "unat (p ! 6)"] by (simp add: ac_simps)
    finally show ?thesis .
  qed
  show "csd_field p 49 47 = (unat (p ! 9) mod 4) * 2 + unat (p ! 10) div 128"
  proof -
    have "csd_field p 49 47 = big_endian (take 11 p) div 128 mod 8" using csd_field_bytes[OF t[of 11], of 47 7 49] assms by simp
    also have "big_endian (take 11 p) div 128 = big_endian (take 9 p) * 512 + unat (p ! 9) * 2 + unat (p ! 10) div 128"
      by (simp add: be11 algebra_simps)
    also have "\<dots> mod 8 = (unat (p ! 9) mod 4) * 2 + unat (p ! 10) div 128"
      using b mod_high[of "unat (p ! 10) div 128" 2 4 "big_endian (take 9 p) * 64" "unat (p ! 9)"] by (simp add: ac_simps)
    finally show ?thesis .
  qed
qed


text \<open>What the driver puts together from the bytes.\<close>

lemma csd_words:
  assumes "16 \<le> length p"
  shows "unat (push_bit 16 (ucast (p ! 7 AND 0x3F)) OR push_bit 8 (ucast (p ! 8)) OR ucast (p ! 9) :: u32) = csd_field p 69 48"
    "unat (push_bit 10 (ucast (p ! 6 AND 0x03)) OR push_bit 2 (ucast (p ! 7)) OR ucast (drop_bit 6 (p ! 8)) :: u32) = csd_field p 73 62"
    "unat (push_bit 1 (p ! 9 AND 0x03) OR drop_bit 7 (p ! 10)) = csd_field p 49 47"
proof -
  note f = csd_fields[OF assms]
  note b = unat_byte_less[of "p ! 5"] unat_byte_less[of "p ! 6"] unat_byte_less[of "p ! 7"] unat_byte_less[of "p ! 8"]
    unat_byte_less[of "p ! 9"] unat_byte_less[of "p ! 10"]
  have "unat (push_bit 16 (ucast (p ! 7 AND 0x3F)) OR push_bit 8 (ucast (p ! 8)) OR ucast (p ! 9) :: u32) =
      (unat (p ! 7) mod 64 * 2 ^ 16 OR unat (p ! 8) * 2 ^ 8) OR unat (p ! 9)"
    unfolding unsigned_or_eq using b
    by (subst (1 2) unat_push_ucast) (simp_all only: unat_ucast_byte unat_mask, simp_all add: or.assoc)
  also have "\<dots> = csd_field p 69 48"
    using b by (subst or_disjoint[of _ 16], simp, simp) (subst or_disjoint[of _ 8], simp_all add: f(2))
  finally show "unat (push_bit 16 (ucast (p ! 7 AND 0x3F)) OR push_bit 8 (ucast (p ! 8)) OR ucast (p ! 9) :: u32) = csd_field p 69 48" .
  have "unat (push_bit 10 (ucast (p ! 6 AND 0x03)) OR push_bit 2 (ucast (p ! 7)) OR ucast (drop_bit 6 (p ! 8)) :: u32) =
      (unat (p ! 6) mod 4 * 2 ^ 10 OR unat (p ! 7) * 2 ^ 2) OR unat (p ! 8) div 64"
    unfolding unsigned_or_eq using b
    by (subst (1 2) unat_push_ucast) (simp_all only: unat_ucast_byte unat_mask unat_drop, simp_all add: or.assoc)
  also have "\<dots> = csd_field p 73 62"
    using b by (subst or_disjoint[of _ 10], simp, simp) (subst or_disjoint[of _ 2], simp_all add: f(3) less_mult_imp_div_less)
  finally show "unat (push_bit 10 (ucast (p ! 6 AND 0x03)) OR push_bit 2 (ucast (p ! 7)) OR ucast (drop_bit 6 (p ! 8)) :: u32) =
      csd_field p 73 62" .
  have m: "unat (p ! 9) mod 4 < 4" by simp
  then have "unat (push_bit 1 (p ! 9 AND 0x03)) = unat (p ! 9) mod 4 * 2"
    unfolding unsigned_push_bit_eq unat_mask by (simp add: take_bit_nat_eq_self push_bit_eq_mult)
  then have "unat (push_bit 1 (p ! 9 AND 0x03) OR drop_bit 7 (p ! 10)) = unat (p ! 9) mod 4 * 2 OR unat (p ! 10) div 2 ^ 7"
    unfolding unsigned_or_eq unat_drop by (simp only:)
  also have "\<dots> = csd_field p 49 47"
    using b by (subst or_disjoint[of _ 1]) (simp_all add: f(4) less_mult_imp_div_less)
  finally show "unat (push_bit 1 (p ! 9 AND 0x03) OR drop_bit 7 (p ! 10)) = csd_field p 49 47" .
qed

text \<open>C38: the number of blocks that the driver computes from the CSD register is the capacity that the
  specification of SD cards gives, in blocks of 512 bytes, as far as the capacity fits 32 bits: in version 2
  of the register \<open>(C_SIZE + 1) * 512 KiB\<close>, otherwise \<open>(C_SIZE + 1) * 2 ^ (C_SIZE_MULT + 2) * 2 ^ READ_BL_LEN\<close>
  bytes.  The latter wraps: a card of 4 GiB has no block.\<close>

theorem csd_capacity:
  assumes "16 \<le> length p"
  shows "unat (csd_blk_count p) =
    (if csd_field p 127 126 = 1 then ((csd_field p 69 48 + 1) * 1024) mod 2 ^ 32
     else ((csd_field p 73 62 + 1) * 2 ^ (csd_field p 49 47 + 2) * 2 ^ csd_field p 83 80) mod 2 ^ 32 div 512)"
proof -
  note w = csd_words[OF assms] and f = csd_fields[OF assms]
  have one: "drop_bit 6 (p ! 0) = 1 \<longleftrightarrow> csd_field p 127 126 = 1" by (simp add: f(1) word_unat_eq_iff)
  have n: "(x + 1) * 2 ^ k = of_nat ((unat x + 1) * 2 ^ k)" for x :: u32 and k by (simp add: algebra_simps)
  have pb: "push_bit k (x + 1) = of_nat ((unat x + 1) * 2 ^ k)" for x :: u32 and k unfolding push_bit_eq_mult n ..
  show ?thesis
  proof (cases "csd_field p 127 126 = 1")
    case True
    let ?c = "push_bit 16 (ucast (p ! 7 AND 0x3F)) OR push_bit 8 (ucast (p ! 8)) OR ucast (p ! 9) :: u32"
    have "csd_blk_count p = (?c + 1) * 2 ^ 10" using True one by (simp add: csd_blk_count_def Let_def)
    then have "csd_blk_count p = of_nat ((csd_field p 69 48 + 1) * 2 ^ 10)" unfolding n w(1) .
    then have "unat (csd_blk_count p) = (csd_field p 69 48 + 1) * 2 ^ 10 mod 2 ^ 32" by (simp only: unat_of_nat) simp
    with True show ?thesis by simp
  next
    case False
    let ?c = "push_bit 10 (ucast (p ! 6 AND 0x03)) OR push_bit 2 (ucast (p ! 7)) OR ucast (drop_bit 6 (p ! 8)) :: u32"
    let ?m = "push_bit 1 (p ! 9 AND 0x03) OR drop_bit 7 (p ! 10)"
    have "csd_blk_count p = drop_bit 9 (push_bit (unat ?m + unat (p ! 5 AND 0x0F) + 2) (?c + 1))"
      using False one by (simp only: csd_blk_count_def Let_def if_False)
    also have "push_bit (unat ?m + unat (p ! 5 AND 0x0F) + 2) (?c + 1) =
        of_nat ((csd_field p 73 62 + 1) * 2 ^ (csd_field p 49 47 + csd_field p 83 80 + 2))"
      unfolding pb w(2,3) unat_mask f(5) ..
    finally have "unat (csd_blk_count p) =
        (csd_field p 73 62 + 1) * 2 ^ (csd_field p 49 47 + csd_field p 83 80 + 2) mod 2 ^ 32 div 2 ^ 9"
      by (simp only: unat_drop unat_of_nat) simp
    moreover have "(csd_field p 73 62 + 1) * 2 ^ (csd_field p 49 47 + csd_field p 83 80 + 2) =
        (csd_field p 73 62 + 1) * 2 ^ (csd_field p 49 47 + 2) * 2 ^ csd_field p 83 80"
      by (simp add: power_add algebra_simps)
    ultimately show ?thesis using False by simp
  qed
qed

definition demo_csd :: "byte list" where
  "demo_csd = [0x00, 0x5E, 0x00, 0x32, 0x5F, 0x5B, 0x83, 0xFF, 0xF6, 0xDB, 0xFF, 0x80, 0x16, 0x80, 0x00, 0x00, 0x12, 0x34]"

lemma csd_capacity_witness:
  "(csd_field demo_csd 73 62 + 1) * 2 ^ (csd_field demo_csd 49 47 + 2) * 2 ^ csd_field demo_csd 83 80 = 2 ^ 32 \<and>
   unat (csd_blk_count demo_csd) = 0"
proof -
  have "16 \<le> length demo_csd" "csd_field demo_csd 127 126 = 0" "csd_field demo_csd 73 62 = 4095"
    "csd_field demo_csd 49 47 = 7" "csd_field demo_csd 83 80 = 11"
    by (simp_all add: demo_csd_def csd_field_def big_endian_def)
  with csd_capacity[of demo_csd] show ?thesis by simp
qed

section \<open>A card as a drive\<close>

text \<open>C39: with a card that keeps its promises the driver is a working block device: a read after selecting
  the card gives the contents of the block and changes nothing, a write changes just that block, no call
  fails, and after a deselection and a selection the card is as it was.\<close>

theorem card_is_block_device:
  fixes B :: "'c spi"
  assumes "sd_card B contents ok"
  shows "block_device (mmc_platform B cmp) (\<lambda>d. contents (mmc_card d)) (\<lambda>di d. ok di (mmc_card d))"
  by (rule sd_card_device[OF assms])

lemma demo_card_device:
  "block_device (mmc_platform demo_spi strncmp_filename_cmp) (\<lambda>d. sector (mmc_card d)) (\<lambda>di d. demo_ok di (mmc_card d))"
  by (rule sd_card_device[OF demo_card])

interpretation dc: named_device "mmc_platform demo_spi strncmp_filename_cmp" "\<lambda>d. sector (mmc_card d)" "\<lambda>di d. demo_ok di (mmc_card d)"
  by (intro named_device.intro demo_card_device named_device_axioms.intro)
    (simp add: mmc_platform_def strncmp_filename_cmp_def strncmp_eq_strncpy)

lemma card_is_block_device_witness:
  "snd (mmc_read_block demo_spi \<lparr>di_model = [], di_serno = [], di_type = DRIVE_TYPE_SDHC, di_blk_count = 8\<rparr> 3 (replicate 512 0)
     (fst (mmc_write_block demo_spi \<lparr>di_model = [], di_serno = [], di_type = DRIVE_TYPE_SDHC, di_blk_count = 8\<rparr> 3 (replicate 512 7)
       \<lparr>mmc_card = \<lparr>selected = True, phase = Say [] None, sectors = \<lambda>n. [], worn = False\<rparr>, tmp_buf = replicate 18 0\<rparr>))) = (replicate 512 7, None)"
proof -
  let ?di = "\<lparr>di_model = [], di_serno = [], di_type = DRIVE_TYPE_SDHC, di_blk_count = 8\<rparr>"
  let ?d = "\<lparr>mmc_card = \<lparr>selected = True, phase = Say [] None, sectors = \<lambda>n. [], worn = False\<rparr>, tmp_buf = replicate 18 0\<rparr>"
  let ?w = "fst (mmc_write_block demo_spi ?di 3 (replicate 512 7) ?d)"
  note bd = card_is_block_device[OF demo_card, of strncmp_filename_cmp]
  have ok: "demo_ok ?di (mmc_card ?d)" by (simp add: demo_ok_def)
  have w: "demo_ok ?di (mmc_card ?w)" "sector (mmc_card ?w) = (sector (mmc_card ?d))(3 := replicate 512 7)"
    using block_device.pf_write_dev_ok[OF bd ok, of 3 "replicate 512 7"] block_device.pf_write_dev[OF bd ok, of 3 "replicate 512 7"]
    by (simp_all add: mmc_platform_def)
  show ?thesis
    using block_device.pf_read_ok[OF bd w(1), of 3 "replicate 512 0"] by (simp add: mmc_platform_def w(2))
qed

section \<open>The file system on a card\<close>

text \<open>C40: the file system works on such a card: a file of at least one byte written under a new name, with room for it, is read back.
  The names are compared as on the AVR.\<close>

theorem card_write_read_back:
  fixes B :: "'c spi"
  assumes "sd_card B contents ok"
  defines "P \<equiv> mmc_platform B strncmp_filename_cmp"
  assumes "block_device.mounted P (\<lambda>d. contents (mmc_card d)) (\<lambda>di d. ok di (mmc_card d)) s"
    and "block_device.dir_ok (\<lambda>d. contents (mmc_card d)) s ds" and "c_at name 0 \<noteq> 0" and "length data = unat len" and "data \<noteq> []"
    and "dir_find (contents (mmc_card (dev s))) (strncmp_filename_cmp name) ds = None"
    and "blocks_for (length data) < card (free_set (contents (mmc_card (dev s))) (blk_count s))"
  shows "\<exists>s1 s2. tfs_write_file P name data len ov s = Some s1 \<and> last_error s1 = TFS_ERR_OK \<and>
    tfs_read_file P name max_len s1 = Some ((min len max_len, take (unat max_len) data), s2) \<and> last_error s2 = TFS_ERR_OK"
proof -
  have bd: "block_device P (\<lambda>d. contents (mmc_card d)) (\<lambda>di d. ok di (mmc_card d))" unfolding P_def by (rule sd_card_device[OF assms(1)])
  have cmp: "pf_filename_cmp P = strncmp_filename_cmp" by (simp add: P_def mmc_platform_def)
  have nd: "named_device P (\<lambda>d. contents (mmc_card d)) (\<lambda>di d. ok di (mmc_card d))"
    using bd by (intro named_device.intro named_device_axioms.intro) (simp_all add: cmp strncmp_filename_cmp_def strncmp_eq_strncpy)
  show ?thesis
    using named_device.write_read_new[OF nd assms(3-7) _ assms(9)] assms(8) by (simp add: cmp)
qed

text \<open>The disk of \<open>Demo\<close> on the card.\<close>

definition mmc_fs :: "'c \<Rightarrow> 'c mmc_dev fs" where
  "mmc_fs c = \<lparr>dev = \<lparr>mmc_card = c, tmp_buf = replicate 18 0\<rparr>,
     drive_info = \<lparr>di_model = [], di_serno = [], di_type = DRIVE_TYPE_SDHC, di_blk_count = 8\<rparr>,
     last_error = TFS_ERR_OK, last_bitmap_blk = 0, last_bitmap_len = 8, loaded_bitmap_blk = 0,
     bitmap_blk = 3 # replicate 511 0xff, current_dir_blk = 1, loaded_dir_blk = 0,
     blk_buf = replicate 512 0, handles = [], after_bitmap = 0, after_handles = zero_handle, callbacks = []\<rparr>"

definition card_fs :: "demo_card mmc_dev fs" where
  "card_fs = mmc_fs \<lparr>selected = False, phase = Say [] None, sectors = linux_contents demo_dev, worn = False\<rparr>"

lemma card_sectors: "sector (mmc_card (dev card_fs)) = linux_contents demo_dev"
  by (simp add: card_fs_def mmc_fs_def sector_def fun_eq_iff)

lemma card_mounted: "dc.mounted card_fs" "dc.dir_ok card_fs [1]"
proof -
  have "bitmap_ok (linux_contents demo_dev) demo_fs" using ld.readyD(2)[OF demo_ready(1)] by simp
  then have "bitmap_ok (sector (mmc_card (dev card_fs))) card_fs"
    unfolding card_sectors by (simp add: bitmap_ok_def card_fs_def mmc_fs_def)
  moreover have "dc.io_ok (drive_select (mmc_platform demo_spi strncmp_filename_cmp) card_fs)"
    unfolding dc.io_ok_def by (simp add: drive_select_def mmc_platform_def card_fs_def mmc_fs_def demo_ok_def mmc_select_bytes demo_select demo_byte_def)
  ultimately show "dc.mounted card_fs" by (simp add: dc.mounted_def card_fs_def mmc_fs_def)
  show "dc.dir_ok card_fs [1]"
    using demo_dir_ok unfolding dc.dir_ok_def ld.dir_ok_def card_sectors by (simp add: card_fs_def mmc_fs_def)
qed

lemma card_write_read_back_witness:
  "\<exists>s1 s2. tfs_write_file (mmc_platform demo_spi strncmp_filename_cmp) demo_name [1, 2, 3] 3 False card_fs = Some s1 \<and>
    tfs_read_file (mmc_platform demo_spi strncmp_filename_cmp) demo_name 2 s1 = Some ((2, [1, 2]), s2)"
proof -
  have f: "dir_find (sector (mmc_card (dev card_fs))) (strncmp_filename_cmp demo_name) [1] = None" by (simp add: card_sectors)
  have "blk_count card_fs = 8" by (simp add: card_fs_def mmc_fs_def)
  then have r: "blocks_for (length [1, 2, 3 :: byte]) < card (free_set (sector (mmc_card (dev card_fs))) (blk_count card_fs))"
    by (simp add: card_sectors demo_free_card)
  show ?thesis
    using card_write_read_back[OF demo_card card_mounted demo_name_nonempty _ _ f r, of 3 False 2] by auto
qed

section \<open>What the driver does not notice\<close>

text \<open>C19: after the data of a write the card sends a response that says whether it took them; the driver
  skips it.  Whatever the bytes until the card is idle again are, an error response among them,
  \<open>drive_write_block\<close> reports no error.\<close>

theorem write_response_ignored:
  assumes "takes_write B (card_address di n) data busy (mmc_card d) c"
  shows "mmc_write_block B di n data d = (d\<lparr>mmc_card := c\<rparr>, None)"
  by (rule mmc_write_taken[OF assms])

lemma write_response_ignored_witness:
  "let d = \<lparr>mmc_card = \<lparr>selected = True, phase = Say [] None, sectors = \<lambda>n. [], worn = True\<rparr>, tmp_buf = replicate 18 0\<rparr>
   in mmc_write_block demo_spi \<lparr>di_model = [], di_serno = [], di_type = DRIVE_TYPE_SDHC, di_blk_count = 8\<rparr> 3 (replicate 512 7) d = (d, None)"
  using write_response_ignored[OF demo_takes_write] by (simp add: Let_def)


section \<open>Bringing up a card\<close>

text \<open>C37: an SD card of version 2 that answers as the specification says, and is busy for at most 32767 polls, comes
  up: \<open>drive_init\<close> finds its type from the OCR register, takes model and serial number from the CID
  register and the size from the CSD register, reports success and deselects the card.\<close>

theorem card_comes_up:
  assumes "sd2_powers_up B n cond ocr cid csd (mmc_card d) c" and "length (tmp_buf d) = 18"
  shows "\<exists>t. mmc_init B di d = (d\<lparr>mmc_card := mmc_deselect B c, tmp_buf := t\<rparr>,
    di\<lparr>di_type := (if ocr ! 0 AND 0x40 \<noteq> 0 then DRIVE_TYPE_SDHC else DRIVE_TYPE_SDV2),
       di_model := put_bytes (di_model di) 0 (cid_model cid), di_serno := put_bytes (di_serno di) 0 (cid_serno cid),
       di_blk_count := csd_blk_count csd\<rparr>, TFS_ERR_OK)"
  by (rule init_sd2[OF assms])

text \<open>A card that sends what is on a tape, whatever it hears.\<close>

definition tape_spi :: "byte list spi" where
  "tape_spi = \<lparr>spi_transfer_byte = (\<lambda>b tape. case tape of [] \<Rightarrow> (0xFF, []) | x # xs \<Rightarrow> (x, xs)),
     spi_select_drive = id, spi_deselect_drive = id\<rparr>"

lemma tape_exchange: "length bs = length xs \<Longrightarrow> exchange tape_spi bs (xs @ ys) = (xs, ys)"
  by (induction bs xs rule: list_induct2) (simp_all add: tape_spi_def)

lemma tape_replies:
  assumes "r \<noteq> 0xFF" shows "replies tape_spi cmd arg r bs (replicate 7 0xFF @ [r] @ bs @ rest) rest"
proof -
  have "after_bytes tape_spi (frame cmd arg) (replicate 7 0xFF @ ([r] @ bs @ rest)) = [r] @ bs @ rest"
    by (subst tape_exchange) (simp_all add: frame_def)
  moreover have "listen tape_spi (Suc 0 + length bs) ([r] @ bs @ rest) = ([r] @ bs, rest)"
    using tape_exchange[of "replicate (Suc 0 + length bs) 0xFF" "[r] @ bs" rest] by simp
  ultimately show ?thesis using assms unfolding replies_def by (intro conjI exI[of _ 0]) (simp_all del: exchange.simps replicate.simps)
qed

lemma tape_sends: "sends tape_spi cmd arg data (replicate 7 0xFF @ [0, 0xFE] @ data @ [0x12, 0x34] @ rest) rest"
proof -
  have "after_bytes tape_spi (frame cmd arg) (replicate 7 0xFF @ ([0, 0xFE] @ data @ [0x12, 0x34] @ rest)) = [0, 0xFE] @ data @ [0x12, 0x34] @ rest"
    by (subst tape_exchange) (simp_all add: frame_def)
  moreover have "listen tape_spi ((Suc 0 + Suc 0) + (length data + 2)) ([0, 0xFE] @ data @ [0x12, 0x34] @ rest) = (([0] @ [0xFE]) @ (data @ [0x12, 0x34]), rest)"
    using tape_exchange[of "replicate ((Suc 0 + Suc 0) + (length data + 2)) 0xFF" "([0] @ [0xFE]) @ (data @ [0x12, 0x34])" rest] by simp
  ultimately show ?thesis unfolding sends_def
    by (intro exI[of _ 0] exI[of _ "[]"] exI[of _ "[0x12, 0x34]"]) (simp del: exchange.simps replicate.simps)
qed

lemma tape_dialog:
  "\<forall>(cmd, arg, r, bs) \<in> set steps. r \<noteq> 0xFF \<Longrightarrow>
   dialog tape_spi steps (concat (map (\<lambda>(cmd, arg, r, bs). replicate 7 0xFF @ [r] @ bs) steps) @ rest) rest"
proof (induction steps)
  case (Cons x steps)
  obtain cmd arg r bs where x: "x = (cmd, arg, r, bs)" by (metis prod_cases4)
  from Cons.prems x have "r \<noteq> 0xFF" by simp
  from tape_replies[OF this, of cmd arg bs "concat (map (\<lambda>(cmd, arg, r, bs). replicate 7 0xFF @ [r] @ bs) steps) @ rest"] Cons
  show ?case by (auto simp: x)
qed simp

definition demo_tape :: "byte list" where
  "demo_tape = replicate 11 0xFF @ concat (map (\<lambda>(cmd, arg, r, bs). replicate 7 0xFF @ [r] @ bs) (sd2_dialog 3 [0, 0, 1, 0xAA] [0x40, 0, 0, 0])) @
     replicate 7 0xFF @ [0, 0xFE] @ replicate 16 0x20 @ [0x12, 0x34] @
     replicate 7 0xFF @ [0, 0xFE] @ take 16 (0x40 # replicate 15 0) @ [0x12, 0x34]"

lemma demo_tape_powers_up:
  "sd2_powers_up tape_spi 3 [0, 0, 1, 0xAA] [0x40, 0, 0, 0] (replicate 16 0x20) (0x40 # replicate 15 0) demo_tape []"
proof -
  let ?r1 = "replicate 7 0xFF @ [0, 0xFE] @ replicate 16 0x20 @ [0x12, 0x34] @ replicate 7 0xFF @ [0, 0xFE] @ (0x40 # replicate 15 0) @ [0x12, 0x34]"
  let ?r2 = "replicate 7 0xFF @ [0, 0xFE] @ (0x40 # replicate 15 0) @ [0x12, 0x34]"
  let ?d = "sd2_dialog 3 [0, 0, 1, 0xAA] [0x40, 0, 0, 0]"
  have ok: "\<forall>(cmd, arg, r, bs) \<in> set ?d. r \<noteq> 0xFF" by (auto simp: sd2_dialog_def)
  let ?t = "concat (map (\<lambda>(cmd, arg, r, bs). replicate 7 0xFF @ [r] @ bs) ?d) @ ?r1"
  have t: "demo_tape = replicate 10 0xFF @ (0xFF # ?t)"
    using replicate_add[of 10 1 "0xFF :: byte"] by (simp add: demo_tape_def)
  have "after_bytes tape_spi (replicate 10 0xFF) demo_tape = 0xFF # ?t"
    unfolding t by (subst tape_exchange) simp_all
  moreover have "selecting tape_spi (0xFF # ts) = ts" for ts by (simp add: selecting_def tape_spi_def)
  ultimately have "dialog tape_spi ?d (selecting tape_spi (after_bytes tape_spi (replicate 10 0xFF) demo_tape)) ?r1"
    using tape_dialog[OF ok, of ?r1] by simp
  moreover have "sends tape_spi CMD_SEND_CID 0 (replicate 16 0x20) ?r1 ?r2"
    using tape_sends[of CMD_SEND_CID 0 "replicate 16 0x20" ?r2] by simp
  moreover have "sends tape_spi CMD_SEND_CSD 0 (0x40 # replicate 15 0) ?r2 []"
    using tape_sends[of CMD_SEND_CSD 0 "0x40 # replicate 15 0" "[]"] by simp
  ultimately show ?thesis unfolding sd2_powers_up_def by (intro conjI exI) (simp_all add: TIMEOUT_def del: dialog.simps)
qed

lemma card_comes_up_witness:
  "\<exists>t. mmc_init tape_spi \<lparr>di_model = replicate 33 0, di_serno = replicate 21 0, di_type = 0, di_blk_count = 0\<rparr>
      \<lparr>mmc_card = demo_tape, tmp_buf = replicate 18 0\<rparr> =
    (\<lparr>mmc_card = mmc_deselect tape_spi [], tmp_buf = t\<rparr>,
     \<lparr>di_model = put_bytes (replicate 33 0) 0 (cid_model (replicate 16 0x20)), di_serno = put_bytes (replicate 21 0) 0 (cid_serno (replicate 16 0x20)),
      di_type = DRIVE_TYPE_SDHC, di_blk_count = csd_blk_count (0x40 # replicate 15 0)\<rparr>, TFS_ERR_OK)"
  using card_comes_up[of tape_spi 3 "[0, 0, 1, 0xAA]" "[0x40, 0, 0, 0]" "replicate 16 0x20" "0x40 # replicate 15 0"
      "\<lparr>mmc_card = demo_tape, tmp_buf = replicate 18 0\<rparr>" "[]"
      "\<lparr>di_model = replicate 33 0, di_serno = replicate 21 0, di_type = 0, di_blk_count = 0\<rparr>"] demo_tape_powers_up
  by simp

text \<open>C33: with an empty slot, where the line stays high, \<open>tfs_init\<close> ends and reports that there is no device; the
  calls that follow then return at once.\<close>

theorem empty_slot:
  assumes "\<And>c. fst (spi_transfer_byte B 0xFF c) = 0xFF"
  shows "last_error (tfs_init (mmc_platform B cmp) s) = TFS_ERR_NO_DEV \<and>
    tfs_write_file (mmc_platform B cmp) name data len ov (tfs_init (mmc_platform B cmp) s) = Some (tfs_init (mmc_platform B cmp) s)"
proof -
  let ?r = "mmc_init B (drive_info s) (dev s)"
  have "pf_init (mmc_platform B cmp) (drive_info s) (dev s) = (fst ?r, fst (snd ?r), TFS_ERR_NO_DEV)"
    using init_empty[OF assms, of "drive_info s" "dev s"] by (simp add: mmc_platform_def prod_eq_iff)
  from init_failed(1)[OF this] show ?thesis by (simp add: tfs_write_file_def api_void_def)
qed

lemma empty_slot_witness:
  "last_error (tfs_init (mmc_platform \<lparr>spi_transfer_byte = (\<lambda>b c. (0xFF, c)), spi_select_drive = id, spi_deselect_drive = id\<rparr>
     strncmp_filename_cmp) (mmc_fs ())) = TFS_ERR_NO_DEV"
  by (rule conjunct1[OF empty_slot]) simp

end
