(* ===== verification/Spi_Ports.thy ===== *)
theory Spi_Ports
  imports Mmc
begin

text \<open>
  The two ports of the SPI interface: \<open>avr/spi.c\<close>, on the registers of the AVR's SPI unit, and \<open>zx81/spi.c\<close>,
  Z80 code on two I/O ports.  The hardware is a parameter that says what an access to a register or a
  port does.  Both move blocks byte by byte, as the model of the driver has it.
\<close>

section \<open>avr/spi.c\<close>

text \<open>The data and status registers of the SPI unit; the other registers are memory cells.\<close>

record 'h spi_unit =
  put_SPDR :: "byte \<Rightarrow> 'h \<Rightarrow> 'h"
  get_SPDR :: "'h \<Rightarrow> byte \<times> 'h"
  put_SPSR :: "byte \<Rightarrow> 'h \<Rightarrow> 'h"
  get_SPSR :: "'h \<Rightarrow> byte \<times> 'h"

record 'h avr_regs =
  DDRB :: byte
  PORTB :: byte
  SPCR :: byte
  unit :: 'h

text \<open>The pins of port B, which depend on the chip.\<close>

record spi_pins =
  mosi :: nat
  sck :: nat
  ss :: nat
  miso :: nat

definition pins_ATmega8 :: spi_pins where "pins_ATmega8 = \<lparr>mosi = 3, sck = 5, ss = 2, miso = 4\<rparr>"
definition pins_ATmega16 :: spi_pins where "pins_ATmega16 = \<lparr>mosi = 5, sck = 7, ss = 4, miso = 6\<rparr>"
definition pins_ATmega64 :: spi_pins where "pins_ATmega64 = \<lparr>mosi = 2, sck = 1, ss = 0, miso = 3\<rparr>"

abbreviation SPIF :: byte where "SPIF \<equiv> 0x80"
abbreviation SPI2X :: byte where "SPI2X \<equiv> 0x01"

definition select_card :: "spi_pins \<Rightarrow> 'h avr_regs \<Rightarrow> 'h avr_regs" where
  "select_card pins r = r\<lparr>PORTB := unset_bit (ss pins) (PORTB r)\<rparr>"

definition deselect_card :: "spi_pins \<Rightarrow> 'h avr_regs \<Rightarrow> 'h avr_regs" where
  "deselect_card pins r = r\<lparr>PORTB := set_bit (ss pins) (PORTB r)\<rparr>"

text \<open>\<open>SPSR &= ~mask\<close>\<close>

definition clear_SPSR :: "'h spi_unit \<Rightarrow> byte \<Rightarrow> 'h \<Rightarrow> 'h" where
  "clear_SPSR U m h = (case get_SPSR U h of (v, h) \<Rightarrow> put_SPSR U (v AND NOT m) h)"

definition avr_spi_init :: "'h spi_unit \<Rightarrow> spi_pins \<Rightarrow> 'h avr_regs \<Rightarrow> 'h avr_regs" where
  "avr_spi_init U pins r =
     (let r = r\<lparr>DDRB := set_bit (mosi pins) (DDRB r)\<rparr>;
          r = r\<lparr>DDRB := set_bit (sck pins) (DDRB r)\<rparr>;
          r = r\<lparr>DDRB := set_bit (ss pins) (DDRB r)\<rparr>;
          r = r\<lparr>DDRB := unset_bit (miso pins) (DDRB r)\<rparr>;
          r = deselect_card pins r;
          r = r\<lparr>SPCR := push_bit 6 1 OR push_bit 4 1\<rparr>
      in r\<lparr>unit := clear_SPSR U SPI2X (unit r)\<rparr>)"

text \<open>\<open>while (!(SPSR & (1 << SPIF)))\<close>: it may wait forever.\<close>

partial_function (option) wait_SPIF :: "'h spi_unit \<Rightarrow> 'h \<Rightarrow> 'h option" where
  "wait_SPIF U h = (case get_SPSR U h of (v, h) \<Rightarrow> if v AND SPIF = 0 then wait_SPIF U h else Some h)"

text \<open>One byte goes out, and the flag is cleared.\<close>

definition shift_out :: "'h spi_unit \<Rightarrow> byte \<Rightarrow> 'h \<Rightarrow> 'h option" where
  "shift_out U b h = map_option (clear_SPSR U SPIF) (wait_SPIF U (put_SPDR U b h))"

definition avr_transfer_byte :: "'h spi_unit \<Rightarrow> byte \<Rightarrow> 'h \<Rightarrow> (byte \<times> 'h) option" where
  "avr_transfer_byte U b h = map_option (get_SPDR U) (shift_out U b h)"

fun avr_read_block :: "'h spi_unit \<Rightarrow> nat \<Rightarrow> 'h \<Rightarrow> (byte list \<times> 'h) option" where
  "avr_read_block U 0 h = Some ([], h)"
| "avr_read_block U (Suc len) h = do {
     h \<leftarrow> shift_out U 0xFF h;
     (b, h) \<leftarrow> Some (get_SPDR U h);
     (bs, h) \<leftarrow> avr_read_block U len h;
     Some (b # bs, h)
   }"

fun avr_write_block :: "'h spi_unit \<Rightarrow> byte list \<Rightarrow> 'h \<Rightarrow> 'h option" where
  "avr_write_block U [] h = Some h"
| "avr_write_block U (b # bs) h = Option.bind (shift_out U b h) (avr_write_block U bs)"

fun avr_dummy_transfer :: "'h spi_unit \<Rightarrow> nat \<Rightarrow> 'h \<Rightarrow> 'h option" where
  "avr_dummy_transfer U 0 h = Some h"
| "avr_dummy_transfer U (Suc len) h = Option.bind (shift_out U 0xFF h) (avr_dummy_transfer U len)"

section \<open>zx81/spi.c\<close>

record 'h z80_ports =
  port_out :: "byte \<Rightarrow> byte \<Rightarrow> 'h \<Rightarrow> 'h"
  port_in :: "byte \<Rightarrow> 'h \<Rightarrow> byte \<times> 'h"

definition zx_select_drive :: "'h z80_ports \<Rightarrow> 'h \<Rightarrow> 'h" where
  "zx_select_drive Z h = snd (port_in Z 0xEF h)"

definition zx_deselect_drive :: "'h z80_ports \<Rightarrow> 'h \<Rightarrow> 'h" where
  "zx_deselect_drive Z h = snd (port_in Z 0xF7 h)"

definition zx_transfer_byte :: "'h z80_ports \<Rightarrow> byte \<Rightarrow> 'h \<Rightarrow> byte \<times> 'h" where
  "zx_transfer_byte Z b h = port_in Z 0xEF (port_out Z 0xEF b h)"

text \<open>The loops count the register pair \<open>de\<close> down to 0; \<open>m\<close> is the memory that \<open>hl\<close> points into.\<close>

function zx_read_block :: "'h z80_ports \<Rightarrow> u16 \<Rightarrow> u16 \<Rightarrow> (u16 \<Rightarrow> byte) \<Rightarrow> 'h \<Rightarrow> (u16 \<Rightarrow> byte) \<times> 'h" where
  "zx_read_block Z hl de m h =
     (if de = 0 then (m, h)
      else case port_in Z 0xEF (port_out Z 0xEF 0xFF h) of (a, h) \<Rightarrow> zx_read_block Z (hl + 1) (de - 1) (m(hl := a)) h)"
  by pat_completeness auto
termination by (relation "measure (\<lambda>(Z, hl, de, m, h). unat de)") (auto simp: unat_minus_one unat_gt_0)

function zx_write_block :: "'h z80_ports \<Rightarrow> u16 \<Rightarrow> u16 \<Rightarrow> (u16 \<Rightarrow> byte) \<Rightarrow> 'h \<Rightarrow> 'h" where
  "zx_write_block Z hl de m h =
     (if de = 0 then h else zx_write_block Z (hl + 1) (de - 1) m (port_out Z 0xEF (m hl) h))"
  by pat_completeness auto
termination by (relation "measure (\<lambda>(Z, hl, de, m, h). unat de)") (auto simp: unat_minus_one unat_gt_0)

function zx_dummy_transfer :: "'h z80_ports \<Rightarrow> u16 \<Rightarrow> 'h \<Rightarrow> 'h" where
  "zx_dummy_transfer Z hl h = (if hl = 0 then h else zx_dummy_transfer Z (hl - 1) (port_out Z 0xEF 0xFF h))"
  by pat_completeness auto
termination by (relation "measure (\<lambda>(Z, hl, h). unat hl)") (auto simp: unat_minus_one unat_gt_0)

declare zx_read_block.simps [simp del] zx_write_block.simps [simp del] zx_dummy_transfer.simps [simp del]

section \<open>The hardware\<close>

text \<open>The state of the unit after \<open>n\<close> reads of its status.\<close>

fun polled :: "'h spi_unit \<Rightarrow> nat \<Rightarrow> 'h \<Rightarrow> 'h" where
  "polled U 0 h = h"
| "polled U (Suc n) h = polled U n (snd (get_SPSR U h))"

text \<open>
  What the data sheet says of the unit: when it is idle, a byte written to SPDR goes out, and after a
  number of polls SPIF is set and, once it is cleared, SPDR holds the byte that came in.  \<open>wire\<close> is what is
  at the other end.
\<close>

definition shifts :: "'h spi_unit \<Rightarrow> ('h \<Rightarrow> bool) \<Rightarrow> ('h \<Rightarrow> 'c) \<Rightarrow> 'c spi \<Rightarrow> bool" where
  "shifts U idle wire B \<longleftrightarrow> (\<forall>h b. idle h \<longrightarrow> (\<exists>n.
     (\<forall>i < n. fst (get_SPSR U (polled U i (put_SPDR U b h))) AND SPIF = 0) \<and>
     fst (get_SPSR U (polled U n (put_SPDR U b h))) AND SPIF \<noteq> 0 \<and>
     (case get_SPSR U (polled U (Suc n) (put_SPDR U b h)) of (v, g) \<Rightarrow>
        let h' = put_SPSR U (v AND NOT SPIF) g
        in idle h' \<and> idle (snd (get_SPDR U h')) \<and>
           wire h' = snd (spi_transfer_byte B b (wire h)) \<and> wire (snd (get_SPDR U h')) = wire h' \<and>
           fst (get_SPDR U h') = fst (spi_transfer_byte B b (wire h)))))"

text \<open>An OUT to port 0xEF sends a byte, and an IN reads the byte that came in for it.\<close>

definition carries :: "'h z80_ports \<Rightarrow> ('h \<Rightarrow> 'c) \<Rightarrow> 'c spi \<Rightarrow> bool" where
  "carries Z wire B \<longleftrightarrow> (\<forall>h b.
     wire (port_out Z 0xEF b h) = snd (spi_transfer_byte B b (wire h)) \<and>
     fst (port_in Z 0xEF (port_out Z 0xEF b h)) = fst (spi_transfer_byte B b (wire h)) \<and>
     wire (snd (port_in Z 0xEF (port_out Z 0xEF b h))) = wire (port_out Z 0xEF b h))"

section \<open>Blocks on the AVR\<close>

lemma wait_polls:
  assumes "\<forall>i < n. fst (get_SPSR U (polled U i h)) AND SPIF = 0" and "fst (get_SPSR U (polled U n h)) AND SPIF \<noteq> 0"
  shows "wait_SPIF U h = Some (polled U (Suc n) h)"
  using assms
proof (induction n arbitrary: h)
  case 0
  then show ?case by (subst wait_SPIF.simps) (auto simp: split_beta)
next
  case (Suc n)
  obtain v g where g: "get_SPSR U h = (v, g)" by fastforce
  have "fst (get_SPSR U (polled U i g)) AND SPIF = 0" if "i < n" for i
    using Suc.prems(1)[rule_format, of "Suc i"] that g by simp
  moreover have "v AND SPIF = 0" using Suc.prems(1)[rule_format, of 0] g by simp
  ultimately show ?case using Suc.IH[of g] Suc.prems(2) g by (subst wait_SPIF.simps) simp
qed

lemma shift_out_ok:
  assumes "shifts U idle wire B" and "idle h"
  obtains h' where "shift_out U b h = Some h'" "idle h'" "idle (snd (get_SPDR U h'))"
    "wire h' = snd (spi_transfer_byte B b (wire h))" "wire (snd (get_SPDR U h')) = wire h'"
    "fst (get_SPDR U h') = fst (spi_transfer_byte B b (wire h))"
proof -
  let ?h = "put_SPDR U b h"
  have "\<exists>n. (\<forall>i < n. fst (get_SPSR U (polled U i ?h)) AND SPIF = 0) \<and> fst (get_SPSR U (polled U n ?h)) AND SPIF \<noteq> 0 \<and>
    (let h' = clear_SPSR U SPIF (polled U (Suc n) ?h)
     in idle h' \<and> idle (snd (get_SPDR U h')) \<and> wire h' = snd (spi_transfer_byte B b (wire h)) \<and>
        wire (snd (get_SPDR U h')) = wire h' \<and> fst (get_SPDR U h') = fst (spi_transfer_byte B b (wire h)))"
    using assms(1)[unfolded shifts_def, rule_format, OF assms(2), of b] unfolding clear_SPSR_def Let_def split_beta .
  then obtain n where n: "\<forall>i < n. fst (get_SPSR U (polled U i ?h)) AND SPIF = 0" "fst (get_SPSR U (polled U n ?h)) AND SPIF \<noteq> 0"
    "let h' = clear_SPSR U SPIF (polled U (Suc n) ?h)
     in idle h' \<and> idle (snd (get_SPDR U h')) \<and> wire h' = snd (spi_transfer_byte B b (wire h)) \<and>
        wire (snd (get_SPDR U h')) = wire h' \<and> fst (get_SPDR U h') = fst (spi_transfer_byte B b (wire h))"
    by blast
  then show thesis
    by (intro that[of "clear_SPSR U SPIF (polled U (Suc n) ?h)"]) (simp_all add: shift_out_def wait_polls[OF n(1,2)] Let_def)
qed

lemma avr_blocks:
  assumes hw: "shifts U idle wire B" and "idle h"
  shows "\<exists>h'. avr_transfer_byte U b h = Some (fst (spi_transfer_byte B b (wire h)), h') \<and> idle h' \<and>
      wire h' = snd (spi_transfer_byte B b (wire h))"
    "\<exists>h'. avr_read_block U n h = Some (fst (spi_read_block B n (wire h)), h') \<and> idle h' \<and> wire h' = snd (spi_read_block B n (wire h))"
    "\<exists>h'. avr_write_block U bs h = Some h' \<and> idle h' \<and> wire h' = spi_write_block B bs (wire h)"
    "\<exists>h'. avr_dummy_transfer U n h = Some h' \<and> idle h' \<and> wire h' = spi_dummy_transfer B n (wire h)"
proof -
  note so = shift_out_ok[OF hw]
  show "\<exists>h'. avr_transfer_byte U b h = Some (fst (spi_transfer_byte B b (wire h)), h') \<and> idle h' \<and>
      wire h' = snd (spi_transfer_byte B b (wire h))"
    by (rule so[OF assms(2), of b]) (auto simp: avr_transfer_byte_def prod_eq_iff)
  show "\<exists>h'. avr_read_block U n h = Some (fst (spi_read_block B n (wire h)), h') \<and> idle h' \<and> wire h' = snd (spi_read_block B n (wire h))"
    using assms(2)
  proof (induction n arbitrary: h)
    case (Suc n)
    obtain g where g: "shift_out U 0xFF h = Some g" "idle (snd (get_SPDR U g))"
      "wire g = snd (spi_transfer_byte B 0xFF (wire h))" "wire (snd (get_SPDR U g)) = wire g"
      "fst (get_SPDR U g) = fst (spi_transfer_byte B 0xFF (wire h))"
      by (rule so[OF Suc.prems, of "0xFF"])
    show ?case using Suc.IH[OF g(2)] g by (auto simp: spi_rec_byte_def split_beta)
  qed simp
  show "\<exists>h'. avr_write_block U bs h = Some h' \<and> idle h' \<and> wire h' = spi_write_block B bs (wire h)"
    using assms(2)
  proof (induction bs arbitrary: h)
    case (Cons b bs)
    obtain g where "shift_out U b h = Some g" "idle g" "wire g = snd (spi_transfer_byte B b (wire h))"
      by (rule so[OF Cons.prems, of b])
    then show ?case using Cons.IH[of g] by (simp add: spi_send_byte_def)
  qed simp
  show "\<exists>h'. avr_dummy_transfer U n h = Some h' \<and> idle h' \<and> wire h' = spi_dummy_transfer B n (wire h)"
    using assms(2)
  proof (induction n arbitrary: h)
    case 0
    then show ?case by (simp add: spi_dummy_transfer_def)
  next
    case (Suc n)
    obtain g where "shift_out U 0xFF h = Some g" "idle g" "wire g = snd (spi_transfer_byte B 0xFF (wire h))"
      by (rule so[OF Suc.prems, of "0xFF"])
    then show ?case using Suc.IH[of g] by (simp add: spi_dummy_transfer_def spi_send_byte_def)
  qed
qed

text \<open>The direction of the pins, and the card left deselected.\<close>

lemma avr_spi_init_pins:
  assumes "pins \<in> {pins_ATmega8, pins_ATmega16, pins_ATmega64}" and "n < 8"
  shows "bit (DDRB (avr_spi_init U pins r)) n \<longleftrightarrow> n \<in> {mosi pins, sck pins, ss pins} \<or> n \<noteq> miso pins \<and> bit (DDRB r) n"
    "bit (PORTB (avr_spi_init U pins r)) n \<longleftrightarrow> n = ss pins \<or> bit (PORTB r) n" "SPCR (avr_spi_init U pins r) = 0x50"
  using assms by (auto simp: avr_spi_init_def deselect_card_def Let_def bit_simps
      pins_ATmega8_def pins_ATmega16_def pins_ATmega64_def)

section \<open>Blocks on the ZX81\<close>

text \<open>What lies from \<open>hl\<close> on, for \<open>n\<close> bytes.\<close>

definition bytes_at :: "(u16 \<Rightarrow> byte) \<Rightarrow> u16 \<Rightarrow> nat \<Rightarrow> byte list" where
  "bytes_at m hl n = map (\<lambda>i. m (hl + of_nat i)) [0..<n]"

lemma bytes_at_Suc: "bytes_at m hl (Suc n) = m hl # bytes_at m (hl + 1) n"
  by (simp add: bytes_at_def map_upt_Suc algebra_simps del: upt_Suc)

lemma count_down:
  fixes de :: u16
  assumes "unat de = Suc n" shows "de \<noteq> 0" "unat (de - 1) = n"
proof -
  show "de \<noteq> 0" using assms by auto
  then show "unat (de - 1) = n" using assms by (simp add: unat_minus_one)
qed

lemma zx_write_ok:
  assumes "carries Z wire B"
  shows "wire (zx_write_block Z hl de m h) = spi_write_block B (bytes_at m hl (unat de)) (wire h)"
proof (induction "unat de" arbitrary: hl de h)
  case 0
  then have "de = 0" by (simp add: word_unat_eq_iff)
  then show ?case by (subst zx_write_block.simps) (simp add: bytes_at_def)
next
  case (Suc n)
  have "wire (port_out Z 0xEF (m hl) h) = spi_send_byte B (m hl) (wire h)"
    using assms by (simp add: carries_def spi_send_byte_def)
  with Suc.hyps(1)[of "de - 1" "hl + 1" "port_out Z 0xEF (m hl) h"] count_down[OF Suc.hyps(2)[symmetric]]
  show ?case by (subst zx_write_block.simps) (simp add: bytes_at_Suc flip: Suc.hyps(2))
qed

lemma zx_dummy_ok:
  assumes "carries Z wire B"
  shows "wire (zx_dummy_transfer Z hl h) = spi_dummy_transfer B (unat hl) (wire h)"
proof (induction "unat hl" arbitrary: hl h)
  case 0
  then have "hl = 0" by (simp add: word_unat_eq_iff)
  then show ?case by (subst zx_dummy_transfer.simps) (simp add: spi_dummy_transfer_def)
next
  case (Suc n)
  have "wire (port_out Z 0xEF 0xFF h) = spi_send_byte B 0xFF (wire h)"
    using assms by (simp add: carries_def spi_send_byte_def)
  with Suc.hyps(1)[of "hl - 1" "port_out Z 0xEF 0xFF h"] count_down[OF Suc.hyps(2)[symmetric]]
  show ?case by (subst zx_dummy_transfer.simps) (simp add: spi_dummy_transfer_def flip: Suc.hyps(2))
qed

text \<open>Reading writes just the bytes from \<open>hl\<close> on.\<close>

lemma zx_read_ok:
  assumes "carries Z wire B"
  shows "bytes_at (fst (zx_read_block Z hl de m h)) hl (unat de) = fst (spi_read_block B (unat de) (wire h)) \<and>
    wire (snd (zx_read_block Z hl de m h)) = snd (spi_read_block B (unat de) (wire h)) \<and>
    (\<forall>a. unat de \<le> unat (a - hl) \<longrightarrow> fst (zx_read_block Z hl de m h) a = m a)"
proof (induction "unat de" arbitrary: hl de m h)
  case 0
  then have "de = 0" by (simp add: word_unat_eq_iff)
  then show ?case by (subst (1 2 3) zx_read_block.simps) (simp add: bytes_at_def)
next
  case (Suc n)
  note c = count_down[OF Suc.hyps(2)[symmetric]]
  obtain a g where ag: "port_in Z 0xEF (port_out Z 0xEF 0xFF h) = (a, g)" by fastforce
  have w: "a = fst (spi_rec_byte B (wire h))" "wire g = snd (spi_rec_byte B (wire h))"
    using assms ag by (simp_all add: carries_def spi_rec_byte_def) (metis fst_conv snd_conv)+
  let ?r = "zx_read_block Z (hl + 1) (de - 1) (m(hl := a)) g"
  have r: "zx_read_block Z hl de m h = ?r" by (subst zx_read_block.simps) (simp add: c(1) ag)
  note ih = Suc.hyps(1)[OF c(2)[symmetric], of "hl + 1" "m(hl := a)" g, unfolded c(2)]
  have n: "n < 2 ^ 16" using unsigned_less[of de, where 'a = nat] by (simp flip: Suc.hyps(2))
  have "hl - (hl + 1) = - 1" by simp
  moreover have "unat (- 1 :: u16) = 2 ^ 16 - 1" by (simp only: unsigned_minus_1_eq_mask mask_eq_exp_minus_1) simp
  ultimately have far: "unat (hl - (hl + 1)) = 2 ^ 16 - 1" by (simp only:)
  have first: "fst ?r hl = a" using ih n far by simp
  have keep: "fst ?r x = m x" if "Suc n \<le> unat (x - hl)" for x
  proof -
    have "x \<noteq> hl" using that by auto
    moreover have "n \<le> unat (x - (hl + 1))"
    proof -
      have "x - hl \<noteq> 0" using \<open>x \<noteq> hl\<close> by simp
      then have e: "unat (x - hl - 1) = unat (x - hl) - 1" by (rule unat_minus_one)
      have "x - (hl + 1) = x - hl - 1" by simp
      then show ?thesis unfolding e using that e by (simp only:)
    qed
    ultimately show ?thesis using ih by simp
  qed
  show ?case
    unfolding r using ih w first keep by (simp add: bytes_at_Suc split_beta flip: Suc.hyps(2))
qed

section \<open>The ports refine the driver's interface\<close>

text \<open>C32: on an SPI unit that shifts every byte out in a finite number of polls, the functions of \<open>avr/spi.c\<close> end and
  do on the wire exactly what the byte by byte functions of the driver's model do: a block read is that many
  transfers of 0xFF, in order, a block write one transfer per byte.\<close>

theorem avr_port_refines:
  assumes "shifts U idle wire B" and "idle h"
  shows "(\<exists>h1. avr_transfer_byte U b h = Some (fst (spi_transfer_byte B b (wire h)), h1) \<and> idle h1 \<and>
      wire h1 = snd (spi_transfer_byte B b (wire h))) \<and>
    (\<exists>h1. avr_read_block U n h = Some (fst (spi_read_block B n (wire h)), h1) \<and> idle h1 \<and> wire h1 = snd (spi_read_block B n (wire h))) \<and>
    (\<exists>h1. avr_write_block U bs h = Some h1 \<and> idle h1 \<and> wire h1 = spi_write_block B bs (wire h)) \<and>
    (\<exists>h1. avr_dummy_transfer U n h = Some h1 \<and> idle h1 \<and> wire h1 = spi_dummy_transfer B n (wire h))"
  by (intro conjI avr_blocks[OF assms])

text \<open>A unit that needs three polls for a byte, and counts the bytes on the wire.\<close>

definition slow_unit :: "(nat \<times> nat \<times> byte) spi_unit" where
  "slow_unit = \<lparr>put_SPDR = (\<lambda>b (w, k, r). (Suc w, 2, b + 1)), get_SPDR = (\<lambda>(w, k, r). (r, (w, k, r))),
     put_SPSR = (\<lambda>v h. h), get_SPSR = (\<lambda>(w, k, r). (if k = 0 then 0x80 else 0, (w, k - 1, r)))\<rparr>"

definition counting_bus :: "nat spi" where
  "counting_bus = \<lparr>spi_transfer_byte = (\<lambda>b w. (b + 1, Suc w)), spi_select_drive = id, spi_deselect_drive = id\<rparr>"

lemma slow_unit_shifts: "shifts slow_unit (\<lambda>_. True) fst counting_bus"
proof -
  have "\<exists>n. (\<forall>i < n. fst (get_SPSR slow_unit (polled slow_unit i (put_SPDR slow_unit b h))) AND SPIF = 0) \<and>
     fst (get_SPSR slow_unit (polled slow_unit n (put_SPDR slow_unit b h))) AND SPIF \<noteq> 0 \<and>
     (case get_SPSR slow_unit (polled slow_unit (Suc n) (put_SPDR slow_unit b h)) of (v, g) \<Rightarrow>
        let h' = put_SPSR slow_unit (v AND NOT SPIF) g
        in fst h' = snd (spi_transfer_byte counting_bus b (fst h)) \<and> fst (snd (get_SPDR slow_unit h')) = fst h' \<and>
           fst (get_SPDR slow_unit h') = fst (spi_transfer_byte counting_bus b (fst h)))" for b h
    by (rule exI[of _ "Suc (Suc 0)"], cases h) (auto simp: slow_unit_def counting_bus_def less_Suc_eq Let_def)
  then show ?thesis by (simp add: shifts_def)
qed

lemma avr_port_refines_witness:
  "\<exists>h1. avr_read_block slow_unit 3 (0, 0, 0) = Some ([0, 0, 0], h1) \<and> fst h1 = 3"
proof -
  have "spi_read_block counting_bus 3 0 = ([0, 0, 0], 3)"
    by (simp add: numeral_3_eq_3 spi_rec_byte_def counting_bus_def)
  with avr_port_refines[OF slow_unit_shifts, where h = "(0, 0, 0)" and n = 3] show ?thesis by auto
qed

end
