(* ===== verification/Spec2Isabelle.thy ===== *)
theory Spec2Isabelle
  imports Demo_File Volume Interface Handle_Props Tool_Props Fuse_Props Avr_Props Zx81_Props Mmc_Props Spi_Ports
begin

text \<open>
  \<^bold>\<open>TinyFS\<close> is a small file system for disks of 512-byte blocks, with programs around it: a console for AVR
  microcontrollers, SAVE and LOAD for the ZX81, and for Linux the tool \<open>mktfs\<close> and a FUSE server.  The core,
  \<open>src/filesys.c\<close>, keeps its state in static variables and calls five drive functions that each port supplies.
  This development models the core, its ports, the card driver and the programs, and proves what the parts promise
  one another.  Theories \<open>Volume\<close>, \<open>Interface\<close>, \<open>Handle_Props\<close>, \<open>Tool_Props\<close>, \<open>Fuse_Props\<close>, \<open>Avr_Props\<close>,
  \<open>Zx81_Props\<close>, \<open>Mmc_Props\<close>, \<open>Spi_Ports\<close> and this one state the properties, C1 to C40; each has a witness at a
  concrete state where it has hypotheses.

  \<^bold>\<open>How the code is modelled.\<close>
  The machine integers are words of their width (\<open>u32\<close>, \<open>u16\<close>, \<open>byte\<close>).  A block is a list of 512 bytes, and the
  members of the packed structs are functions on it (\<open>Layout\<close>), so that one buffer can be read as data, directory or
  bitmap, as through the union of the code.  The static variables are the record \<open>fs\<close> (\<open>Device\<close>); an
  operation takes and returns it, and \<open>last_error\<close> is a field of it.  A \<open>TFS_DIR_ITEM *\<close> into \<open>blk_buf\<close> is the index of the
  item, a file handle its index in the table.  A loop that need not end (over a chain of blocks, or waiting for input or hardware)
  is a \<open>partial_function\<close> into \<open>option\<close>; \<open>None\<close> also stands for a null pointer that is followed.
  There is no fuel anywhere: that a loop ends is part of the theorems, which give a result \<open>Some\<close>.

  \<^bold>\<open>The layers, from the bottom.\<close>
  \<^item> \<open>Prelude\<close>: byte arrays, 32-bit fields, C strings.  \<open>Layout\<close>: constants and structs of \<open>filesys.h\<close>.
  \<^item> \<open>Device\<close>: the record \<open>platform\<close> of what a port supplies, and the locale \<open>block_device\<close>, its contract:
    \<open>contents\<close> is the medium as a function from block numbers to blocks, and reads, writes and selections
    succeed and act on it as expected.  Everything that is said of fault-free runs is proved inside it.
    It is interpreted on the Linux drive (\<open>ld\<close>, \<open>Linux_Drive\<close>), on an image file that \<open>mktfs\<close> formats (\<open>img\<close>, \<open>Mktfs\<close>) and on
    a card behind the driver (\<open>dc\<close>, \<open>Mmc_Props\<close>); \<open>named_device\<close> (\<open>Entries\<close>) adds the comparison of names.
    Faults are covered too: \<open>Linux_Drive\<close> has a schedule of system call results, and what holds for every
    drive (\<open>Handle_Table\<close>) is stated with no contract at all.
  \<^item> \<open>Bitmap\<close>, \<open>Chain\<close>: \<open>load_bitmap\<close>, \<open>alloc_block\<close>, \<open>free_block\<close>, \<open>free_file_blocks\<close>.  Their
    abstraction is the set of used blocks; \<open>ready\<close> (inside a function) and \<open>mounted\<close> (between two calls) are the
    invariants, and the bitmap that is cached must agree with the medium.
  \<^item> \<open>Directory\<close>, \<open>Entries\<close>, \<open>Subdirs\<close>, \<open>Cleanup\<close>, \<open>Listing\<close>: \<open>find_file\<close>, the directory functions, \<open>write_dir_cleanup\<close>,
    \<open>tfs_delete\<close> and \<open>tfs_rename\<close>.  The abstraction is the list of the items in use, \<open>dir_items\<close>; \<open>dir_ok\<close> says that the
    directory is a chain with correct back links on blocks of its own.
  \<^item> \<open>Files\<close>, \<open>File_Ops\<close>, \<open>Overwrite\<close>, \<open>Whole_Files\<close>: \<open>tfs_write_file\<close> and \<open>tfs_read_file\<close>.  \<open>file_at\<close> says that an
    item is a file with given blocks and bytes; \<open>entry_added\<close>, \<open>replaced\<close> and \<open>removed\<close> say what an operation did to the directory and that
    it did nothing else.
  \<^item> \<open>Format\<close>: \<open>tfs_init\<close>, \<open>tfs_format\<close>, \<open>tfs_get_used\<close>.
  \<^item> \<open>Handles\<close>, \<open>Handle_Specs\<close>, \<open>Open_Files\<close>, \<open>Write_Specs\<close>, \<open>Open_Writes\<close>, \<open>Truncate\<close>, \<open>Moved_Files\<close>, \<open>Handle_Table\<close>,
    \<open>Handle_Counts\<close>: the extended interface.
    \<open>handle_on\<close> ties a handle to a chain, \<open>writing\<close> describes a file whose last change is still in the buffer,
    \<open>file_open\<close> says that handle, entry and blocks agree.  \<open>api_run\<close> is the step relation of the whole
    interface, whatever the device does between the calls, and \<open>table_ok\<close> its invariant, which C23 assumes: no two handles
    in use have the same directory block and slot.  That says nothing of a file whose slot moves (C22).
    \<open>keeps\<close> carries an invariant through the definitions, and \<open>counts\<close> is how often each handle is in use.
  \<^item> \<open>Linux_Drive\<close>, \<open>Mktfs\<close>, \<open>Fuse\<close>, \<open>Fuse_Paths\<close>, \<open>Fuse_Handles\<close>: the Linux drive over POSIX calls, \<open>err_handler.c\<close>, \<open>mktfs.c\<close> and \<open>tfs_fuse.c\<close>.
  \<^item> \<open>Mmc\<close>, \<open>Sd_Card\<close>, \<open>Card_Init\<close>, \<open>Demo_Card\<close>, \<open>Spi_Ports\<close>: \<open>mmc.c\<close> over an SPI bus whose behaviour is a parameter, the
    promises of an SD card on the bus, and the two SPI ports \<open>avr/spi.c\<close> and \<open>zx81/spi.c\<close> over their hardware.
  \<^item> \<open>Uart\<close>, \<open>Decimal\<close>, \<open>Avr\<close>: the serial line and the AVR console.  \<open>Term\<close>, \<open>Zx81\<close>: the terminal and the program of the ZX81.
  \<^item> \<open>Demo\<close>, \<open>Demo_File\<close>: a formatted disk of eight blocks, and with a file or a directory, for the witnesses.

  \<^bold>\<open>What the properties show.\<close>
  Files are read back after they were written, overwritten or changed through a handle, on a file and on a card (C1, C3, C17, C21,
  C40); other files are left alone (C2, C3, C4, C17); deleting, renaming and making directories change exactly one
  entry (C4 to C7); blocks are allocated and freed exactly, chains are followed to their end (C8, C9); formatting makes an
  empty volume that mounts (C10, C13, C24); lookup, traversal and clean-up refine operations on lists (C14 to C16); a
  block that cannot be read is reported (C18); the drivers fulfil the contract (C39), the SPI port the interface of the driver (C32); after
  any FUSE requests, faults included, a handle is in use as often as it was opened and not released (C26); numbers and names are printed, edited and compared as specified (C31, C34 to C36, C38).
  Some properties say what goes wrong: a byte written behind the bitmap by \<open>tfs_format\<close> (C11), a rejected write that counts as success (C19),
  an open file that is deleted because its entry moved (C22), a handle count that wraps (C23), an error that sticks in the FUSE server (C25), a truncated file that keeps its size (C29).

  \<^bold>\<open>Parameters.\<close>
  What is not in the repository is an argument of the definitions: the results of system calls, \<open>strdup\<close>, libfuse and
  the process ids, the card and the wires, the registers of the SPI unit and the ports of the ZX81, the keys pressed.  The promises made
  of them are named predicates (\<open>linux_ok\<close>, \<open>sd_card\<close>, \<open>sd2_powers_up\<close>, \<open>shifts\<close>, \<open>carries\<close>), each with an instance.

  \<^bold>\<open>Not modelled.\<close>
  The messages on stderr, the choice of the sleep mode and of the compiler's register and vector names on the AVR, the wait for the
  transmitter, the ROM routines of the ZX81 behind \<open>term.c\<close> (their calls are events), and the directory handler of
  \<open>mktfs.c\<close>, which is never called.  Data beyond the user's buffers is not modelled: a buffer is the list of the bytes the caller passes.
  For \<open>tfs_write\<close> there is no theorem yet on the outcome on a full disk, nor for \<open>tfs_trunc\<close> beyond the end of the file; their definitions cover both.
\<close>

abbreviation entry :: "linux_dev fs \<Rightarrow> u32 list \<Rightarrow> byte list \<Rightarrow> dir_item option" where
  "entry s ds name \<equiv> dir_find (linux_contents (dev s)) (strncmp_filename_cmp name) ds"

section \<open>Whole files\<close>

text \<open>C1: when the current directory has no entry \<open>name\<close> and the disk has more free blocks than
  the data needs, \<open>tfs_write_file\<close> of at least one byte succeeds, and \<open>tfs_read_file\<close> of the same name then returns the
  data, cut to the reader's buffer.  (Reading an empty file can fail: \<open>read_empty_file_fails\<close> in \<open>Interface\<close>.)\<close>

theorem write_read_back:
  assumes "ld.mounted s" and "ld.dir_ok s ds" and "c_at name 0 \<noteq> 0" and "length data = unat len" and "data \<noteq> []"
    and "entry s ds name = None"
    and "blocks_for (length data) < card (free_set (linux_contents (dev s)) (blk_count s))"
  shows "\<exists>s1 s2. tfs_write_file linux_platform name data len ov s = Some s1 \<and> last_error s1 = TFS_ERR_OK \<and>
    tfs_read_file linux_platform name max_len s1 = Some ((min len max_len, take (unat max_len) data), s2) \<and>
    last_error s2 = TFS_ERR_OK"
  using ln.write_read_new[OF assms(1-5) _ assms(7)] assms(6) by simp

lemma write_read_back_witness:
  "\<exists>s1 s2. tfs_write_file linux_platform demo_name [1, 2, 3] 3 False demo_fs = Some s1 \<and> last_error s1 = TFS_ERR_OK \<and>
    tfs_read_file linux_platform demo_name 2 s1 = Some ((2, [1, 2]), s2) \<and> last_error s2 = TFS_ERR_OK"
  using write_read_back[of demo_fs "[1]" demo_name "[1, 2, 3]" 3 False 2] by (simp add: demo_free_card)

text \<open>C2: creating a file leaves every other file of the directory as it was: its entry is found under
  every name that does not also match the new one, and its blocks and bytes are the same.\<close>

theorem write_keeps_others:
  assumes "ld.mounted s" and "ld.dir_ok s ds" and "c_at name 0 \<noteq> 0" and "length data = unat len"
    and "entry s ds name = None" and "ld.file_at s ds it xs bs"
    and "\<not> strncmp_filename_cmp other (strncpy TFS_NAME_LEN name)"
  shows "\<exists>s1 ds1. tfs_write_file linux_platform name data len ov s = Some s1 \<and> ld.dir_ok s1 ds1 \<and>
    entry s1 ds1 other = entry s ds other \<and> ld.file_at s1 ds1 it xs bs"
proof -
  have nl: "dir_lookup (linux_contents (dev s)) (pf_filename_cmp linux_platform name) ds = None"
    using assms(5) by (simp add: dir_find_def)
  show ?thesis
  proof (rule ld.write_new_cases[OF assms(1-4) nl, of ov])
    fix ds1 s1
    assume a: "tfs_write_file linux_platform name data len ov s = Some s1" "ld.dir_grown s s1 ds ds1 {}"
      "\<And>cmp. dir_find (linux_contents (dev s1)) cmp ds1 = dir_find (linux_contents (dev s)) cmp ds"
    have "ld.dir_ok s1 ds1" using a(2) by (simp add: ld.dir_grown_def)
    with a ld.file_kept_grown[OF assms(6) a(2)] show ?thesis by blast
  next
    fix ds1 pos ys s1
    assume a: "tfs_write_file linux_platform name data len ov s = Some s1"
      "ld.entry_added s s1 ds ds1 \<lparr>it_blk = pos, it_size = len, it_type = TFS_DIR_ITEM_FILE,
         it_name = strncpy TFS_NAME_LEN name\<rparr> (set ys)"
    have g: "ld.dir_grown s s1 ds ds1 (set ys)" and e: "entry s1 ds1 other = entry s ds other"
      using a(2) assms(7) by (simp_all add: ld.entry_added_def)
    have "ld.dir_ok s1 ds1" using g by (simp add: ld.dir_grown_def)
    with a(1) e ld.file_kept_grown[OF assms(6) g] show ?thesis by blast
  qed
qed

lemma write_keeps_others_witness:
  "\<exists>ds it xs s1 ds1. tfs_write_file linux_platform demo_other [] 0 False demo_file_fs = Some s1 \<and>
    entry s1 ds1 demo_name = entry demo_file_fs ds demo_name \<and> ld.file_at s1 ds1 it xs [1, 2, 3]"
proof (rule demo_file)
  fix pos xs ds
  assume a: "ld.mounted demo_file_fs" "ld.dir_ok demo_file_fs ds" "ld.file_at demo_file_fs ds (demo_item pos) xs [1, 2, 3]"
    "entry demo_file_fs ds demo_other = None"
  show ?thesis
    using write_keeps_others[OF a(1,2) demo_other_nonempty _ a(4,3) demo_names_differ(2), of "[]" 0 False] by (simp del: ld.file_at_deselect) blast
qed

text \<open>C3: overwriting a file that is not open, with data of at least one byte, succeeds when the free blocks and the blocks of the old
  data are enough; the new data is read back, and every file that shares no block with the old one
  is as it was.\<close>

theorem overwrite_read_back:
  assumes "ld.mounted s" and "ld.dir_ok s ds" and "c_at name 0 \<noteq> 0" and "length data = unat len" and "data \<noteq> []"
    and "dir_lookup (linux_contents (dev s)) (strncmp_filename_cmp name) ds = Some (d, i)"
    and "ld.file_at s ds (get_item (linux_contents (dev s) d) i) zs old" and "usage_at (handles s) d i = 0"
    and "blocks_for (length data) \<le> card (free_set (linux_contents (dev s)) (blk_count s)) + length zs"
  shows "\<exists>s1 s2. tfs_write_file linux_platform name data len True s = Some s1 \<and> last_error s1 = TFS_ERR_OK \<and>
    tfs_read_file linux_platform name max_len s1 = Some ((min len max_len, take (unat max_len) data), s2) \<and>
    (\<forall>it xs bs. ld.file_at s ds it xs bs \<longrightarrow> set xs \<inter> set zs = {} \<longrightarrow> ld.file_at s1 ds it xs bs)"
proof (rule ln.overwrite_file[OF assms(1-4) _ assms(7-9)])
  fix pos xs s1
  let ?it = "\<lparr>it_blk = pos, it_size = len, it_type = TFS_DIR_ITEM_FILE, it_name = strncpy TFS_NAME_LEN name\<rparr>"
  assume a: "tfs_write_file linux_platform name data len True s = Some s1" "last_error s1 = TFS_ERR_OK" "ld.mounted s1"
    "ld.replaced s s1 ds d i ?it (set zs) (set xs)" "ld.file_at s1 ds ?it xs data"
    "dir_find (linux_contents (dev s1)) (pf_filename_cmp linux_platform name) ds = Some ?it"
  have ok: "ld.dir_ok s1 ds" using a(4) by (simp add: ld.replaced_def)
  have "d \<in> set ds" using assms(6) dir_lookup_SomeD(1) by metis
  then have "ld.file_at s1 ds it ys bs" if "ld.file_at s ds it ys bs" "set ys \<inter> set zs = {}" for it ys bs
    using ld.file_kept_replaced[OF that(1) a(4) that(2)] by simp
  moreover obtain s2 where "tfs_read_file linux_platform name max_len s1 =
      Some ((min (it_size ?it) max_len, take (unat max_len) data), s2)"
    by (rule ld.read_file_at[OF a(3) ok assms(3) a(6,5) assms(5)])
  ultimately show ?thesis using a(1,2) by auto
qed (use assms(6) in simp)

lemma overwrite_read_back_witness:
  "\<exists>s1 s2. tfs_write_file linux_platform demo_name [9, 8] 2 True demo_file_fs = Some s1 \<and> last_error s1 = TFS_ERR_OK \<and>
    tfs_read_file linux_platform demo_name 7 s1 = Some ((2, [9, 8]), s2)"
proof (rule demo_slot)
  fix pos xs ds d i
  assume a: "ld.mounted demo_file_fs" "ld.dir_ok demo_file_fs ds"
    "dir_lookup (linux_contents (dev demo_file_fs)) (strncmp_filename_cmp demo_name) ds = Some (d, i)"
    "get_item (linux_contents (dev demo_file_fs) d) i = demo_item pos" "ld.file_at demo_file_fs ds (demo_item pos) xs [1, 2, 3]"
    "usage_at (handles demo_file_fs) d i = 0" "length xs = 1"
  then show ?thesis
    using overwrite_read_back[OF a(1,2) demo_name_nonempty _ _ a(3) _ a(6), of "[9, 8]" 2 xs "[1, 2, 3]" 7]
    by (auto simp: min_def)
qed

text \<open>C4: deleting a file that is not open takes exactly its entry out of the directory and frees exactly
  its blocks (and a directory block that became empty); other files are as they were.\<close>

theorem delete_file:
  assumes "ld.mounted s" and "ld.dir_ok s ds" and "c_at name 0 \<noteq> 0"
    and lk: "dir_lookup (linux_contents (dev s)) (strncmp_filename_cmp name) ds = Some (d, i)"
    and f: "ld.file_at s ds (get_item (linux_contents (dev s) d) i) zs old" and "usage_at (handles s) d i = 0"
    and "ty = 0 \<or> ty = TFS_DIR_ITEM_FILE"
  shows "\<exists>s1 ds1 A B. tfs_delete linux_platform name ty s = Some s1 \<and> last_error s1 = TFS_ERR_OK \<and>
    ld.mounted s1 \<and> ld.dir_ok s1 ds1 \<and> set ds1 \<subseteq> set ds \<and>
    dir_items (linux_contents (dev s)) ds = A @ get_item (linux_contents (dev s) d) i # B \<and>
    dir_items (linux_contents (dev s1)) ds1 = A @ B \<and>
    (\<forall>n. blk_used (linux_contents (dev s1)) n \<longleftrightarrow>
      blk_used (linux_contents (dev s)) n \<and> n \<notin> set zs \<and> (n \<in> set ds \<longrightarrow> n \<in> set ds1)) \<and>
    (\<forall>it xs bs. ld.file_at s ds it xs bs \<longrightarrow> set xs \<inter> set zs = {} \<longrightarrow> ld.file_at s1 ds1 it xs bs)"
proof (rule ld.delete_closed_file[OF assms(1-3) _ f assms(6,7)])
  fix ds1 s1
  assume a: "tfs_delete linux_platform name ty s = Some s1" "last_error s1 = TFS_ERR_OK" "ld.mounted s1"
    "ld.removed s s1 ds ds1 (pf_filename_cmp linux_platform name) (get_item (linux_contents (dev s) d) i) (set zs)"
  then obtain A B where "dir_items (linux_contents (dev s)) ds = A @ get_item (linux_contents (dev s) d) i # B"
    "dir_items (linux_contents (dev s1)) ds1 = A @ B" by (auto simp: ld.removed_def)
  moreover have "ld.dir_ok s1 ds1" "set ds1 \<subseteq> set ds" "\<forall>n. blk_used (linux_contents (dev s1)) n \<longleftrightarrow>
    blk_used (linux_contents (dev s)) n \<and> n \<notin> set zs \<and> (n \<in> set ds \<longrightarrow> n \<in> set ds1)"
    using a(4) by (simp_all add: ld.removed_def)
  ultimately show ?thesis using a(1-3) ld.file_kept_removed[OF _ a(4)] by blast
qed (use lk in simp)

lemma delete_file_witness:
  "\<exists>s1 ds1. tfs_delete linux_platform demo_name TFS_DIR_ITEM_FILE demo_file_fs = Some s1 \<and> last_error s1 = TFS_ERR_OK \<and>
    ld.dir_ok s1 ds1"
proof (rule demo_slot)
  fix pos xs ds d i
  assume a: "ld.mounted demo_file_fs" "ld.dir_ok demo_file_fs ds"
    "dir_lookup (linux_contents (dev demo_file_fs)) (strncmp_filename_cmp demo_name) ds = Some (d, i)"
    "get_item (linux_contents (dev demo_file_fs) d) i = demo_item pos" "ld.file_at demo_file_fs ds (demo_item pos) xs [1, 2, 3]"
    "usage_at (handles demo_file_fs) d i = 0"
  show ?thesis
    using delete_file[OF a(1,2) demo_name_nonempty a(3) _ a(6), of xs "[1, 2, 3]" TFS_DIR_ITEM_FILE] a(4,5) by auto
qed

text \<open>C5: a directory is deleted exactly when it has one block and no entry in it; otherwise the error is
  \<open>TFS_ERR_NOT_EMPTY\<close> and the medium is as it was.\<close>

theorem delete_directory:
  assumes "ld.mounted s" and "ld.dir_ok s ds" and "c_at name 0 \<noteq> 0"
    and lk: "dir_lookup (linux_contents (dev s)) (strncmp_filename_cmp name) ds = Some (d, i)"
    and dir: "item_type (linux_contents (dev s) d) i = TFS_DIR_ITEM_DIR" and "usage_at (handles s) d i = 0"
    and ch: "chain (linux_contents (dev s)) (item_blk (linux_contents (dev s) d) i) zs" and "zs \<noteq> []"
    and own: "owned (linux_contents (dev s)) (blk_count s) zs" "set zs \<inter> set ds = {}"
    and ty: "ty = 0 \<or> ty = TFS_DIR_ITEM_DIR"
  shows "\<exists>s1. tfs_delete linux_platform name ty s = Some s1 \<and> ld.mounted s1 \<and>
    (if tl zs \<noteq> [] \<or> dir_items (linux_contents (dev s)) zs \<noteq> []
     then last_error s1 = TFS_ERR_NOT_EMPTY \<and> linux_contents (dev s1) = linux_contents (dev s)
     else last_error s1 = TFS_ERR_OK \<and> (\<exists>ds1 A B. ld.dir_ok s1 ds1 \<and>
       dir_items (linux_contents (dev s)) ds = A @ get_item (linux_contents (dev s) d) i # B \<and>
       dir_items (linux_contents (dev s1)) ds1 = A @ B \<and> \<not> blk_used (linux_contents (dev s1)) (hd zs)))"
proof -
  let ?it = "get_item (linux_contents (dev s) d) i"
  have df: "dir_find (linux_contents (dev s)) (pf_filename_cmp linux_platform name) ds = Some ?it"
    using lk by (simp add: dir_find_def slot_item_def)
  show ?thesis
  proof (rule ld.delete_cases[OF assms(1-3) _ own, of ty])
    fix d' i' assume "dir_lookup (linux_contents (dev s)) (pf_filename_cmp linux_platform name) ds = Some (d', i')"
    with lk ch assms(8) show "chain (linux_contents (dev s)) (item_blk (linux_contents (dev s) d') i') zs \<and> zs \<noteq> [] \<or>
      item_type (linux_contents (dev s) d') i' = TFS_DIR_ITEM_FILE \<and> item_blk (linux_contents (dev s) d') i' = 0 \<and> zs = []"
      by auto
  next
    fix it s1
    assume "tl zs \<noteq> [] \<or> dir_items (linux_contents (dev s)) zs \<noteq> []"
      "tfs_delete linux_platform name ty s = Some s1" "last_error s1 = TFS_ERR_NOT_EMPTY" "ld.mounted s1"
      "linux_contents (dev s1) = linux_contents (dev s)"
    then show ?thesis by auto
  next
    fix it ds1 s1
    assume a: "dir_find (linux_contents (dev s)) (pf_filename_cmp linux_platform name) ds = Some it"
      "it_type it = TFS_DIR_ITEM_FILE \<or> it_type it = TFS_DIR_ITEM_DIR \<and> tl zs = [] \<and> dir_items (linux_contents (dev s)) zs = []"
      "tfs_delete linux_platform name ty s = Some s1" "last_error s1 = TFS_ERR_OK" "ld.mounted s1"
      "ld.removed s s1 ds ds1 (pf_filename_cmp linux_platform name) it (set zs)"
    have it: "it = ?it" using a(1) df by simp
    then have e: "tl zs = []" "dir_items (linux_contents (dev s)) zs = []" using a(2) dir by simp_all
    obtain A B where "dir_items (linux_contents (dev s)) ds = A @ it # B" "dir_items (linux_contents (dev s1)) ds1 = A @ B"
      using a(6) by (auto simp: ld.removed_def)
    moreover have "ld.dir_ok s1 ds1" "\<not> blk_used (linux_contents (dev s1)) (hd zs)"
      using a(6) hd_in_set[OF assms(8)] by (simp_all add: ld.removed_def)
    ultimately show ?thesis using a(3-5) e it by (intro exI[of _ s1]) auto
  qed (use dir df lk assms(6) ty in auto)
qed

lemma delete_directory_witness:
  "\<exists>s1. tfs_delete linux_platform demo_name TFS_DIR_ITEM_DIR demo_dir_fs = Some s1 \<and> last_error s1 = TFS_ERR_OK"
proof (rule demo_dir)
  fix b ds d i
  assume a: "ld.mounted demo_dir_fs" "ld.dir_ok demo_dir_fs ds"
    "dir_lookup (linux_contents (dev demo_dir_fs)) (strncmp_filename_cmp demo_name) ds = Some (d, i)"
    "get_item (linux_contents (dev demo_dir_fs) d) i = demo_dir_item b" "usage_at (handles demo_dir_fs) d i = 0"
    "chain (linux_contents (dev demo_dir_fs)) b [b]" "owned (linux_contents (dev demo_dir_fs)) (blk_count demo_dir_fs) [b]"
    "b \<notin> set ds" "dir_items (linux_contents (dev demo_dir_fs)) [b] = []"
  have it: "item_type (linux_contents (dev demo_dir_fs) d) i = TFS_DIR_ITEM_DIR" "item_blk (linux_contents (dev demo_dir_fs) d) i = b"
    using a(4) by (simp_all add: get_item_def)
  show ?thesis
    using delete_directory[OF a(1,2) demo_name_nonempty a(3) it(1) a(5), of "[b]" TFS_DIR_ITEM_DIR] a(6-9) it by auto
qed

text \<open>C6: \<open>tfs_rename\<close> to a name that is not taken changes the name of the first entry that matches and
  nothing else: all entries keep their place, type, size and blocks, and no block outside the directory
  changes.\<close>

theorem rename_entry:
  assumes "ld.mounted s" and "ld.dir_ok s ds" and "c_at from 0 \<noteq> 0" and "c_at to 0 \<noteq> 0"
    and "entry s ds to = None" and "entry s ds from = Some it"
  shows "\<exists>s1 A B. tfs_rename linux_platform from to s = Some s1 \<and> last_error s1 = TFS_ERR_OK \<and> ld.mounted s1 \<and>
    ld.dir_ok s1 ds \<and> dir_items (linux_contents (dev s)) ds = A @ it # B \<and>
    dir_items (linux_contents (dev s1)) ds = A @ it\<lparr>it_name := strncpy TFS_NAME_LEN to\<rparr> # B \<and>
    entry s1 ds to = Some (it\<lparr>it_name := strncpy TFS_NAME_LEN to\<rparr>) \<and>
    (\<forall>n. n \<notin> set ds \<longrightarrow> linux_contents (dev s1) n = linux_contents (dev s) n)"
proof (rule ld.rename_cases[OF assms(1-4)])
  fix A it' B s1
  assume a: "dir_items (linux_contents (dev s)) ds = A @ it' # B" "\<forall>a \<in> set A. \<not> pf_filename_cmp linux_platform from (it_name a)"
    "pf_filename_cmp linux_platform from (it_name it')" "tfs_rename linux_platform from to s = Some s1"
    "last_error s1 = TFS_ERR_OK" "ld.mounted s1" "ld.dir_ok s1 ds"
    "dir_items (linux_contents (dev s1)) ds = A @ it'\<lparr>it_name := strncpy TFS_NAME_LEN to\<rparr> # B"
    "\<And>n. n \<notin> set ds \<Longrightarrow> linux_contents (dev s1) n = linux_contents (dev s) n"
  have "find (\<lambda>it. strncmp_filename_cmp from (it_name it)) A = None" using a(2) by (auto simp: find_None_iff)
  then have it: "it' = it" using assms(6) a(1,3) by (simp add: dir_find_items find_append)
  have "\<forall>x \<in> set (A @ it' # B). \<not> strncmp_filename_cmp to (it_name x)"
    using assms(5) unfolding a(1)[symmetric] by (auto simp: dir_find_items find_None_iff)
  then have "find (\<lambda>it. strncmp_filename_cmp to (it_name it)) A = None" by (auto simp: find_None_iff)
  then have "entry s1 ds to = Some (it\<lparr>it_name := strncpy TFS_NAME_LEN to\<rparr>)"
    using a(8) it by (simp add: dir_find_items find_append)
  with a it show ?thesis by blast
qed (use assms(5,6) in auto)

lemma rename_entry_witness:
  "\<exists>ds pos s1. tfs_rename linux_platform demo_name demo_other demo_file_fs = Some s1 \<and> last_error s1 = TFS_ERR_OK \<and>
    entry s1 ds demo_other = Some ((demo_item pos)\<lparr>it_name := strncpy TFS_NAME_LEN demo_other\<rparr>)"
proof (rule demo_file)
  fix pos xs ds
  assume a: "ld.mounted demo_file_fs" "ld.dir_ok demo_file_fs ds" "entry demo_file_fs ds demo_other = None"
    "entry demo_file_fs ds demo_name = Some (demo_item pos)"
  show ?thesis using rename_entry[OF a(1,2) demo_name_nonempty demo_other_nonempty a(3,4)] by blast
qed

section \<open>Directories\<close>

text \<open>C7: with two free blocks, \<open>tfs_create_dir\<close> of a new name makes an empty directory, \<open>tfs_change_dir\<close>
  enters it, and \<open>tfs_change_dir_parent\<close> returns to where the program was.\<close>

theorem create_enter_leave:
  assumes "ld.mounted s" and "ld.dir_ok s ds" and "c_at name 0 \<noteq> 0" and "entry s ds name = None"
    and room: "1 < card (free_set (linux_contents (dev s)) (blk_count s))"
  shows "\<exists>b ds1 s1 s2 s3. tfs_create_dir linux_platform name s = Some s1 \<and> last_error s1 = TFS_ERR_OK \<and>
    entry s1 ds1 name = Some \<lparr>it_blk = b, it_size = 0, it_type = TFS_DIR_ITEM_DIR, it_name = strncpy TFS_NAME_LEN name\<rparr> \<and>
    tfs_change_dir linux_platform name s1 = Some s2 \<and> last_error s2 = TFS_ERR_OK \<and> current_dir_blk s2 = b \<and>
    ld.dir_ok s2 [b] \<and> dir_items (linux_contents (dev s2)) [b] = [] \<and>
    tfs_change_dir_parent linux_platform s2 = Some s3 \<and> last_error s3 = TFS_ERR_OK \<and>
    current_dir_blk s3 = current_dir_blk s"
proof (rule ld.create_dir_cases[OF assms(1-3)])
  fix ds1 s1 assume "free_set (linux_contents (dev s1)) (blk_count s1) = {}" "ld.dir_grown s s1 ds ds1 {}"
  from ld.grown_until_full[OF this(2) assms(2) this(1)] room show ?thesis by simp
next
  fix ds1 b s1
  let ?it = "\<lparr>it_blk = b, it_size = 0, it_type = TFS_DIR_ITEM_DIR, it_name = strncpy TFS_NAME_LEN name\<rparr>"
  assume a: "tfs_create_dir linux_platform name s = Some s1" "last_error s1 = TFS_ERR_OK" "ld.mounted s1" "b \<notin> set ds1"
    "ld.entry_added s s1 ds ds1 ?it {b}" "linux_contents (dev s1) b = set_parent (replicate TFS_BLOCKSIZE 0) (current_dir_blk s)"
    "dir_lookup (linux_contents (dev s)) (pf_filename_cmp linux_platform name) ds = None"
  have g: "ld.dir_grown s s1 ds ds1 {b}" and e: "entry s1 ds1 name = Some ?it"
    using a(5,7) by (simp_all add: ld.entry_added_def)
  have ok1: "ld.dir_ok s1 ds1" and b: "b < blk_count s1" "\<not> is_bitmap_blk b" "b \<noteq> 0" "blk_used (linux_contents (dev s1)) b"
    and cur: "current_dir_blk s1 = current_dir_blk s"
    using g by (auto simp: ld.dir_grown_def fs_frame_def)
  have nz: "current_dir_blk s \<noteq> 0" using assms(2) by (auto simp: ld.dir_ok_def)
  obtain s2 where s2: "tfs_change_dir linux_platform name s1 = Some s2" "last_error s2 = TFS_ERR_OK" "ld.mounted s2"
    "linux_contents (dev s2) = linux_contents (dev s1)" "current_dir_blk s2 = b" "blk_count s2 = blk_count s1"
    by (rule ld.change_dir_cases[OF a(3) ok1 assms(3)]) (use e in auto)
  have ok2: "ld.dir_ok s2 [b]" using s2 b a(6) by (simp add: ld.dir_ok_def owned_def)
  have emp: "dir_items (linux_contents (dev s2)) [b] = []"
    using s2(4) a(6) by (simp add: dir_items_def block_items_def get_item_def filter_empty_conv)
  obtain s3 where s3: "tfs_change_dir_parent linux_platform s2 = Some s3"
    "last_error s3 = (if dir_parent (linux_contents (dev s2) (current_dir_blk s2)) = 0 then TFS_ERR_NOT_EXIST else TFS_ERR_OK)"
    "current_dir_blk s3 = (if dir_parent (linux_contents (dev s2) (current_dir_blk s2)) = 0 then current_dir_blk s2
      else dir_parent (linux_contents (dev s2) (current_dir_blk s2)))"
    by (rule ld.change_dir_parent_spec[OF s2(3)]) (use s2 b in auto)
  have "dir_parent (linux_contents (dev s2) (current_dir_blk s2)) = current_dir_blk s" using s2 a(6) by simp
  with a e s2 ok2 emp s3 nz show ?thesis by auto
qed (use assms(4) in \<open>auto simp: dir_find_def\<close>)

lemma create_enter_leave_witness:
  "\<exists>s1 s2 s3. tfs_create_dir linux_platform demo_name demo_fs = Some s1 \<and>
    tfs_change_dir linux_platform demo_name s1 = Some s2 \<and>
    tfs_change_dir_parent linux_platform s2 = Some s3 \<and> current_dir_blk s3 = 1"
  using create_enter_leave[of demo_fs "[1]" demo_name] by (auto simp: demo_free_card)

end
